(* ===== verification/Prelude.thy ===== *)
theory Prelude
  imports Main "HOL-Library.Word" "HOL-Library.Sublist"
begin

text \<open>
  Shared vocabulary of the development: machine integers at their width, the results of parsers
  (\<open>winnow::ModalResult\<close>) and of writers (\<open>WResult\<close>), the sequencing of both as the
  \<open>?\<close> operator does it, loops over an input with fuel, and the predicates \<open>parser_ok\<close>,
  \<open>parser_strict\<close> and \<open>writes\<close> with their introduction rules, on which the proofs of the
  components rest.
\<close>

unbundle bit_operations_syntax

section \<open>Machine integers and strings\<close>

type_synonym u8 = "8 word"
type_synonym u16 = "16 word"
type_synonym u32 = "32 word"
type_synonym u64 = "64 word"
type_synonym usize = "64 word"

type_synonym bytes = "u8 list"

text \<open>A \<open>&str\<close> is represented by its UTF-8 bytes (theory Utf8 says which lists are strings).\<close>

type_synonym rstr = "u8 list"

lemma unat_u8_less: "unat (b :: u8) < 256"
  using unsigned_less [of b] by simp

lemma unat_u16_less: "unat (n :: u16) < 65536"
  using unsigned_less [of n] by simp

text \<open>For evaluation: a large bound on a natural number is compared in binary.\<close>

lemma nat_le_numeral: "(n :: nat) \<le> numeral k \<longleftrightarrow> int n \<le> numeral k"
  by (simp add: nat_le_iff)

text \<open>Two bytes, or two halves, in network order.\<close>

lemma word_cat_u16: "(word_cat (a :: u8) (b :: u8) :: u16) = ucast a * 256 + ucast b"
proof -
  have "(word_cat a b :: u16) = push_bit 8 (ucast a) OR ucast b"
    by (rule bit_word_eqI) (auto simp: bit_simps dest: bit_imp_le_length)
  also have "\<dots> = push_bit 8 (ucast a) + ucast b"
    by (rule disjunctive_add [symmetric]) (auto simp: bit_simps dest: bit_imp_le_length)
  finally show ?thesis by (simp add: push_bit_eq_mult mult.commute)
qed

lemma word_cat_u32: "(word_cat (a :: u16) (b :: u16) :: u32) = ucast a * 65536 + ucast b"
proof -
  have "(word_cat a b :: u32) = push_bit 16 (ucast a) OR ucast b"
    by (rule bit_word_eqI) (auto simp: bit_simps dest: bit_imp_le_length)
  also have "\<dots> = push_bit 16 (ucast a) + ucast b"
    by (rule disjunctive_add [symmetric]) (auto simp: bit_simps dest: bit_imp_le_length)
  finally show ?thesis by (simp add: push_bit_eq_mult mult.commute)
qed

section \<open>Collections of facts\<close>

named_theorems parser_intros \<open>which parsers are total, and which consume input\<close>
named_theorems writes_intros \<open>what the writers append\<close>
named_theorems defs \<open>definitions of the small parsers and writers, to unfold on concrete input\<close>

section \<open>Results of parsers\<close>

text \<open>
  \<open>winnow::error::ErrMode\<close> without the error payload, which no code of the repository reads.
  \<open>OutOfFuel\<close> and \<open>Panicked\<close> are not values of the code: they mark a loop of the model that
  was cut off and a panic, and the totality theorems show that neither ever occurs.
\<close>

datatype needed = Unknown | Size nat

datatype err_mode = Incomplete needed | Backtrack | Cut | OutOfFuel | Panicked

datatype 'a presult = POk 'a bytes | PErr err_mode

type_synonym 'a parser = "bytes \<Rightarrow> 'a presult"

text \<open>The \<open>?\<close> operator on parsers, and the adapters that do not look at the input.\<close>

definition p_return :: "'a \<Rightarrow> 'a parser" where
  "p_return x i = POk x i"

definition p_fail :: "err_mode \<Rightarrow> 'a parser" where
  "p_fail e i = PErr e"

definition p_bind :: "'a parser \<Rightarrow> ('a \<Rightarrow> 'b parser) \<Rightarrow> 'b parser" where
  "p_bind p f i = (case p i of POk x r \<Rightarrow> f x r | PErr e \<Rightarrow> PErr e)"

definition p_map :: "('a \<Rightarrow> 'b) \<Rightarrow> 'a parser \<Rightarrow> 'b parser" where
  "p_map f p i = (case p i of POk x r \<Rightarrow> POk (f x) r | PErr e \<Rightarrow> PErr e)"

text \<open>\<open>verify\<close>: the value must satisfy a predicate; \<open>try_map\<close>: a conversion that may fail.\<close>

definition p_verify :: "('a \<Rightarrow> bool) \<Rightarrow> 'a parser \<Rightarrow> 'a parser" where
  "p_verify P p i = (case p i of POk x r \<Rightarrow> if P x then POk x r else PErr Backtrack | PErr e \<Rightarrow> PErr e)"

definition p_try_map :: "('a \<Rightarrow> 'b option) \<Rightarrow> 'a parser \<Rightarrow> 'b parser" where
  "p_try_map f p i =
     (case p i of
        POk x r \<Rightarrow> (case f x of Some y \<Rightarrow> POk y r | None \<Rightarrow> PErr Backtrack)
      | PErr e \<Rightarrow> PErr e)"

text \<open>\<open>Parser::take\<close>: the slice of the input a parser consumed.\<close>

definition p_take :: "'a parser \<Rightarrow> bytes parser" where
  "p_take p i = (case p i of POk x r \<Rightarrow> POk (take (length i - length r) i) r | PErr e \<Rightarrow> PErr e)"

text \<open>\<open>input.is_empty()\<close> as a parser that consumes nothing, and \<open>input.finish()\<close>.\<close>

definition p_is_empty :: "bool parser" where
  "p_is_empty i = POk (i = []) i"

definition p_finish :: "bytes parser" where
  "p_finish i = POk i []"

text \<open>Running a parser on a slice of its own; what the slice has left is dropped.\<close>

definition p_inner :: "'a parser \<Rightarrow> bytes \<Rightarrow> 'a parser" where
  "p_inner p sl i = (case p sl of POk x r \<Rightarrow> POk x i | PErr e \<Rightarrow> PErr e)"

lemmas p_defs [defs] =
  p_return_def p_fail_def p_bind_def p_map_def p_verify_def p_try_map_def p_take_def
  p_is_empty_def p_finish_def p_inner_def

text \<open>The loop \<open>while !input.is_empty() { body }\<close> over a state, with fuel.\<close>

fun while_input :: "nat \<Rightarrow> ('s \<Rightarrow> 's parser) \<Rightarrow> 's \<Rightarrow> 's parser" where
  "while_input n body s [] = POk s []"
| "while_input 0 body s (b # bs) = PErr OutOfFuel"
| "while_input (Suc n) body s (b # bs) =
     (case body s (b # bs) of POk s' r \<Rightarrow> while_input n body s' r | PErr e \<Rightarrow> PErr e)"

subsection \<open>Total and consuming parsers\<close>

text \<open>
  A parser is ok when on complete input it either succeeds with a suffix of its input or fails
  with a proper error: it neither asks for more input nor runs out of fuel. It is strict when
  every success consumes at least one byte.
\<close>

definition parser_by :: "(bytes \<Rightarrow> bytes \<Rightarrow> bool) \<Rightarrow> 'a parser \<Rightarrow> bool" where
  "parser_by R p \<longleftrightarrow>
     (\<forall>i x r. p i = POk x r \<longrightarrow> R r i) \<and> (\<forall>i e. p i = PErr e \<longrightarrow> e = Backtrack \<or> e = Cut)"

abbreviation parser_ok :: "'a parser \<Rightarrow> bool" where
  "parser_ok \<equiv> parser_by suffix"

abbreviation parser_strict :: "'a parser \<Rightarrow> bool" where
  "parser_strict \<equiv> parser_by strict_suffix"

lemma parser_byI:
  assumes "\<And>i x r. p i = POk x r \<Longrightarrow> R r i"
    and "\<And>i e. p i = PErr e \<Longrightarrow> e = Backtrack \<or> e = Cut"
  shows "parser_by R p"
  using assms by (auto simp: parser_by_def)

lemma parser_by_POk: "parser_by R p \<Longrightarrow> p i = POk x r \<Longrightarrow> R r i"
  by (auto simp: parser_by_def)

lemma parser_by_PErr: "parser_by R p \<Longrightarrow> p i = PErr e \<Longrightarrow> e = Backtrack \<or> e = Cut"
  by (auto simp: parser_by_def)

lemma strict_suffix_length: "strict_suffix r i \<Longrightarrow> length r < length i"
  by (auto simp: strict_suffix_def suffix_def)

lemma parser_strict_length: "parser_strict p \<Longrightarrow> p i = POk x r \<Longrightarrow> length r < length i"
  by (rule strict_suffix_length) (rule parser_by_POk)

lemma parser_strict_ok: "parser_strict p \<Longrightarrow> parser_ok p"
  by (auto simp: parser_by_def strict_suffix_def)

lemma parser_ok_return [parser_intros]: "parser_ok (p_return x)"
  by (rule parser_byI) (simp_all add: p_return_def)

lemma parser_by_fail [parser_intros]: "parser_by R (p_fail Backtrack)" "parser_by R (p_fail Cut)"
  by (rule parser_byI; simp add: p_fail_def)+

lemma parser_ok_is_empty [parser_intros]: "parser_ok p_is_empty"
  by (rule parser_byI) (simp_all add: p_is_empty_def)

lemma parser_ok_finish [parser_intros]: "parser_ok p_finish"
  by (rule parser_byI) (simp_all add: p_finish_def)

lemma parser_bindI:
  assumes "parser_by R p" and "\<And>x. parser_by S (f x)"
    and "\<And>a b c. R b c \<Longrightarrow> S a b \<Longrightarrow> T a c"
  shows "parser_by T (p_bind p f)"
proof (rule parser_byI)
  fix i y r
  assume "p_bind p f i = POk y r"
  then obtain x r' where "p i = POk x r'" "f x r' = POk y r"
    by (auto simp: p_bind_def split: presult.splits)
  with assms show "T r i" by (blast dest: parser_by_POk)
next
  fix i e
  assume "p_bind p f i = PErr e"
  with assms(1,2) show "e = Backtrack \<or> e = Cut"
    by (auto simp: p_bind_def split: presult.splits dest: parser_by_PErr)
qed

lemma parser_ok_bind [parser_intros]:
  assumes "parser_ok p" and "\<And>x. parser_ok (f x)"
  shows "parser_ok (p_bind p f)"
  by (rule parser_bindI [OF assms suffix_order.trans])

lemma parser_strict_bind [parser_intros]:
  assumes "parser_strict p" and "\<And>x. parser_ok (f x)"
  shows "parser_strict (p_bind p f)"
  by (rule parser_bindI [OF assms]) (rule suffix_order.le_less_trans)

lemma parser_map [parser_intros]: "parser_by R p \<Longrightarrow> parser_by R (p_map f p)"
  by (auto simp: parser_by_def p_map_def split: presult.splits)

lemma parser_verify [parser_intros]: "parser_by R p \<Longrightarrow> parser_by R (p_verify P p)"
  by (auto simp: parser_by_def p_verify_def split: presult.splits if_splits)

lemma parser_try_map [parser_intros]: "parser_by R p \<Longrightarrow> parser_by R (p_try_map g p)"
  by (auto simp: parser_by_def p_try_map_def split: presult.splits option.splits)

lemma parser_take [parser_intros]: "parser_by R p \<Longrightarrow> parser_by R (p_take p)"
  by (auto simp: parser_by_def p_take_def split: presult.splits)

lemma parser_inner [parser_intros]: "parser_ok p \<Longrightarrow> parser_ok (p_inner p s)"
  by (auto simp: parser_by_def p_inner_def split: presult.splits)

lemma parser_if [parser_intros]:
  "(b \<Longrightarrow> parser_by R p) \<Longrightarrow> (\<not> b \<Longrightarrow> parser_by R q) \<Longrightarrow> parser_by R (if b then p else q)"
  by simp

lemma parser_option [parser_intros]:
  "(x = None \<Longrightarrow> parser_by R p) \<Longrightarrow> (\<And>y. x = Some y \<Longrightarrow> parser_by R (f y)) \<Longrightarrow>
    parser_by R (case x of None \<Rightarrow> p | Some y \<Rightarrow> f y)"
  by (cases x) simp_all

text \<open>A loop whose body is strict needs one unit of fuel per byte.\<close>

lemma while_input_ok:
  assumes "\<And>s. parser_strict (body s)" and "length i \<le> n"
  shows "(\<exists>s'. while_input n body s i = POk s' []) \<or>
         while_input n body s i = PErr Backtrack \<or> while_input n body s i = PErr Cut"
  using assms(2)
proof (induction n arbitrary: s i)
  case 0
  then show ?case by simp
next
  case (Suc n)
  show ?case
  proof (cases i)
    case (Cons b bs)
    show ?thesis
    proof (cases "body s i")
      case (POk s' r)
      then have "length r < length i"
        by (rule parser_strict_length [OF assms(1)])
      with Suc.prems have "length r \<le> n" by simp
      from Suc.IH [OF this, of s'] POk Cons show ?thesis by simp
    next
      case (PErr e)
      with assms(1) have "e = Backtrack \<or> e = Cut" by (blast dest: parser_by_PErr)
      with PErr Cons show ?thesis by auto
    qed
  qed simp
qed

lemma while_input_fuel:
  assumes "\<And>s. parser_strict (body s)" and "length i \<le> n"
  shows "while_input n body s i = while_input (length i) body s i"
  using assms(2)
proof (induction "length i" arbitrary: s i n rule: less_induct)
  case less
  show ?case
  proof (cases i)
    case (Cons b bs)
    with less.prems obtain m where m: "n = Suc m" by (cases n) auto
    show ?thesis
    proof (cases "body s i")
      case (POk s' r)
      then have "length r < length i"
        by (rule parser_strict_length [OF assms(1)])
      then have "while_input m body s' r = while_input (length r) body s' r"
        and "while_input (length bs) body s' r = while_input (length r) body s' r"
        using less.hyps [of r m s'] less.hyps [of r "length bs" s'] less.prems m Cons
        by simp_all
      with m Cons POk show ?thesis by simp
    next
      case (PErr e)
      with m Cons show ?thesis by simp
    qed
  qed simp
qed

lemma while_input_step:
  assumes "\<And>s. parser_strict (body s)" and "body s i = POk s' r" and "i \<noteq> []"
  shows "while_input (length i) body s i = while_input (length r) body s' r"
proof -
  obtain b bs where i: "i = b # bs" using assms(3) by (cases i) auto
  have "length r < length i" by (rule parser_strict_length [OF assms(1,2)])
  then have "while_input (length bs) body s' r = while_input (length r) body s' r"
    using while_input_fuel [OF assms(1), of r "length bs"] i by simp
  with assms(2) i show ?thesis by simp
qed

section \<open>Writers\<close>

text \<open>
  A writer appends to a byte buffer (\<open>TestWriter\<close> and \<open>BytesMutWriter\<close>, the two
  implementations of \<open>WriteMqttPacket\<close>) and returns a result; the type of its errors is a
  parameter, for the two formats. What was written before an
  error stays in the buffer. \<open>WPanic\<close> is a panic (\<open>unreachable!()\<close>, \<open>expect\<close>).
\<close>

datatype write_error = Invariant

datatype 'e wresult = WOk | WErr 'e | WPanic

type_synonym 'e error_writer = "bytes \<Rightarrow> 'e wresult \<times> bytes"

type_synonym writer = "write_error error_writer"

fun w_seq :: "'e error_writer list \<Rightarrow> 'e error_writer" where
  "w_seq [] buf = (WOk, buf)"
| "w_seq (w # ws) buf =
     (case w buf of
        (WOk, buf') \<Rightarrow> w_seq ws buf'
      | (WErr e, buf') \<Rightarrow> (WErr e, buf')
      | (WPanic, buf') \<Rightarrow> (WPanic, buf'))"

definition w_fail :: "'e \<Rightarrow> 'e error_writer" where
  "w_fail e buf = (WErr e, buf)"

definition w_panic :: "'e error_writer" where
  "w_panic buf = (WPanic, buf)"

lemmas w_defs [defs] = w_fail_def w_panic_def

text \<open>The writer succeeds and appends exactly these bytes.\<close>

definition writes :: "'e error_writer \<Rightarrow> bytes \<Rightarrow> bool" where
  "writes w bs \<longleftrightarrow> (\<forall>buf. w buf = (WOk, buf @ bs))"

lemma writesD: "writes w bs \<Longrightarrow> w buf = (WOk, buf @ bs)"
  by (simp add: writes_def)

lemma writes_Nil [writes_intros]: "writes (w_seq []) []"
  by (simp add: writes_def)

lemma writes_Cons [writes_intros]:
  "writes w a \<Longrightarrow> writes (w_seq ws) b \<Longrightarrow> writes (w_seq (w # ws)) (a @ b)"
  by (simp add: writes_def)

lemma writes_one: "writes w a \<Longrightarrow> writes (w_seq [w]) a"
  by (simp add: writes_def)

lemma w_seq_append:
  "w_seq (us @ vs) buf =
     (case w_seq us buf of
        (WOk, buf') \<Rightarrow> w_seq vs buf'
      | (WErr e, buf') \<Rightarrow> (WErr e, buf')
      | (WPanic, buf') \<Rightarrow> (WPanic, buf'))"
  by (induction us arbitrary: buf) (auto split: prod.splits wresult.splits)

lemma writes_append [writes_intros]:
  "writes (w_seq us) a \<Longrightarrow> writes (w_seq vs) b \<Longrightarrow> writes (w_seq (us @ vs)) (a @ b)"
  by (simp add: writes_def w_seq_append)

section \<open>Panics\<close>

text \<open>What a call comes to: it returns, or it panics.\<close>

datatype 'a outcome = Return 'a | Panic

section \<open>Sizes\<close>

text \<open>
  \<open>binary_size\<close> adds \<open>u32\<close> values; addition wraps, as in release builds. \<open>None\<close> is
  the \<open>unreachable!()\<close> panic of \<open>variable_u32_binary_size\<close>.
\<close>

definition s_add :: "u32 option \<Rightarrow> u32 option \<Rightarrow> u32 option" where
  "s_add a b = (case a of None \<Rightarrow> None | Some x \<Rightarrow> (case b of None \<Rightarrow> None | Some y \<Rightarrow> Some (x + y)))"

definition s_sum :: "u32 option list \<Rightarrow> u32 option" where
  "s_sum xs = foldr s_add xs (Some 0)"

lemma s_sum_simps [simp]: "s_sum [] = Some 0" "s_sum (x # xs) = s_add x (s_sum xs)"
  by (simp_all add: s_sum_def)

text \<open>The size announces the length of an encoding.\<close>

definition sizes :: "u32 option \<Rightarrow> bytes \<Rightarrow> bool" where
  "sizes s bs \<longleftrightarrow> s = Some (word_of_nat (length bs))"

lemma sizes_add: "sizes a xs \<Longrightarrow> sizes b ys \<Longrightarrow> sizes (s_add a b) (xs @ ys)"
  by (simp add: sizes_def s_add_def)

lemma sizes_Nil: "sizes (Some 0) []"
  by (simp add: sizes_def)

lemma sizes_sum_Cons: "sizes a xs \<Longrightarrow> sizes (s_sum ss) ys \<Longrightarrow> sizes (s_sum (a # ss)) (xs @ ys)"
  by (simp add: sizes_add)

lemma sizes_one: "sizes a xs \<Longrightarrow> sizes (s_sum [a]) xs"
  using sizes_add [OF _ sizes_Nil] by simp

end
