(* ===== verification/Winnow.thy ===== *)
theory Winnow
  imports Prelude
begin

text \<open>
  The parser library \<open>winnow\<close> is not part of the repository. Its functions that read the input
  are the fields of a record, the first argument of every parser of the development; the locale
  \<open>winnow_spec\<close> states their documented behaviour on the inputs the code gives them, and
  \<open>winnow_ref\<close> is one record that satisfies it, for the witnesses. The first argument of
  \<open>win_u8\<close> and \<open>win_take_upto\<close> says whether the stream is \<open>Partial\<close>.
\<close>

section \<open>The interface\<close>

text \<open>A bit-level stream is a byte slice and the number of bits already read of its first byte.\<close>

type_synonym bit_stream = "bytes \<times> nat"

datatype 'a bresult = BOk 'a bit_stream | BErr err_mode

type_synonym 'a bit_parser = "bit_stream \<Rightarrow> 'a bresult"

record winnow =
  win_u8 :: "bool \<Rightarrow> u8 parser"  \<comment> \<open>\<open>binary::u8\<close>\<close>
  win_be_u16 :: "u16 parser"  \<comment> \<open>\<open>binary::u16(Endianness::Big)\<close>\<close>
  win_be_u32 :: "u32 parser"  \<comment> \<open>\<open>binary::u32(Endianness::Big)\<close>\<close>
  win_take_upto :: "bool \<Rightarrow> nat \<Rightarrow> (u8 \<Rightarrow> bool) \<Rightarrow> bytes parser"  \<comment> \<open>\<open>token::take_while(0..=n, p)\<close>\<close>
  win_length_take :: "nat parser \<Rightarrow> bytes parser"  \<comment> \<open>\<open>binary::length_take(len)\<close>\<close>
  win_eof :: "unit parser"  \<comment> \<open>\<open>combinator::eof\<close>\<close>
  win_repeat_till :: "nat \<Rightarrow> unit parser \<Rightarrow> unit parser \<Rightarrow> unit parser"
    \<comment> \<open>\<open>combinator::repeat_till(min.., f, g)\<close> accumulating into \<open>()\<close>\<close>
  win_bits_take :: "nat \<Rightarrow> u8 bit_parser"  \<comment> \<open>\<open>binary::bits::take(n)\<close>\<close>
  win_bits_pattern :: "u8 \<Rightarrow> nat \<Rightarrow> u8 bit_parser"  \<comment> \<open>\<open>binary::bits::pattern(v, n)\<close>\<close>
  win_bits_bool :: "bool bit_parser"  \<comment> \<open>\<open>binary::bits::bool\<close>\<close>
  win_bits_end :: "bit_stream \<Rightarrow> bytes"  \<comment> \<open>the way back to bytes at the end of \<open>bits\<close>\<close>

text \<open>Sequencing of bit parsers (a tuple of them), and \<open>bits(p)\<close> around one.\<close>

definition b_bind :: "'a bit_parser \<Rightarrow> ('a \<Rightarrow> 'b bit_parser) \<Rightarrow> 'b bit_parser" where
  "b_bind p f s = (case p s of BOk x s' \<Rightarrow> f x s' | BErr e \<Rightarrow> BErr e)"

definition b_return :: "'a \<Rightarrow> 'a bit_parser" where
  "b_return x s = BOk x s"

definition b_try_map :: "('a \<Rightarrow> 'b option) \<Rightarrow> 'a bit_parser \<Rightarrow> 'b bit_parser" where
  "b_try_map f p s =
     (case p s of
        BOk x s' \<Rightarrow> (case f x of Some y \<Rightarrow> BOk y s' | None \<Rightarrow> BErr Backtrack)
      | BErr e \<Rightarrow> BErr e)"

text \<open>\<open>bits(p)\<close> with the \<open>map_err(|_| ErrMode::from_input(input))\<close> that follows it in every use.\<close>

definition p_bits :: "winnow \<Rightarrow> 'a bit_parser \<Rightarrow> 'a parser" where
  "p_bits W p i =
     (case p (i, 0) of BOk x s \<Rightarrow> POk x (win_bits_end W s) | BErr e \<Rightarrow> PErr Backtrack)"

text \<open>\<open>length_and_then(len, p)\<close>: \<open>p\<close> on the slice that \<open>length_take(len)\<close> returns.\<close>

definition length_and_then :: "winnow \<Rightarrow> nat parser \<Rightarrow> 'a parser \<Rightarrow> 'a parser" where
  "length_and_then W len p = p_bind (win_length_take W len) (\<lambda>sl. p_inner p sl)"

lemmas b_defs [defs] = b_bind_def b_return_def b_try_map_def p_bits_def length_and_then_def

text \<open>Bits \<open>off\<close> to \<open>off + n\<close> of a byte, counted from the most significant one.\<close>

definition bits_of :: "u8 \<Rightarrow> nat \<Rightarrow> nat \<Rightarrow> u8" where
  "bits_of b off n = take_bit n (drop_bit (8 - (off + n)) b)"

lemma byte_halves: "b = push_bit 4 (bits_of b 0 4) OR bits_of b 4 4"
  by (rule bit_word_eqI) (auto simp: bits_of_def bit_simps)

text \<open>An input that a parser reads, one value after the other, to its end.\<close>

inductive pieces :: "'a parser \<Rightarrow> 'a list \<Rightarrow> bytes \<Rightarrow> bool" for f where
  Nil: "pieces f [] []"
| Cons: "f i = POk x r \<Longrightarrow> i \<noteq> [] \<Longrightarrow> pieces f xs r \<Longrightarrow> pieces f (x # xs) i"

section \<open>Documented behaviour\<close>

locale winnow_spec =
  fixes W :: winnow
  assumes u8_Cons: "win_u8 W partial (b # r) = POk b r"
    and u8_Nil: "win_u8 W partial [] = PErr (if partial then Incomplete (Size 1) else Backtrack)"
    and be_u16_Cons: "win_be_u16 W (a # b # r) = POk (word_cat a b) r"
    and be_u16_short: "length i < 2 \<Longrightarrow> win_be_u16 W i = PErr Backtrack"
    and be_u32_Cons: "win_be_u32 W (a # b # c # d # r) =
      POk (word_cat (word_cat a b :: u16) (word_cat c d :: u16)) r"
    and be_u32_short: "length i < 4 \<Longrightarrow> win_be_u32 W i = PErr Backtrack"
    and take_upto: "win_take_upto W partial n P i =
      (let k = length (takeWhile P (take n i))
       in if partial \<and> k = length i \<and> k < n then PErr (Incomplete (Size 1))
          else POk (take k i) (drop k i))"
    and length_take: "win_length_take W len i =
      (case len i of
         POk n r \<Rightarrow> if n \<le> length r then POk (take n r) (drop n r) else PErr Backtrack
       | PErr e \<Rightarrow> PErr e)"
    and eof: "win_eof W i = (if i = [] then POk () [] else PErr Backtrack)"
    and repeat_till_Suc: "win_repeat_till W (Suc n) f g i =
      (case f i of POk x r \<Rightarrow> win_repeat_till W n f g r | PErr e \<Rightarrow> PErr e)"
    and repeat_till_0: "parser_strict f \<Longrightarrow> win_repeat_till W 0 f g i =
      (case g i of
         POk x r \<Rightarrow> POk () r
       | PErr e \<Rightarrow>
           if e = Backtrack
           then (case f i of POk x r \<Rightarrow> win_repeat_till W 0 f g r | PErr e' \<Rightarrow> PErr e')
           else PErr e)"
    and bits_take_Nil: "0 < n \<Longrightarrow> win_bits_take W n ([], 0) = BErr Backtrack"
    and bits_take_Cons: "0 < n \<Longrightarrow> off + n \<le> 8 \<Longrightarrow> win_bits_take W n (b # r, off) =
      BOk (bits_of b off n) (if off + n = 8 then (r, 0) else (b # r, off + n))"
    and bits_pattern: "win_bits_pattern W v n s =
      (case win_bits_take W n s of
         BOk x s' \<Rightarrow> if x = v then BOk x s' else BErr Backtrack
       | BErr e \<Rightarrow> BErr e)"
    and bits_bool: "win_bits_bool W s =
      (case win_bits_take W 1 s of BOk x s' \<Rightarrow> BOk (x \<noteq> 0) s' | BErr e \<Rightarrow> BErr e)"
    and bits_end: "win_bits_end W (r, 0) = r"

context winnow_spec begin

lemmas win_simps = u8_Cons u8_Nil be_u16_Cons be_u16_short be_u32_Cons be_u32_short take_upto
  length_take eof bits_take_Nil bits_take_Cons bits_pattern bits_bool bits_end

lemma u8_strict [parser_intros]: "parser_strict (win_u8 W False)"
proof (rule parser_byI)
  show "strict_suffix r i" if "win_u8 W False i = POk x r" for i x r
    using that by (cases i) (auto simp: u8_Cons u8_Nil strict_suffix_def suffix_def)
  show "e = Backtrack \<or> e = Cut" if "win_u8 W False i = PErr e" for i e
    using that by (cases i) (auto simp: u8_Cons u8_Nil)
qed

lemma be_u16_cases:
  obtains a b r where "i = a # b # r" "win_be_u16 W i = POk (word_cat a b) r"
  | "length i < 2" "win_be_u16 W i = PErr Backtrack"
proof (cases "length i < 2")
  case False
  then obtain a b r where "i = a # b # r"
    by (metis One_nat_def Suc_1 Suc_less_eq length_Cons list.exhaust list.size(3) zero_less_Suc)
  with that(1) show ?thesis by (simp add: be_u16_Cons)
qed (use that(2) be_u16_short in simp)

lemma be_u16_strict [parser_intros]: "parser_strict (win_be_u16 W)"
proof (rule parser_byI)
  show "strict_suffix r i" if "win_be_u16 W i = POk x r" for i x r
    using that by (cases rule: be_u16_cases [of i]) (auto simp: strict_suffix_def suffix_def)
  show "e = Backtrack \<or> e = Cut" if "win_be_u16 W i = PErr e" for i e
    using that by (cases rule: be_u16_cases [of i]) auto
qed

lemma be_u32_cases:
  obtains a b c d r where "i = a # b # c # d # r"
    "win_be_u32 W i = POk (word_cat (word_cat a b :: u16) (word_cat c d :: u16)) r"
  | "length i < 4" "win_be_u32 W i = PErr Backtrack"
proof (cases "length i < 4")
  case False
  then obtain a b c d r where "i = a # b # c # d # r"
    by (cases i; cases "tl i"; cases "tl (tl i)"; cases "tl (tl (tl i))") auto
  with that(1) show ?thesis by (simp add: be_u32_Cons)
qed (use that(2) be_u32_short in simp)

lemma be_u32_strict [parser_intros]: "parser_strict (win_be_u32 W)"
proof (rule parser_byI)
  show "strict_suffix r i" if "win_be_u32 W i = POk x r" for i x r
    using that by (cases rule: be_u32_cases [of i]) (auto simp: strict_suffix_def suffix_def)
  show "e = Backtrack \<or> e = Cut" if "win_be_u32 W i = PErr e" for i e
    using that by (cases rule: be_u32_cases [of i]) auto
qed

lemma take_upto_ok [parser_intros]: "parser_ok (win_take_upto W False n P)"
  by (rule parser_byI) (auto simp: take_upto Let_def suffix_drop)

lemma eof_ok [parser_intros]: "parser_ok (win_eof W)"
  by (rule parser_byI) (auto simp: eof split: if_splits)

lemma length_take_strict [parser_intros]:
  assumes "parser_strict f"
  shows "parser_strict (win_length_take W f)"
proof (rule parser_byI)
  fix i x r
  assume "win_length_take W f i = POk x r"
  then obtain n r' where "f i = POk n r'" "r = drop n r'"
    by (auto simp: length_take split: presult.splits if_splits)
  then show "strict_suffix r i"
    using parser_by_POk [OF assms] suffix_drop [of n r'] suffix_order.le_less_trans by blast
next
  fix i e
  assume "win_length_take W f i = PErr e"
  then show "e = Backtrack \<or> e = Cut"
    using parser_by_PErr [OF assms] by (auto simp: length_take split: presult.splits if_splits)
qed

lemma length_and_then_strict [parser_intros]:
  "parser_strict f \<Longrightarrow> parser_ok p \<Longrightarrow> parser_strict (length_and_then W f p)"
  unfolding length_and_then_def by (intro parser_intros)

lemma length_and_then_POk:
  assumes "f i = POk n (a @ r)" and "length a = n"
  shows "length_and_then W f p i = (case p a of POk x r' \<Rightarrow> POk x r | PErr e \<Rightarrow> PErr e)"
  using assms by (simp add: length_and_then_def p_bind_def p_inner_def length_take)

subsection \<open>Repetition up to the end of the input\<close>

lemma repeat_till_eof_0:
  assumes "parser_strict f"
  shows "win_repeat_till W 0 f (win_eof W) i =
    (if i = [] then POk () []
     else case f i of POk x r \<Rightarrow> win_repeat_till W 0 f (win_eof W) r | PErr e \<Rightarrow> PErr e)"
  by (simp add: repeat_till_0 [OF assms] eof)

lemma repeat_till_eof_result:
  assumes f: "parser_strict f"
  shows "win_repeat_till W n f (win_eof W) i = POk () [] \<or>
         win_repeat_till W n f (win_eof W) i = PErr Backtrack \<or>
         win_repeat_till W n f (win_eof W) i = PErr Cut"
proof (induction "length i" arbitrary: n i rule: less_induct)
  case less
  note IH = less
  show ?case
  proof (cases "f i")
    case (POk x r)
    then have "length r < length i" by (rule parser_strict_length [OF f])
    note rec = IH [OF this]
    show ?thesis
    proof (cases n)
      case 0
      with POk rec [of 0] show ?thesis by (simp add: repeat_till_eof_0 [OF f, of i])
    next
      case (Suc m)
      with POk rec [of m] show ?thesis by (simp add: repeat_till_Suc)
    qed
  next
    case (PErr e)
    then have "e = Backtrack \<or> e = Cut" by (rule parser_by_PErr [OF f])
    with PErr show ?thesis
      by (cases n) (auto simp: repeat_till_Suc repeat_till_eof_0 [OF f, of i])
  qed
qed

lemma repeat_till_ok [parser_intros]:
  assumes "parser_strict f"
  shows "parser_ok (win_repeat_till W n f (win_eof W))"
proof (rule parser_byI)
  show "suffix r i" if "win_repeat_till W n f (win_eof W) i = POk x r" for i x r
    using that repeat_till_eof_result [OF assms, of n i] by auto
  show "e = Backtrack \<or> e = Cut" if "win_repeat_till W n f (win_eof W) i = PErr e" for i e
    using that repeat_till_eof_result [OF assms, of n i] by auto
qed

text \<open>What the repetition accepts is such a sequence.\<close>

lemma repeat_till_pieces:
  assumes f: "parser_strict f"
    and "win_repeat_till W n (p_map (\<lambda>_. ()) f) (win_eof W) i = POk () r"
  shows "\<exists>xs. pieces f xs i \<and> n \<le> length xs"
  using assms(2)
proof (induction "length i" arbitrary: n i rule: less_induct)
  case less
  have g: "parser_strict (p_map (\<lambda>_. ()) f)" by (rule parser_map [OF f])
  show ?case
  proof (cases "n = 0 \<and> i = []")
    case True
    then show ?thesis by (auto intro: pieces.Nil)
  next
    case False
    then obtain x r' where x: "f i = POk x r'"
      and rest: "win_repeat_till W (n - 1) (p_map (\<lambda>_. ()) f) (win_eof W) r' = POk () r"
      using less.prems
      by (cases n) (auto simp: repeat_till_Suc repeat_till_eof_0 [OF g, of i] p_map_def
          split: presult.splits if_splits)
    have len: "length r' < length i" by (rule parser_strict_length [OF f x])
    with less.hyps [OF len rest] obtain xs where "pieces f xs r'" "n - 1 \<le> length xs" by blast
    moreover have "i \<noteq> []" using len by auto
    ultimately have "pieces f (x # xs) i" "n \<le> length (x # xs)" using x by (auto intro: pieces.Cons)
    then show ?thesis by blast
  qed
qed

text \<open>The input is a concatenation of pieces the repeated parser accepts one by one.\<close>

lemma repeat_till_concat:
  assumes f: "parser_strict f"
    and "\<And>e r. e \<in> set es \<Longrightarrow> f (e @ r) = POk () r" and "n \<le> length es"
  shows "win_repeat_till W n f (win_eof W) (concat es) = POk () []"
  using assms(2,3)
proof (induction es arbitrary: n)
  case Nil
  then show ?case by (simp add: repeat_till_eof_0 [OF f])
next
  case (Cons e es)
  have step: "f (e @ concat es) = POk () (concat es)" using Cons.prems(1) by simp
  then have "e \<noteq> []" using parser_strict_length [OF f] by fastforce
  moreover have "win_repeat_till W m f (win_eof W) (concat es) = POk () []" if "m \<le> length es" for m
    using that Cons by simp
  ultimately show ?case using step Cons.prems(2)
    by (cases n) (simp_all add: repeat_till_Suc repeat_till_eof_0 [OF f, of "e @ concat es"])
qed

end

section \<open>A reference instance\<close>

fun ref_u8 :: "bool \<Rightarrow> u8 parser" where
  "ref_u8 partial [] = PErr (if partial then Incomplete (Size 1) else Backtrack)"
| "ref_u8 partial (b # r) = POk b r"

fun ref_be_u16 :: "u16 parser" where
  "ref_be_u16 (a # b # r) = POk (word_cat a b) r"
| "ref_be_u16 i = PErr Backtrack"

fun ref_be_u32 :: "u32 parser" where
  "ref_be_u32 (a # b # c # d # r) =
     POk (word_cat (word_cat a b :: u16) (word_cat c d :: u16)) r"
| "ref_be_u32 i = PErr Backtrack"

definition ref_take_upto :: "bool \<Rightarrow> nat \<Rightarrow> (u8 \<Rightarrow> bool) \<Rightarrow> bytes parser" where
  "ref_take_upto partial n P i =
     (let k = length (takeWhile P (take n i))
      in if partial \<and> k = length i \<and> k < n then PErr (Incomplete (Size 1))
         else POk (take k i) (drop k i))"

definition ref_length_take :: "nat parser \<Rightarrow> bytes parser" where
  "ref_length_take f i =
     (case f i of
        POk n r \<Rightarrow> if n \<le> length r then POk (take n r) (drop n r) else PErr Backtrack
      | PErr e \<Rightarrow> PErr e)"

definition ref_eof :: "unit parser" where
  "ref_eof i = (if i = [] then POk () [] else PErr Backtrack)"

fun ref_repeat :: "nat \<Rightarrow> unit parser \<Rightarrow> unit parser \<Rightarrow> unit parser" where
  "ref_repeat 0 f g i = PErr OutOfFuel"
| "ref_repeat (Suc k) f g i =
     (case g i of
        POk x r \<Rightarrow> POk () r
      | PErr e \<Rightarrow>
          if e = Backtrack
          then (case f i of POk x r \<Rightarrow> ref_repeat k f g r | PErr e' \<Rightarrow> PErr e')
          else PErr e)"

fun ref_repeat_till :: "nat \<Rightarrow> unit parser \<Rightarrow> unit parser \<Rightarrow> unit parser" where
  "ref_repeat_till 0 f g i = ref_repeat (Suc (length i)) f g i"
| "ref_repeat_till (Suc n) f g i =
     (case f i of POk x r \<Rightarrow> ref_repeat_till n f g r | PErr e \<Rightarrow> PErr e)"

fun ref_bits_take :: "nat \<Rightarrow> u8 bit_parser" where
  "ref_bits_take n ([], off) = BErr Backtrack"
| "ref_bits_take n (b # r, off) =
     BOk (bits_of b off n) (if off + n = 8 then (r, 0) else (b # r, off + n))"

definition winnow_ref :: winnow where
  "winnow_ref = \<lparr>
     win_u8 = ref_u8, win_be_u16 = ref_be_u16, win_be_u32 = ref_be_u32,
     win_take_upto = ref_take_upto, win_length_take = ref_length_take, win_eof = ref_eof,
     win_repeat_till = ref_repeat_till, win_bits_take = ref_bits_take,
     win_bits_pattern = (\<lambda>v n s. case ref_bits_take n s of
        BOk x s' \<Rightarrow> if x = v then BOk x s' else BErr Backtrack | BErr e \<Rightarrow> BErr e),
     win_bits_bool = (\<lambda>s. case ref_bits_take 1 s of BOk x s' \<Rightarrow> BOk (x \<noteq> 0) s' | BErr e \<Rightarrow> BErr e),
     win_bits_end = fst \<rparr>"

text \<open>How to evaluate the two.\<close>

lemma ref_be_u16_code [code]:
  "ref_be_u16 (a # b # r) = POk (ucast a * 256 + ucast b) r"
  "ref_be_u16 [a] = PErr Backtrack"
  "ref_be_u16 [] = PErr Backtrack"
  by (simp_all add: word_cat_u16)

lemma ref_be_u32_code [code]:
  "ref_be_u32 i =
     (case i of
        a # b # c # d # r \<Rightarrow>
          POk (ucast (ucast a * 256 + ucast b :: u16) * 65536 + ucast (ucast c * 256 + ucast d :: u16)) r
      | _ \<Rightarrow> PErr Backtrack)"
  by (cases i rule: ref_be_u32.cases) (simp_all add: word_cat_u16 word_cat_u32)

lemma ref_be_u16_short: "length i < 2 \<Longrightarrow> ref_be_u16 i = PErr Backtrack"
  by (cases i rule: ref_be_u16.cases) auto

lemma ref_be_u32_short: "length i < 4 \<Longrightarrow> ref_be_u32 i = PErr Backtrack"
  by (cases i rule: ref_be_u32.cases) auto

lemma ref_repeat_fuel:
  assumes f: "parser_strict f" and "length i < k"
  shows "ref_repeat k f g i = ref_repeat (Suc (length i)) f g i"
  using assms(2)
proof (induction "length i" arbitrary: i k rule: less_induct)
  case less
  then obtain m where m: "k = Suc m" by (cases k) auto
  show ?case
  proof (cases "f i")
    case (POk x r)
    then have l: "length r < length i" by (rule parser_strict_length [OF f])
    with less.prems m have "ref_repeat m f g r = ref_repeat (length i) f g r"
      using less.hyps [of r m] less.hyps [of r "length i"] by simp
    with POk m show ?thesis by (simp split: presult.splits)
  qed (simp add: m split: presult.splits)
qed

lemma ref_repeat_till_0:
  assumes f: "parser_strict f"
  shows "ref_repeat_till 0 f g i =
    (case g i of
       POk x r \<Rightarrow> POk () r
     | PErr e \<Rightarrow>
         if e = Backtrack
         then (case f i of POk x r \<Rightarrow> ref_repeat_till 0 f g r | PErr e' \<Rightarrow> PErr e')
         else PErr e)"
proof (cases "f i")
  case (POk x r)
  then have "length r < length i" by (rule parser_strict_length [OF f])
  with POk show ?thesis using ref_repeat_fuel [OF f, of r "length i" g]
    by (simp split: presult.splits)
qed (simp split: presult.splits)

lemma winnow_ref_sel:
  "win_u8 winnow_ref = ref_u8" "win_be_u16 winnow_ref = ref_be_u16"
  "win_be_u32 winnow_ref = ref_be_u32" "win_take_upto winnow_ref = ref_take_upto"
  "win_length_take winnow_ref = ref_length_take" "win_eof winnow_ref = ref_eof"
  "win_repeat_till winnow_ref = ref_repeat_till" "win_bits_take winnow_ref = ref_bits_take"
  by (simp_all add: winnow_ref_def)

interpretation ref: winnow_spec winnow_ref
  unfolding winnow_spec_def winnow_ref_sel
  by (intro conjI allI impI ref_repeat_till_0)
    (simp_all add: winnow_ref_def ref_be_u16_short ref_be_u32_short ref_take_upto_def
      ref_length_take_def ref_eof_def del: ref_repeat_till.simps(1))

lemma winnow_ref_spec: "winnow_spec winnow_ref"
  by (rule ref.winnow_spec_axioms)

end
