(* ===== verification/Codec_Laws.thy ===== *)
theory Codec_Laws
  imports Winnow
begin

text \<open>
  The contract between a parser, a writer and a size function of one type, as locales: every
  \<open>parse\<close>/\<open>write\<close>/\<open>binary_size\<close> triple of the crate \<open>mqtt-format\<close> is an instance. The
  byte layout \<open>enc\<close> is the abstract specification; \<open>ok\<close> says which values have an encoding;
  \<open>canon\<close> is the value a parser gives back, the identity but for types that borrow a larger
  slice of the input than the value they denote (\<open>UserProperties\<close>).
\<close>

section \<open>Types that know their own end\<close>

locale codec =
  fixes parse :: "'a parser" and write_val :: "'a \<Rightarrow> writer" and size_val :: "'a \<Rightarrow> u32 option"
    and enc :: "'a \<Rightarrow> bytes" and ok :: "'a \<Rightarrow> bool" and canon :: "'a \<Rightarrow> 'a"
  assumes parse_enc: "ok x \<Longrightarrow> parse (enc x @ r) = POk (canon x) r"
    and write_enc: "ok x \<Longrightarrow> writes (write_val x) (enc x)"
    and size_enc: "ok x \<Longrightarrow> sizes (size_val x) (enc x)"

section \<open>Types that take the rest of the input\<close>

locale body_codec =
  fixes parse :: "'a parser" and write_val :: "'a \<Rightarrow> writer" and size_val :: "'a \<Rightarrow> u32 option"
    and enc :: "'a \<Rightarrow> bytes" and ok :: "'a \<Rightarrow> bool" and canon :: "'a \<Rightarrow> 'a"
  assumes body_parse_enc: "ok x \<Longrightarrow> parse (enc x) = POk (canon x) []"
    and body_write_enc: "ok x \<Longrightarrow> writes (write_val x) (enc x)"
    and body_size_enc: "ok x \<Longrightarrow> sizes (size_val x) (enc x)"
begin

text \<open>Writing then parsing gives the value back, and the announced size is the written size.\<close>

lemma body_roundtrip:
  assumes "ok x"
  shows "\<exists>bs. write_val x buf = (WOk, buf @ bs) \<and> parse bs = POk (canon x) [] \<and>
    size_val x = Some (word_of_nat (length bs))"
  using body_parse_enc [OF assms] body_write_enc [OF assms] body_size_enc [OF assms]
  by (auto simp: writes_def sizes_def)

end

sublocale codec \<subseteq> body: body_codec parse write_val size_val enc ok canon
  by unfold_locales (use parse_enc [where r = "[]"] write_enc size_enc in simp_all)

context codec begin

lemma roundtrip:
  assumes "ok x"
  shows "\<exists>bs. write_val x buf = (WOk, buf @ bs) \<and> parse (bs @ r) = POk (canon x) r \<and>
    size_val x = Some (word_of_nat (length bs))"
  using parse_enc [OF assms] write_enc [OF assms] size_enc [OF assms]
  by (auto simp: writes_def sizes_def)

text \<open>Two values with the same encoding, even before different tails, are the same.\<close>

lemma enc_prefix_free:
  assumes "ok x" and "ok y" and "enc x @ r = enc y @ s"
  shows "canon x = canon y \<and> r = s"
  using parse_enc [OF assms(1), of r] parse_enc [OF assms(2), of s] assms(3) by simp

end

section \<open>Parsers that only accept what can be written\<close>

text \<open>
  Every value such a parser returns has an encoding, not longer than the input it was read from
  (it can be shorter: the parser of variable byte integers accepts leading zero groups).
\<close>

locale checked_codec = codec +
  assumes parse_sound: "parse i = POk x r \<Longrightarrow> ok x \<and> length (enc x) + length r \<le> length i"
begin

lemma reencode:
  assumes "parse i = POk x r"
  shows "\<exists>bs. write_val x buf = (WOk, buf @ bs) \<and> parse (bs @ r') = POk (canon x) r' \<and>
    length bs + length r \<le> length i"
  using parse_sound [OF assms] parse_enc write_enc by (auto simp: writes_def)

end

text \<open>
  The same for a body, whose length the packet's header bounds; short forms of a body may be
  written in a longer one.
\<close>

definition fits :: "bytes \<Rightarrow> bool" where
  "fits bs \<longleftrightarrow> length bs \<le> 268435455"

lemma fits_code [code]: "fits bs \<longleftrightarrow> int (length bs) \<le> 268435455"
  by (simp only: fits_def nat_le_numeral)

lemma fits_le: "fits xs \<Longrightarrow> length ys \<le> length xs \<Longrightarrow> fits ys"
  by (simp add: fits_def)

locale checked_body_codec = body_codec +
  assumes body_parse_sound: "fits i \<Longrightarrow> parse i = POk x r \<Longrightarrow> ok x \<and> fits (enc x)"
begin

lemma body_reencode:
  assumes "fits i" and "parse i = POk x r"
  shows "\<exists>bs. write_val x buf = (WOk, buf @ bs) \<and> parse bs = POk (canon x) [] \<and> fits bs"
  using body_parse_sound [OF assms] body_parse_enc body_write_enc by (auto simp: writes_def)

end

sublocale checked_codec \<subseteq> body: checked_body_codec parse write_val size_val enc ok canon
  proof
  show "ok x \<and> fits (enc x)" if "fits i" and "parse i = POk x r" for i x r
    using parse_sound [OF that(2)] fits_le [OF that(1), of "enc x"] by simp
qed

section \<open>A sequence of encodings\<close>

text \<open>A writer list and a size list that agree, element by element, with a list of encodings.\<close>

lemma writes_map:
  assumes "\<And>x. x \<in> set xs \<Longrightarrow> writes (w x) (e x)"
  shows "writes (w_seq (map w xs)) (concat (map e xs))"
  using assms by (induction xs) (auto intro: writes_intros)

lemma sizes_map:
  assumes "\<And>x. x \<in> set xs \<Longrightarrow> sizes (s x) (e x)"
  shows "sizes (s_sum (map s xs)) (concat (map e xs))"
  using assms by (induction xs) (auto simp: sizes_Nil intro: sizes_add)

end
