(* ===== verification/Integers.thy ===== *)
theory Integers
  imports Codec_Laws
begin

text \<open>
  \<open>v5/integers.rs\<close> and the buffer writer (\<open>v5/write.rs\<close>, \<open>codec.rs\<close>): big-endian
  integers, and the variable byte integer of one to four bytes. The layout of the latter is
  specified by \<open>var_bytes\<close>, the encoding loop of the MQTT standard, which the four ranges of
  \<open>write_variable_u32\<close> are shown to implement.
\<close>

section \<open>The buffer writer\<close>

definition write_byte :: "u8 \<Rightarrow> writer" where
  "write_byte u buf = (WOk, buf @ [u])"

definition write_slice :: "bytes \<Rightarrow> writer" where
  "write_slice u buf = (WOk, buf @ u)"

definition w_u16 :: "u16 \<Rightarrow> writer" where
  "w_u16 u = w_seq [write_byte (ucast (drop_bit 8 u)), write_byte (ucast u)]"

definition to_be_bytes_u32 :: "u32 \<Rightarrow> bytes" where
  "to_be_bytes_u32 u = [ucast (drop_bit 24 u), ucast (drop_bit 16 u), ucast (drop_bit 8 u), ucast u]"

definition w_u32 :: "u32 \<Rightarrow> writer" where
  "w_u32 u = (let bs = to_be_bytes_u32 u
     in w_seq [write_byte (bs ! 0), write_byte (bs ! 1), write_byte (bs ! 2), write_byte (bs ! 3)])"

lemma writes_byte [writes_intros]: "writes (write_byte u) [u]"
  by (simp add: writes_def write_byte_def)

lemma writes_slice [writes_intros]: "writes (write_slice u) u"
  by (simp add: writes_def write_slice_def)

section \<open>Fixed-size integers\<close>

definition parse_u16 :: "winnow \<Rightarrow> u16 parser" where
  "parse_u16 W = win_be_u16 W"

definition write_u16 :: "u16 \<Rightarrow> writer" where
  "write_u16 u = w_u16 u"

definition parse_u16_nonzero :: "winnow \<Rightarrow> u16 parser" where
  "parse_u16_nonzero W = p_try_map (\<lambda>u. if u \<noteq> 0 then Some u else None) (win_be_u16 W)"

definition write_u16_nonzero :: "u16 \<Rightarrow> writer" where
  "write_u16_nonzero u = write_u16 u"

definition parse_u32 :: "winnow \<Rightarrow> u32 parser" where
  "parse_u32 W = win_be_u32 W"

definition write_u32 :: "u32 \<Rightarrow> writer" where
  "write_u32 u = w_u32 u"

lemmas fixed_int_defs [defs] =
  write_byte_def write_slice_def w_u16_def w_u32_def to_be_bytes_u32_def parse_u16_def write_u16_def
  parse_u16_nonzero_def write_u16_nonzero_def parse_u32_def write_u32_def

text \<open>The byte layouts.\<close>

definition enc_u16 :: "u16 \<Rightarrow> bytes" where
  "enc_u16 u = [ucast (drop_bit 8 u), ucast u]"

definition enc_u32 :: "u32 \<Rightarrow> bytes" where
  "enc_u32 u = to_be_bytes_u32 u"

lemma length_enc_u16 [simp]: "length (enc_u16 u) = 2"
  by (simp add: enc_u16_def)

lemma length_enc_u32 [simp]: "length (enc_u32 u) = 4"
  by (simp add: enc_u32_def to_be_bytes_u32_def)

lemma writes_w_u16 [writes_intros]: "writes (w_u16 u) (enc_u16 u)"
  by (simp add: writes_def w_u16_def write_byte_def enc_u16_def)

lemma writes_w_u32 [writes_intros]: "writes (w_u32 u) (enc_u32 u)"
  by (simp add: writes_def w_u32_def write_byte_def enc_u32_def to_be_bytes_u32_def)

lemma enc_u16_word_cat: "enc_u16 (word_cat (a :: u8) (b :: u8)) = [a, b]"
  by (simp add: enc_u16_def) (intro conjI bit_word_eqI; simp add: bit_simps)

lemma word_cat_halves_u16:
  "word_cat (ucast (drop_bit 8 u) :: u8) (ucast u :: u8) = (u :: u16)"
  by (rule bit_word_eqI) (auto simp: bit_simps)

lemma word_cat_quarters_u32:
  "word_cat (word_cat (ucast (drop_bit 24 u) :: u8) (ucast (drop_bit 16 u) :: u8) :: u16)
     (word_cat (ucast (drop_bit 8 u) :: u8) (ucast u :: u8) :: u16) = (u :: u32)"
  by (rule bit_word_eqI) (auto simp: bit_simps)

section \<open>Variable byte integers\<close>

definition VARIABLE_INTEGER_MAX :: u32 where
  "VARIABLE_INTEGER_MAX = 268435455"

text \<open>\<open>for (exp, val) in bytes.into_iter().enumerate() { output += ... }\<close>\<close>

fun var_u32_loop :: "nat \<Rightarrow> u32 \<Rightarrow> bytes \<Rightarrow> u32" where
  "var_u32_loop exp output [] = output"
| "var_u32_loop exp output (v # vs) =
     var_u32_loop (Suc exp) (output + (ucast v AND 0x7F) * 128 ^ exp) vs"

definition parse_variable_u32 :: "winnow \<Rightarrow> bool \<Rightarrow> u32 parser" where
  "parse_variable_u32 W partial =
     p_map (var_u32_loop 0 0)
       (p_take (p_bind (win_take_upto W partial 3 (\<lambda>b. b AND 0x80 \<noteq> 0))
          (\<lambda>_. p_verify (\<lambda>b. b AND 0x80 = 0) (win_u8 W partial))))"

definition variable_u32_binary_size :: "u32 \<Rightarrow> u32 option" where
  "variable_u32_binary_size u =
     (if u \<le> 127 then Some 1
      else if u \<le> 16383 then Some 2
      else if u \<le> 2097151 then Some 3
      else if u \<le> 268435455 then Some 4
      else None)"

definition write_variable_u32 :: "u32 \<Rightarrow> writer" where
  "write_variable_u32 u =
     (if u \<le> 127 then write_byte (ucast u)
      else if u \<le> 16383 then
        (let first = (u mod 128) OR 0x80; second = u div 128
         in w_seq [write_byte (ucast first), write_byte (ucast second)])
      else if u \<le> 2097151 then
        (let first = (u mod 128) OR 0x80; second = ((u div 128) mod 128) OR 0x80;
             third = u div (128 * 128)
         in w_seq [write_byte (ucast first), write_byte (ucast second), write_byte (ucast third)])
      else if u \<le> 268435455 then
        (let first = (u mod 128) OR 0x80; second = ((u div 128) mod 128) OR 0x80;
             third = ((u div (128 * 128)) mod 128) OR 0x80; fourth = u div (128 * 128 * 128)
         in w_seq [write_byte (ucast first), write_byte (ucast second), write_byte (ucast third),
              write_byte (ucast fourth)])
      else w_fail Invariant)"

lemmas var_int_defs [defs] = parse_variable_u32_def variable_u32_binary_size_def write_variable_u32_def

text \<open>The encoding loop of the standard.\<close>

fun var_bytes :: "nat \<Rightarrow> bytes" where
  "var_bytes n =
     (if n < 128 then [word_of_nat n] else word_of_nat (n mod 128 + 128) # var_bytes (n div 128))"

declare var_bytes.simps [simp del]

definition enc_var :: "u32 \<Rightarrow> bytes" where
  "enc_var u = var_bytes (unat u)"

lemma var_bytes_less: "n < 128 \<Longrightarrow> var_bytes n = [word_of_nat n]"
  by (subst var_bytes.simps) simp

lemma var_bytes_ge: "128 \<le> n \<Longrightarrow> var_bytes n = word_of_nat (n mod 128 + 128) # var_bytes (n div 128)"
  by (subst var_bytes.simps) simp

lemma var_bytes_nonempty [simp]: "var_bytes n \<noteq> []"
  by (subst var_bytes.simps) simp

lemma enc_var_nonempty [simp]: "enc_var u \<noteq> []"
  by (simp add: enc_var_def)

lemma var_bytes_length:
  "n < 128 \<Longrightarrow> length (var_bytes n) = 1"
  "128 \<le> n \<Longrightarrow> n < 16384 \<Longrightarrow> length (var_bytes n) = 2"
  "16384 \<le> n \<Longrightarrow> n < 2097152 \<Longrightarrow> length (var_bytes n) = 3"
  "2097152 \<le> n \<Longrightarrow> n < 268435456 \<Longrightarrow> length (var_bytes n) = 4"
  by (simp_all add: var_bytes_less var_bytes_ge div_mult2_eq [symmetric])

lemma var_bytes_length_le: "n < 268435456 \<Longrightarrow> length (var_bytes n) \<le> 4"
  using var_bytes_length [of n] by linarith

lemma var_bytes_length_pow: "n < 128 ^ k \<Longrightarrow> 0 < k \<Longrightarrow> length (var_bytes n) \<le> k"
proof (induction k arbitrary: n)
  case (Suc k)
  show ?case
  proof (cases "n < 128")
    case False
    with Suc.prems have "n div 128 < 128 ^ k" by (simp add: less_mult_imp_div_less mult.commute)
    moreover have "0 < k" using False Suc.prems by (cases k) simp_all
    ultimately show ?thesis using Suc.IH [of "n div 128"] False by (simp add: var_bytes_ge)
  qed (simp add: var_bytes_less)
qed simp

subsection \<open>The writer and the size implement the specification\<close>

lemma ucast_mod_or:
  fixes u :: u32
  shows "(ucast ((u mod 128) OR 0x80) :: u8) = word_of_nat (unat u mod 128 + 128)"
proof -
  have m: "u mod 128 = take_bit 7 u" by (simp add: take_bit_eq_mod)
  have "take_bit 7 u OR 2 ^ 7 = take_bit 7 u + 2 ^ 7"
    by (intro disjunctive_add_eq_or [symmetric] bit_eqI)
      (simp only: bit_and_iff bit_take_bit_iff bit_exp_iff bit_0_eq; auto)
  then have "take_bit 7 u OR 0x80 = take_bit 7 u + 0x80" by simp
  then have "unat ((u mod 128) OR 0x80) = (unat (u mod 128) + 128) mod 2 ^ 32"
    by (simp add: m unat_word_ariths)
  moreover have "unat (u mod 128) = unat u mod 128" by (simp add: unat_mod_distrib)
  ultimately have "unat ((u mod 128) OR 0x80) = unat u mod 128 + 128" by simp
  then show ?thesis
    by (simp add: word_unat_eq_iff unat_of_nat unsigned_ucast_eq take_bit_eq_mod del: of_nat_add)
qed

lemma ucast_small:
  fixes u :: u32
  shows "unat u = n \<Longrightarrow> (ucast u :: u8) = word_of_nat n"
  by auto

lemma unat_div_power:
  fixes u :: u32
  shows "unat (u div 128) = unat u div 128" "unat (u div 16384) = unat u div 128 div 128"
    "unat (u div 2097152) = unat u div 128 div 128 div 128"
  by (simp_all add: unat_div_distrib div_mult2_eq [symmetric])

lemma writes_variable_u32:
  assumes "u \<le> VARIABLE_INTEGER_MAX"
  shows "writes (write_variable_u32 u) (enc_var u)"
proof -
  have u: "unat u < 268435456"
    using assms by (simp add: VARIABLE_INTEGER_MAX_def word_le_nat_alt)
  note b = ucast_mod_or [of u] ucast_mod_or [of "u div 128"] ucast_mod_or [of "u div 16384"]
    ucast_small [OF unat_div_power(1)] ucast_small [OF unat_div_power(2)]
    ucast_small [OF unat_div_power(3)] unat_div_power
  consider "unat u < 128" | "128 \<le> unat u" "unat u < 16384" | "16384 \<le> unat u" "unat u < 2097152"
    | "2097152 \<le> unat u" using u by linarith
  then show ?thesis
  proof cases
    case 1
    then show ?thesis
      by (simp add: write_variable_u32_def enc_var_def var_bytes_less word_le_nat_alt writes_def
          write_byte_def b)
  next
    case 2
    then have "var_bytes (unat u) = [word_of_nat (unat u mod 128 + 128), word_of_nat (unat u div 128)]"
      by (simp add: var_bytes_less var_bytes_ge)
    with 2 show ?thesis
      by (simp add: write_variable_u32_def enc_var_def word_le_nat_alt writes_def write_byte_def
          Let_def b)
  next
    case 3
    then have "var_bytes (unat u) = [word_of_nat (unat u mod 128 + 128),
        word_of_nat (unat u div 128 mod 128 + 128), word_of_nat (unat u div 128 div 128)]"
      by (simp add: var_bytes_less var_bytes_ge div_mult2_eq [symmetric])
    with 3 show ?thesis
      by (simp add: write_variable_u32_def enc_var_def word_le_nat_alt writes_def write_byte_def
          Let_def b)
  next
    case 4
    with u have "var_bytes (unat u) = [word_of_nat (unat u mod 128 + 128),
        word_of_nat (unat u div 128 mod 128 + 128), word_of_nat (unat u div 128 div 128 mod 128 + 128),
        word_of_nat (unat u div 128 div 128 div 128)]"
      by (simp add: var_bytes_less var_bytes_ge div_mult2_eq [symmetric])
    with 4 u show ?thesis
      by (simp add: write_variable_u32_def enc_var_def word_le_nat_alt writes_def write_byte_def
          Let_def b)
  qed
qed

lemma sizes_variable_u32:
  assumes "u \<le> VARIABLE_INTEGER_MAX"
  shows "sizes (variable_u32_binary_size u) (enc_var u)"
  using assms var_bytes_length [of "unat u"]
  by (auto simp: sizes_def variable_u32_binary_size_def enc_var_def VARIABLE_INTEGER_MAX_def
      word_le_nat_alt not_le)

subsection \<open>The parser inverts the specification\<close>

lemma high_bit: "(b :: u8) AND 0x80 = 0 \<longleftrightarrow> unat b < 128"
proof -
  have "b AND 2 ^ 7 = 0 \<longleftrightarrow> \<not> bit (unat b) 7"
    by (simp only: and_exp_eq_0_iff_not_bit bit_unsigned_iff) simp
  also have "\<dots> \<longleftrightarrow> even (unat b div 128)" by (simp add: bit_iff_odd)
  also have "\<dots> \<longleftrightarrow> unat b < 128"
  proof -
    have "unat b < 256" by (rule unat_u8_less)
    then have "unat b div 128 = (if unat b < 128 then 0 else 1)" by auto
    then show ?thesis by simp
  qed
  finally show ?thesis by simp
qed

lemma low7: "(ucast (v :: u8) :: u32) AND 0x7F = word_of_nat (unat v mod 128)"
proof -
  have "(ucast v :: u32) AND 0x7F = take_bit 7 (ucast v)"
    by (simp add: take_bit_eq_mask mask_eq_exp_minus_1)
  also have "\<dots> = word_of_nat (unat v mod 128)"
    by (simp add: word_unat_eq_iff take_bit_eq_mod unat_mod_distrib unsigned_ucast_eq unat_of_nat)
      (use unat_u8_less [of v] in simp)
  finally show ?thesis .
qed

text \<open>The decoder of the standard, on natural numbers.\<close>

fun var_nat :: "bytes \<Rightarrow> nat" where
  "var_nat [] = 0"
| "var_nat (v # vs) = unat v mod 128 + 128 * var_nat vs"

lemma var_u32_loop_nat: "var_u32_loop e acc bs = acc + word_of_nat (var_nat bs) * 128 ^ e"
  by (induction bs arbitrary: e acc) (simp_all add: low7 algebra_simps)

lemma var_nat_less: "var_nat bs < 128 ^ length bs"
proof (induction bs)
  case (Cons b bs)
  moreover have "unat b mod 128 < 128" by simp
  ultimately have "unat b mod 128 + 128 * var_nat bs < 128 * (128 ^ length bs)"
    by (simp add: less_mult_imp_div_less div_less_iff_less_mult)
  then show ?case by simp
qed simp

lemma unat_of_nat_u8: "n < 256 \<Longrightarrow> unat (word_of_nat n :: u8) = n"
  by (simp add: unat_of_nat)

lemma var_nat_var_bytes: "var_nat (var_bytes n) = n"
proof (induction n rule: var_bytes.induct)
  case (1 n)
  show ?case
  proof (cases "n < 128")
    case False
    have "unat (word_of_nat (n mod 128 + 128) :: u8) = n mod 128 + 128"
      by (rule unat_of_nat_u8) simp
    with 1 False show ?thesis by (simp add: var_bytes_ge del: of_nat_add)
  qed (simp add: var_bytes_less unat_of_nat_u8)
qed

definition var_cont :: "u8 \<Rightarrow> bool" where
  "var_cont b \<longleftrightarrow> b AND 0x80 \<noteq> 0"

lemma var_bytes_shape:
  obtains fr l where "var_bytes n = fr @ [l]" "\<forall>b\<in>set fr. var_cont b" "\<not> var_cont l"
proof -
  have "\<exists>fr l. var_bytes n = fr @ [l] \<and> (\<forall>b\<in>set fr. var_cont b) \<and> \<not> var_cont l"
  proof (induction n rule: var_bytes.induct)
    case (1 n)
    show ?case
    proof (cases "n < 128")
      case True
      then show ?thesis by (simp add: var_bytes_less var_cont_def high_bit unat_of_nat_u8)
    next
      case False
      have "unat (word_of_nat (n mod 128 + 128) :: u8) = n mod 128 + 128"
        by (rule unat_of_nat_u8) simp
      then have "var_cont (word_of_nat (n mod 128 + 128))"
        by (simp add: var_cont_def high_bit del: of_nat_add)
      moreover obtain fr l where "var_bytes (n div 128) = fr @ [l]" "\<forall>b\<in>set fr. var_cont b"
        "\<not> var_cont l" using 1 False by blast
      ultimately show ?thesis using False
        by (intro exI [of _ "word_of_nat (n mod 128 + 128) # fr"] exI [of _ l])
          (simp add: var_bytes_ge)
    qed
  qed
  with that show ?thesis by blast
qed

lemma takeWhile_cont:
  assumes "\<forall>b\<in>set fr. var_cont b" and "\<not> var_cont l" and "length fr \<le> 3"
  shows "takeWhile (\<lambda>b. b AND 0x80 \<noteq> 0) (take 3 (fr @ l # r)) = fr"
proof -
  have "takeWhile (\<lambda>b. b AND 0x80 \<noteq> 0) (fr @ take (3 - length fr) (l # r)) = fr"
    using assms unfolding var_cont_def by (subst takeWhile_append2) (auto simp: take_Cons')
  with assms(3) show ?thesis by simp
qed

context winnow_spec begin

lemma parse_var_front:
  assumes "\<forall>b\<in>set fr. var_cont b" and "\<not> var_cont l" and "length fr \<le> 3"
  shows "parse_variable_u32 W partial (fr @ l # r) = POk (word_of_nat (var_nat (fr @ [l]))) r"
proof -
  have "win_take_upto W partial 3 (\<lambda>b. b AND 0x80 \<noteq> 0) (fr @ l # r) = POk fr (l # r)"
    unfolding take_upto takeWhile_cont [OF assms] Let_def by simp
  with assms(2) show ?thesis
    by (simp add: parse_variable_u32_def p_defs u8_Cons var_cont_def var_u32_loop_nat)
qed

lemma parse_enc_var:
  assumes "u \<le> VARIABLE_INTEGER_MAX"
  shows "parse_variable_u32 W partial (enc_var u @ r) = POk u r"
proof -
  have "unat u < 268435456" using assms by (simp add: VARIABLE_INTEGER_MAX_def word_le_nat_alt)
  then have len: "length (var_bytes (unat u)) \<le> 4" by (rule var_bytes_length_le)
  obtain fr l where b: "var_bytes (unat u) = fr @ [l]" "\<forall>b\<in>set fr. var_cont b" "\<not> var_cont l"
    by (rule var_bytes_shape)
  have "parse_variable_u32 W partial (fr @ l # r) = POk (word_of_nat (var_nat (fr @ [l]))) r"
    using b len by (intro parse_var_front) auto
  moreover have "var_nat (fr @ [l]) = unat u" by (metis b(1) var_nat_var_bytes)
  ultimately show ?thesis by (simp add: enc_var_def b)
qed

lemma take_upto_cont:
  assumes "\<forall>b\<in>set (take 3 i). var_cont b"
  shows "win_take_upto W partial 3 (\<lambda>b. b AND 0x80 \<noteq> 0) i =
    (if partial \<and> length i < 3 then PErr (Incomplete (Size 1)) else POk (take 3 i) (drop 3 i))"
proof -
  have tw: "takeWhile (\<lambda>b. b AND 0x80 \<noteq> 0) (take 3 i) = take 3 i"
    using assms by (simp add: takeWhile_eq_all_conv var_cont_def)
  show ?thesis unfolding take_upto tw by (auto simp: Let_def min_def)
qed

text \<open>All ways the parser can go.\<close>

lemma parse_var_cases:
  obtains (ok) fr l r where "i = fr @ l # r" "\<forall>b\<in>set fr. var_cont b" "\<not> var_cont l" "length fr \<le> 3"
      "parse_variable_u32 W partial i = POk (word_of_nat (var_nat (fr @ [l]))) r"
  | (short) "length i \<le> 3" "\<forall>b\<in>set i. var_cont b"
      "parse_variable_u32 W partial i = PErr (if partial then Incomplete (Size 1) else Backtrack)"
  | (long) "4 \<le> length i" "\<forall>b\<in>set (take 4 i). var_cont b"
      "parse_variable_u32 W partial i = PErr Backtrack"
proof (cases "\<forall>b\<in>set (take 4 i). var_cont b")
  case False
  define fr where "fr = takeWhile var_cont i"
  from False obtain x where "x \<in> set i" "\<not> var_cont x" by (auto dest: in_set_takeD)
  then have "dropWhile var_cont i \<noteq> []" by auto
  then obtain l r where lr: "dropWhile var_cont i = l # r" by (cases "dropWhile var_cont i") auto
  then have l: "\<not> var_cont l" using hd_dropWhile [of var_cont i] by simp
  have i: "i = fr @ l # r" unfolding fr_def using lr takeWhile_dropWhile_id [of var_cont i] by simp
  have fr: "\<forall>b\<in>set fr. var_cont b" unfolding fr_def by (auto dest: set_takeWhileD)
  have "length fr \<le> 3"
  proof (rule ccontr)
    assume "\<not> length fr \<le> 3"
    then have "take 4 i = take 4 fr" using i by simp
    with False fr show False by (metis in_set_takeD)
  qed
  with ok i fr l parse_var_front show ?thesis by blast
next
  case True
  then have c: "\<forall>b\<in>set (take 3 i). var_cont b" using set_take_subset_set_take [of 3 4 i] by auto
  show ?thesis
  proof (cases "length i \<le> 3")
    case short_i: True
    then have "parse_variable_u32 W partial i = PErr (if partial then Incomplete (Size 1) else Backtrack)"
      using take_upto_cont [OF c] by (simp add: parse_variable_u32_def p_defs u8_Nil)
    with short short_i True show ?thesis by simp
  next
    case False
    then obtain l r where d: "drop 3 i = l # r" by (cases "drop 3 i") auto
    have "take 4 i = take 3 i @ take 1 (drop 3 i)" using take_add [of 3 1 i] by simp
    with True d have "var_cont l" by simp
    then have "parse_variable_u32 W partial i = PErr Backtrack"
      using take_upto_cont [OF c] d False
      by (simp add: parse_variable_u32_def p_defs u8_Cons var_cont_def)
    with long False True show ?thesis by simp
  qed
qed

lemma parse_var_strict [parser_intros]: "parser_strict (parse_variable_u32 W False)"
proof (rule parser_byI)
  show "strict_suffix r i" if "parse_variable_u32 W False i = POk x r" for i x r
    using that by (cases rule: parse_var_cases [of i False]) (auto simp: strict_suffix_def suffix_def)
  show "e = Backtrack \<or> e = Cut" if "parse_variable_u32 W False i = PErr e" for i e
    using that by (cases rule: parse_var_cases [of i False]) auto
qed

lemma parse_var_bound:
  assumes "parse_variable_u32 W partial i = POk u r"
  shows "u \<le> VARIABLE_INTEGER_MAX \<and> length r < length i \<and> length i \<le> length r + 4"
  using assms
proof (cases rule: parse_var_cases [of i partial])
  case (ok fr l r')
  have "length (fr @ [l]) \<le> 4" using ok(4) by simp
  then have "(128 :: nat) ^ length (fr @ [l]) \<le> 128 ^ 4" by (intro power_increasing) auto
  then have "var_nat (fr @ [l]) < 268435456" using var_nat_less [of "fr @ [l]"] by simp
  then have "word_of_nat (var_nat (fr @ [l])) \<le> VARIABLE_INTEGER_MAX"
    by (simp add: VARIABLE_INTEGER_MAX_def word_le_nat_alt unat_of_nat)
  with ok assms show ?thesis by auto
qed auto

lemma parse_u16_strict [parser_intros]: "parser_strict (parse_u16 W)"
  unfolding parse_u16_def by (intro parser_intros)

lemma parse_u16_nonzero_strict [parser_intros]: "parser_strict (parse_u16_nonzero W)"
  unfolding parse_u16_nonzero_def by (intro parser_intros)

lemma parse_u32_strict [parser_intros]: "parser_strict (parse_u32 W)"
  unfolding parse_u32_def by (intro parser_intros)

subsection \<open>What the parsers accept can be written, in no more bytes\<close>

lemma parse_u16_sound:
  "parse_u16 W i = POk u r \<Longrightarrow> length (enc_u16 u) + length r \<le> length i"
  by (cases rule: be_u16_cases [of i]) (auto simp: parse_u16_def)

lemma parse_u16_nonzero_sound:
  "parse_u16_nonzero W i = POk u r \<Longrightarrow> u \<noteq> 0 \<and> length (enc_u16 u) + length r \<le> length i"
  by (cases rule: be_u16_cases [of i]) (auto simp: parse_u16_nonzero_def p_try_map_def split: if_splits)

lemma parse_u32_sound:
  "parse_u32 W i = POk u r \<Longrightarrow> length (enc_u32 u) + length r \<le> length i"
  by (cases rule: be_u32_cases [of i]) (auto simp: parse_u32_def)

lemma u8_sound: "win_u8 W False i = POk b r \<Longrightarrow> i = b # r"
  by (cases i) (simp_all add: u8_Cons u8_Nil)

lemma parse_var_sound:
  assumes "parse_variable_u32 W partial i = POk u r"
  shows "u \<le> VARIABLE_INTEGER_MAX \<and> length (enc_var u) + length r \<le> length i"
proof (cases rule: parse_var_cases [of i partial])
  case (ok fr l r')
  have v: "var_nat (fr @ [l]) < 128 ^ length (fr @ [l])" by (rule var_nat_less)
  have "(128 :: nat) ^ length (fr @ [l]) \<le> 128 ^ 4" using ok(4) by (intro power_increasing) auto
  with v have "unat (word_of_nat (var_nat (fr @ [l])) :: u32) = var_nat (fr @ [l])"
    by (simp add: unat_of_nat)
  moreover have "length (var_bytes (var_nat (fr @ [l]))) \<le> length (fr @ [l])"
    by (rule var_bytes_length_pow [OF v]) simp
  ultimately show ?thesis using ok assms parse_var_bound [OF assms] by (auto simp: enc_var_def)
qed (use assms in auto)

lemma parse_u16_enc: "parse_u16 W (enc_u16 u @ r) = POk u r"
  by (simp add: parse_u16_def enc_u16_def be_u16_Cons word_cat_halves_u16)

lemma parse_u16_nonzero_enc: "u \<noteq> 0 \<Longrightarrow> parse_u16_nonzero W (enc_u16 u @ r) = POk u r"
  by (simp add: parse_u16_nonzero_def enc_u16_def be_u16_Cons word_cat_halves_u16 p_try_map_def)

lemma parse_u32_enc: "parse_u32 W (enc_u32 u @ r) = POk u r"
  by (simp add: parse_u32_def enc_u32_def to_be_bytes_u32_def be_u32_Cons word_cat_quarters_u32)

end

lemma writes_ints [writes_intros]:
  "writes (write_u16 u) (enc_u16 u)" "writes (write_u16_nonzero u) (enc_u16 u)"
  "writes (write_u32 v) (enc_u32 v)"
  by (simp_all add: write_u16_def write_u16_nonzero_def write_u32_def writes_w_u16 writes_w_u32)

section \<open>The integer codecs\<close>

sublocale winnow_spec \<subseteq> u16:
  checked_codec "parse_u16 W" write_u16 "\<lambda>_. Some 2" enc_u16 "\<lambda>_. True" "\<lambda>u. u"
  by unfold_locales (simp_all add: parse_u16_enc writes_ints sizes_def parse_u16_sound [simplified])

sublocale winnow_spec \<subseteq> u16_nonzero:
  checked_codec "parse_u16_nonzero W" write_u16_nonzero "\<lambda>_. Some 2" enc_u16 "\<lambda>u. u \<noteq> 0" "\<lambda>u. u"
  by unfold_locales
    (simp_all add: parse_u16_nonzero_enc writes_ints sizes_def parse_u16_nonzero_sound [simplified])

sublocale winnow_spec \<subseteq> u32:
  checked_codec "parse_u32 W" write_u32 "\<lambda>_. Some 4" enc_u32 "\<lambda>_. True" "\<lambda>u. u"
  by unfold_locales (simp_all add: parse_u32_enc writes_ints sizes_def parse_u32_sound [simplified])

sublocale winnow_spec \<subseteq> var_u32:
  checked_codec "parse_variable_u32 W False" write_variable_u32 variable_u32_binary_size enc_var
    "\<lambda>u. u \<le> VARIABLE_INTEGER_MAX" "\<lambda>u. u"
  by unfold_locales (simp_all add: parse_enc_var writes_variable_u32 sizes_variable_u32 parse_var_sound)

context winnow_spec begin

lemma parse_var_equation:
  "parse_variable_u32 W partial i =
    (let k = length (takeWhile var_cont (take 4 i))
     in if k = 4 then PErr Backtrack
        else if k = length i then PErr (if partial then Incomplete (Size 1) else Backtrack)
        else POk (word_of_nat (var_nat (take (Suc k) i))) (drop (Suc k) i))"
proof (cases rule: parse_var_cases [of i partial])
  case (ok fr l r)
  then have "takeWhile var_cont (take 4 i) = fr" by (auto simp: takeWhile_append2 take_Cons')
  with ok show ?thesis by simp
next
  case short
  then have tw: "takeWhile var_cont (take 4 i) = i" by (auto simp: takeWhile_eq_all_conv)
  show ?thesis unfolding Let_def tw using short by simp
next
  case long
  then have tw: "takeWhile var_cont (take 4 i) = take 4 i" by (auto simp: takeWhile_eq_all_conv)
  show ?thesis unfolding Let_def tw using long by simp
qed

end

section \<open>Properties\<close>

text \<open>
  C18. The writer of variable byte integers, with its four cases of fixed length, writes what the
  encoding loop of the MQTT standard (\<open>var_bytes\<close>) produces, and \<open>variable_u32_binary_size\<close> is
  its length; a number above 268435455 is refused by the writer, which writes nothing, and is a
  panic of the size.
\<close>

theorem write_variable_u32_standard:
  "write_variable_u32 u buf =
     (if u \<le> VARIABLE_INTEGER_MAX then (WOk, buf @ var_bytes (unat u)) else (WErr Invariant, buf)) \<and>
   variable_u32_binary_size u =
     (if u \<le> VARIABLE_INTEGER_MAX then Some (word_of_nat (length (var_bytes (unat u)))) else None)"
proof (cases "u \<le> VARIABLE_INTEGER_MAX")
  case True
  with writes_variable_u32 [of u] sizes_variable_u32 [of u] show ?thesis
    by (simp add: writes_def sizes_def enc_var_def)
next
  case False
  then have "\<not> u \<le> 268435455" "\<not> u \<le> 2097151" "\<not> u \<le> 16383" "\<not> u \<le> 127"
    by (simp_all add: VARIABLE_INTEGER_MAX_def word_le_nat_alt)
  with False show ?thesis
    by (simp add: write_variable_u32_def variable_u32_binary_size_def w_fail_def)
qed

text \<open>
  C19. The parser of variable byte integers reads at most four bytes: after fewer than four bytes
  with the continuation bit it takes the next one and gives the number of the standard's decoder;
  four bytes with the continuation bit are an error, and so is the end of the input, unless more
  may come. Leading zero groups are accepted.
\<close>

theorem parse_variable_u32_exact:
  assumes "winnow_spec W"
  shows "parse_variable_u32 W partial i =
    (let k = length (takeWhile var_cont (take 4 i))
     in if k = 4 then PErr Backtrack
        else if k = length i then PErr (if partial then Incomplete (Size 1) else Backtrack)
        else POk (word_of_nat (var_nat (take (Suc k) i))) (drop (Suc k) i))"
  by (rule winnow_spec.parse_var_equation [OF assms])

lemma parse_variable_u32_exact_witness:
  "parse_variable_u32 winnow_ref True [0x80, 0x01, 0xFF] =
    (let k = length (takeWhile var_cont (take 4 [0x80, 0x01, 0xFF]))
     in if k = 4 then PErr Backtrack
        else if k = length [0x80, 0x01, 0xFF :: u8] then PErr (if True then Incomplete (Size 1) else Backtrack)
        else POk (word_of_nat (var_nat (take (Suc k) [0x80, 0x01, 0xFF]))) (drop (Suc k) [0x80, 0x01, 0xFF]))"
  by (rule parse_variable_u32_exact [OF winnow_ref_spec])

end
