(* ===== verification/Utf8.thy ===== *)
theory Utf8
  imports Prelude
begin

text \<open>
  \<open>core::str::from_utf8\<close>: the well-formed UTF-8 byte sequences (no overlong form, no
  surrogate, nothing above U+10FFFF) and the scalar values they encode, which is what
  \<open>str::chars\<close> iterates over.
\<close>

definition utf8_cont :: "u8 \<Rightarrow> u8 \<Rightarrow> u8 \<Rightarrow> bool" where
  "utf8_cont lo hi b \<longleftrightarrow> lo \<le> b \<and> b \<le> hi"

definition low6 :: "u8 \<Rightarrow> nat" where
  "low6 b = unat b mod 64"

text \<open>The range of the second byte depends on the first one.\<close>

definition second_lo :: "u8 \<Rightarrow> u8" where
  "second_lo b = (if b = 0xE0 then 0xA0 else if b = 0xF0 then 0x90 else 0x80)"

definition second_hi :: "u8 \<Rightarrow> u8" where
  "second_hi b = (if b = 0xED then 0x9F else if b = 0xF4 then 0x8F else 0xBF)"

fun utf8_chars :: "bytes \<Rightarrow> nat list option" where
  "utf8_chars [] = Some []"
| "utf8_chars (b # r) =
     (if b < 0x80 then map_option (Cons (unat b)) (utf8_chars r)
      else if 0xC2 \<le> b \<and> b \<le> 0xDF then
        (case r of
           b1 # r1 \<Rightarrow>
             if utf8_cont (second_lo b) (second_hi b) b1
             then map_option (Cons ((unat b - 0xC0) * 64 + low6 b1)) (utf8_chars r1)
             else None
         | _ \<Rightarrow> None)
      else if 0xE0 \<le> b \<and> b \<le> 0xEF then
        (case r of
           b1 # b2 # r2 \<Rightarrow>
             if utf8_cont (second_lo b) (second_hi b) b1
               \<and> utf8_cont 0x80 0xBF b2
             then map_option (Cons ((unat b - 0xE0) * 4096 + low6 b1 * 64 + low6 b2)) (utf8_chars r2)
             else None
         | _ \<Rightarrow> None)
      else if 0xF0 \<le> b \<and> b \<le> 0xF4 then
        (case r of
           b1 # b2 # b3 # r3 \<Rightarrow>
             if utf8_cont (second_lo b) (second_hi b) b1
               \<and> utf8_cont 0x80 0xBF b2 \<and> utf8_cont 0x80 0xBF b3
             then map_option (Cons ((unat b - 0xF0) * 262144 + low6 b1 * 4096 + low6 b2 * 64 + low6 b3))
               (utf8_chars r3)
             else None
         | _ \<Rightarrow> None)
      else None)"

declare utf8_chars.simps(2) [simp del]

definition utf8_valid :: "bytes \<Rightarrow> bool" where
  "utf8_valid bs \<longleftrightarrow> utf8_chars bs \<noteq> None"

text \<open>\<open>str::from_utf8\<close> returns the same bytes as a string, or an error.\<close>

definition from_utf8 :: "bytes \<Rightarrow> rstr option" where
  "from_utf8 bs = (if utf8_valid bs then Some bs else None)"

lemma utf8_valid_Nil [simp]: "utf8_valid []"
  by (simp add: utf8_valid_def)

lemma utf8_chars_ascii: "b < 0x80 \<Longrightarrow> utf8_chars (b # r) = map_option (Cons (unat b)) (utf8_chars r)"
  by (simp add: utf8_chars.simps(2))

lemma utf8_valid_ascii: "\<forall>b\<in>set bs. b < 0x80 \<Longrightarrow> utf8_chars bs = Some (map unat bs)"
  by (induction bs) (simp_all add: utf8_chars_ascii)

lemma from_utf8_Some [simp]: "from_utf8 bs = Some s \<longleftrightarrow> utf8_valid bs \<and> s = bs"
  by (auto simp: from_utf8_def)

lemma utf8_cont_ge: "utf8_cont (second_lo b) hi x \<Longrightarrow> 0x80 \<le> x"
  by (rule order.trans [of _ "second_lo b"]) (auto simp: utf8_cont_def second_lo_def)

lemma utf8_cont_le: "utf8_cont lo (second_hi b) x \<Longrightarrow> x \<le> 0xBF"
  by (rule order.trans [of _ "second_hi b"]) (auto simp: utf8_cont_def second_hi_def)

lemma utf8_chars_multi:
  "0xC2 \<le> b \<Longrightarrow> b \<le> 0xDF \<Longrightarrow> utf8_chars (b # r) =
     (case r of
        b1 # r1 \<Rightarrow>
          if utf8_cont (second_lo b) (second_hi b) b1
          then map_option (Cons ((unat b - 0xC0) * 64 + low6 b1)) (utf8_chars r1)
          else None
      | _ \<Rightarrow> None)"
  "0xE0 \<le> b \<Longrightarrow> b \<le> 0xEF \<Longrightarrow> utf8_chars (b # r) =
     (case r of
        b1 # b2 # r2 \<Rightarrow>
          if utf8_cont (second_lo b) (second_hi b) b1 \<and> utf8_cont 0x80 0xBF b2
          then map_option (Cons ((unat b - 0xE0) * 4096 + low6 b1 * 64 + low6 b2)) (utf8_chars r2)
          else None
      | _ \<Rightarrow> None)"
  "0xF0 \<le> b \<Longrightarrow> b \<le> 0xF4 \<Longrightarrow> utf8_chars (b # r) =
     (case r of
        b1 # b2 # b3 # r3 \<Rightarrow>
          if utf8_cont (second_lo b) (second_hi b) b1
            \<and> utf8_cont 0x80 0xBF b2 \<and> utf8_cont 0x80 0xBF b3
          then map_option (Cons ((unat b - 0xF0) * 262144 + low6 b1 * 4096 + low6 b2 * 64 + low6 b3))
            (utf8_chars r3)
          else None
      | _ \<Rightarrow> None)"
  by (subst utf8_chars.simps(2); force simp: word_le_nat_alt word_less_nat_alt)+

lemma low6_lead:
  assumes "lo \<le> b" and "b \<le> 0xBF" and "0x80 \<le> (lo :: u8)"
  shows "unat lo mod 64 \<le> unat b mod 64"
proof -
  have "128 \<le> unat lo" "unat lo \<le> unat b" "unat b < 192"
    using assms by (simp_all add: word_le_nat_alt)
  moreover have "n mod 64 = n - 128" if "128 \<le> n" "n < 192" for n :: nat
    using that by (simp add: le_mod_geq)
  ultimately show ?thesis by simp
qed

text \<open>The range of the second byte keeps longer forms from standing for small values.\<close>

lemma second_lead:
  assumes "utf8_cont (second_lo b) (second_hi b) b1"
  shows "b = 0xE0 \<Longrightarrow> 32 \<le> low6 b1" "b = 0xF0 \<Longrightarrow> 16 \<le> low6 b1"
  using utf8_cont_le [OF assms] assms low6_lead [of "0xA0" b1] low6_lead [of "0x90" b1]
  by (simp_all add: utf8_cont_def low6_def second_lo_def)

lemma lead_offset: "m \<le> b \<Longrightarrow> b \<noteq> m \<Longrightarrow> 1 \<le> unat b - unat (m :: u8)"
  by (simp add: word_le_nat_alt word_unat_eq_iff)

text \<open>A first byte, with the bytes that complete its scalar value and the value.\<close>

lemma utf8_chars_step:
  assumes "utf8_chars (b # r) = Some cs"
  obtains "b < 0x80" "\<exists>cs'. utf8_chars r = Some cs' \<and> cs = unat b # cs'"
  | pre r' c cs' where "r = pre @ r'" "\<forall>x\<in>set (b # pre). 0x80 \<le> x" "128 \<le> c"
      "utf8_chars r' = Some cs'" "cs = c # cs'"
proof (cases "b < 0x80")
  case True
  then show ?thesis using that(1) assms by (auto simp: utf8_chars_ascii)
next
  case False
  then have b: "0x80 \<le> b" by simp
  consider (two) "0xC2 \<le> b" "b \<le> 0xDF" | (three) "0xE0 \<le> b" "b \<le> 0xEF" | (four) "0xF0 \<le> b" "b \<le> 0xF4"
    using assms False by (auto simp: utf8_chars.simps(2) split: if_splits)
  then show ?thesis
  proof cases
    case two
    then obtain b1 r1 cs' where r: "r = [b1] @ r1" "utf8_cont (second_lo b) (second_hi b) b1" "utf8_chars r1 = Some cs'"
      "cs = ((unat b - 0xC0) * 64 + low6 b1) # cs'"
      using assms utf8_chars_multi(1) [OF two] by (auto split: list.splits if_splits)
    have "2 \<le> unat b - 0xC0" using two(1) by (simp add: word_le_nat_alt)
    with r b show ?thesis by (intro that(2) [of "[b1]"]) (auto dest: utf8_cont_ge)
  next
    case three
    then obtain b1 b2 r2 cs' where r: "r = [b1, b2] @ r2"
      "utf8_cont (second_lo b) (second_hi b) b1"
      "utf8_cont 0x80 0xBF b2" "utf8_chars r2 = Some cs'"
      "cs = ((unat b - 0xE0) * 4096 + low6 b1 * 64 + low6 b2) # cs'"
      using assms utf8_chars_multi(2) [OF three] by (auto split: list.splits if_splits)
    have "128 \<le> (unat b - 0xE0) * 4096 + low6 b1 * 64 + low6 b2"
      using second_lead(1) [OF r(2)] lead_offset [OF three(1)] by fastforce
    moreover have "0x80 \<le> b1" by (rule utf8_cont_ge [OF r(2)])
    moreover have "0x80 \<le> b2" using r(3) by (simp add: utf8_cont_def)
    ultimately show ?thesis using r b by (intro that(2) [of "[b1, b2]"]) auto
  next
    case four
    then obtain b1 b2 b3 r3 cs' where r: "r = [b1, b2, b3] @ r3"
      "utf8_cont (second_lo b) (second_hi b) b1"
      "utf8_cont 0x80 0xBF b2" "utf8_cont 0x80 0xBF b3" "utf8_chars r3 = Some cs'"
      "cs = ((unat b - 0xF0) * 262144 + low6 b1 * 4096 + low6 b2 * 64 + low6 b3) # cs'"
      using assms utf8_chars_multi(3) [OF four] by (auto split: list.splits if_splits)
    have "128 \<le> (unat b - 0xF0) * 262144 + low6 b1 * 4096 + low6 b2 * 64 + low6 b3"
      using second_lead(2) [OF r(2)] lead_offset [OF four(1)] by fastforce
    moreover have "0x80 \<le> b1" by (rule utf8_cont_ge [OF r(2)])
    moreover have "0x80 \<le> b2" "0x80 \<le> b3" using r(3,4) by (simp_all add: utf8_cont_def)
    ultimately show ?thesis using r b by (intro that(2) [of "[b1, b2, b3]"]) auto
  qed
qed

text \<open>An ASCII character occurs in a string exactly where its byte does.\<close>

lemma utf8_chars_ascii_mem:
  assumes "utf8_chars bs = Some cs" and "c < 0x80"
  shows "unat c \<in> set cs \<longleftrightarrow> c \<in> set bs"
  using assms(1)
proof (induction "length bs" arbitrary: bs cs rule: less_induct)
  case less
  show ?case
  proof (cases bs)
    case (Cons b r)
    with less.prems have "utf8_chars (b # r) = Some cs" by simp
    then show ?thesis
    proof (cases rule: utf8_chars_step)
      case 1
      with less.hyps [of r] Cons show ?thesis by (auto simp: word_unat_eq_iff)
    next
      case (2 pre r' x cs')
      then have "c \<notin> set (b # pre)" using assms(2) by fastforce
      moreover have "x \<noteq> unat c" using 2(3) assms(2) by (simp add: word_less_nat_alt)
      moreover have "unat c \<in> set cs' \<longleftrightarrow> c \<in> set r'" using less.hyps [of r' cs'] Cons 2 by simp
      ultimately show ?thesis using Cons 2 by auto
    qed
  qed (use less.prems in simp)
qed

end
