(* ===== verification/Strings.thy ===== *)
theory Strings
  imports Integers Utf8
begin

text \<open>
  \<open>v5/strings.rs\<close>, \<open>v5/bytes.rs\<close>, \<open>v5/boolean.rs\<close> and \<open>v5/qos.rs\<close>: length-prefixed
  UTF-8 strings and binary data, booleans and the quality of service levels.
\<close>

section \<open>Strings\<close>

definition parse_string :: "winnow \<Rightarrow> rstr parser" where
  "parse_string W =
     p_bind (win_length_take W (p_map unat (parse_u16 W)))
       (\<lambda>maybe_str. case from_utf8 maybe_str of None \<Rightarrow> p_fail Backtrack | Some s \<Rightarrow> p_return s)"

definition string_binary_size :: "rstr \<Rightarrow> u32 option" where
  "string_binary_size s = Some (word_of_nat (2 + length s))"

text \<open>\<open>s.len().try_into()\<close> to \<open>u16\<close>.\<close>

definition u16_try_from :: "nat \<Rightarrow> u16 option" where
  "u16_try_from n = (if n \<le> 65535 then Some (word_of_nat n) else None)"

definition write_string :: "rstr \<Rightarrow> writer" where
  "write_string s =
     (case u16_try_from (length s) of
        None \<Rightarrow> w_fail Invariant
      | Some len \<Rightarrow> w_seq [w_u16 len, write_slice s])"

definition string_pair_binary_size :: "rstr \<Rightarrow> rstr \<Rightarrow> u32 option" where
  "string_pair_binary_size key val = s_add (string_binary_size key) (string_binary_size val)"

definition parse_string_pair :: "winnow \<Rightarrow> (rstr \<times> rstr) parser" where
  "parse_string_pair W =
     p_bind (parse_string W) (\<lambda>first. p_bind (parse_string W) (\<lambda>second. p_return (first, second)))"

section \<open>Binary data\<close>

definition parse_binary_data :: "winnow \<Rightarrow> bytes parser" where
  "parse_binary_data W = win_length_take W (p_map unat (parse_u16 W))"

definition write_binary_data :: "bytes \<Rightarrow> writer" where
  "write_binary_data sl =
     (case u16_try_from (length sl) of
        None \<Rightarrow> w_fail Invariant
      | Some slice_len \<Rightarrow> w_seq [w_u16 slice_len, write_slice sl])"

definition binary_data_binary_size :: "bytes \<Rightarrow> u32 option" where
  "binary_data_binary_size data = Some (word_of_nat (2 + length data))"

section \<open>Booleans and quality of service\<close>

definition parse_bool :: "winnow \<Rightarrow> bool parser" where
  "parse_bool W =
     p_bind (win_u8 W False)
       (\<lambda>b. if b = 0 then p_return False else if b = 1 then p_return True else p_fail Backtrack)"

definition write_bool :: "bool \<Rightarrow> writer" where
  "write_bool b = write_byte (if b then 1 else 0)"

datatype QualityOfService = AtMostOnce | AtLeastOnce | ExactlyOnce

fun qos_to_u8 :: "QualityOfService \<Rightarrow> u8" where
  "qos_to_u8 AtMostOnce = 0"
| "qos_to_u8 AtLeastOnce = 1"
| "qos_to_u8 ExactlyOnce = 2"

text \<open>\<open>TryFromPrimitive\<close>: the variant with this discriminant, if there is one.\<close>

definition qos_try_from :: "u8 \<Rightarrow> QualityOfService option" where
  "qos_try_from b = find (\<lambda>q. qos_to_u8 q = b) [AtMostOnce, AtLeastOnce, ExactlyOnce]"

definition parse_qos :: "winnow \<Rightarrow> QualityOfService parser" where
  "parse_qos W = p_try_map qos_try_from (win_u8 W False)"

definition write_qos :: "QualityOfService \<Rightarrow> writer" where
  "write_qos q = write_byte (qos_to_u8 q)"

datatype MaximumQualityOfService = MaxAtMostOnce | MaxAtLeastOnce

fun max_qos_to_u8 :: "MaximumQualityOfService \<Rightarrow> u8" where
  "max_qos_to_u8 MaxAtMostOnce = 0"
| "max_qos_to_u8 MaxAtLeastOnce = 1"

definition max_qos_try_from :: "u8 \<Rightarrow> MaximumQualityOfService option" where
  "max_qos_try_from b = find (\<lambda>q. max_qos_to_u8 q = b) [MaxAtMostOnce, MaxAtLeastOnce]"

definition parse_maximum_quality_of_service :: "winnow \<Rightarrow> MaximumQualityOfService parser" where
  "parse_maximum_quality_of_service W = p_try_map max_qos_try_from (win_u8 W False)"

definition write_maximum_quality_of_service :: "MaximumQualityOfService \<Rightarrow> writer" where
  "write_maximum_quality_of_service q = write_byte (max_qos_to_u8 q)"

lemmas string_defs [defs] =
  parse_string_def string_binary_size_def u16_try_from_def write_string_def
  string_pair_binary_size_def parse_string_pair_def parse_binary_data_def write_binary_data_def
  binary_data_binary_size_def parse_bool_def write_bool_def qos_try_from_def parse_qos_def
  write_qos_def max_qos_try_from_def parse_maximum_quality_of_service_def
  write_maximum_quality_of_service_def

section \<open>Layouts and contracts\<close>

definition enc_data :: "bytes \<Rightarrow> bytes" where
  "enc_data s = enc_u16 (word_of_nat (length s)) @ s"

definition data_ok :: "bytes \<Rightarrow> bool" where
  "data_ok s \<longleftrightarrow> length s \<le> 65535"

definition str_ok :: "rstr \<Rightarrow> bool" where
  "str_ok s \<longleftrightarrow> utf8_valid s \<and> length s \<le> 65535"

lemma data_ok_code [code]: "data_ok s \<longleftrightarrow> int (length s) \<le> 65535"
  by (simp only: data_ok_def nat_le_numeral)

lemma str_ok_code [code]: "str_ok s \<longleftrightarrow> utf8_valid s \<and> int (length s) \<le> 65535"
  by (simp only: str_ok_def nat_le_numeral)

lemma str_ok_data: "str_ok s \<Longrightarrow> data_ok s"
  by (simp add: str_ok_def data_ok_def)

lemma length_enc_data [simp]: "length (enc_data s) = 2 + length s"
  by (simp add: enc_data_def)

lemma unat_u16_len: "length s \<le> 65535 \<Longrightarrow> unat (word_of_nat (length s) :: u16) = length s"
  by (simp add: unat_of_nat)

lemma qos_try_from_to [simp]: "qos_try_from (qos_to_u8 q) = Some q"
  by (cases q) (simp_all add: qos_try_from_def)

lemma qos_try_from_Some: "qos_try_from b = Some q \<Longrightarrow> qos_to_u8 q = b"
  by (auto simp: qos_try_from_def split: if_splits)

lemma max_qos_try_from_to [simp]: "max_qos_try_from (max_qos_to_u8 q) = Some q"
  by (cases q) (simp_all add: max_qos_try_from_def)

lemma writes_data:
  "data_ok s \<Longrightarrow> writes (write_binary_data s) (enc_data s)"
  "data_ok s \<Longrightarrow> writes (write_string s) (enc_data s)"
  by (auto simp: write_binary_data_def write_string_def u16_try_from_def data_ok_def enc_data_def
      intro!: writes_one writes_intros)

context winnow_spec begin

lemma parse_binary_data_enc: "data_ok s \<Longrightarrow> parse_binary_data W (enc_data s @ r) = POk s r"
  by (simp add: parse_binary_data_def length_take p_map_def enc_data_def u16.parse_enc unat_u16_len
      data_ok_def)

lemma parse_string_binary:
  "parse_string W i =
    (case parse_binary_data W i of
       POk s r \<Rightarrow> if utf8_valid s then POk s r else PErr Backtrack
     | PErr e \<Rightarrow> PErr e)"
  by (simp add: parse_string_def parse_binary_data_def p_bind_def from_utf8_def p_return_def
      p_fail_def split: presult.splits)

text \<open>What the two parsers return is as long as the length field can say, and in the input.\<close>

lemma parse_binary_data_POk:
  assumes "parse_binary_data W i = POk s r"
  shows "i = enc_data s @ r \<and> data_ok s"
proof (cases rule: be_u16_cases [of i])
  case (1 a b r')
  define n :: u16 where "n = word_cat a b"
  have "[a, b] = enc_u16 n"
    by (simp add: n_def enc_u16_word_cat)
  moreover have n: "unat n \<le> length r'" "s = take (unat n) r'" "r = drop (unat n) r'"
    using assms 1 by (auto simp: parse_binary_data_def length_take p_map_def parse_u16_def n_def
        split: if_splits)
  moreover have "unat n \<le> 65535" using unat_u16_less [of n] by simp
  ultimately show ?thesis using 1(1) by (simp add: enc_data_def data_ok_def)
next
  case 2
  with assms show ?thesis by (simp add: parse_binary_data_def length_take p_map_def parse_u16_def)
qed

lemma parse_string_POk:
  assumes "parse_string W i = POk s r"
  shows "i = enc_data s @ r \<and> str_ok s"
  using assms parse_binary_data_POk
  by (fastforce simp: parse_string_binary str_ok_def data_ok_def split: presult.splits if_splits)

lemma parse_binary_data_strict [parser_intros]: "parser_strict (parse_binary_data W)"
  unfolding parse_binary_data_def by (intro parser_intros)

lemma parse_string_strict [parser_intros]: "parser_strict (parse_string W)"
  unfolding parse_string_def by (intro parser_intros)

lemma parse_string_pair_strict [parser_intros]: "parser_strict (parse_string_pair W)"
  unfolding parse_string_pair_def by (intro parser_intros parser_strict_ok [OF parse_string_strict])

lemma parse_bool_strict [parser_intros]: "parser_strict (parse_bool W)"
  unfolding parse_bool_def by (intro parser_intros)

lemma parse_qos_strict [parser_intros]: "parser_strict (parse_qos W)"
  unfolding parse_qos_def by (intro parser_intros)

lemma parse_max_qos_strict [parser_intros]: "parser_strict (parse_maximum_quality_of_service W)"
  unfolding parse_maximum_quality_of_service_def by (intro parser_intros)

lemma parse_bool_sound: "parse_bool W i = POk b r \<Longrightarrow> Suc (length r) \<le> length i"
  by (auto simp: parse_bool_def p_defs split: presult.splits if_splits dest: u8_sound)

lemma parse_qos_sound: "parse_qos W i = POk q r \<Longrightarrow> Suc (length r) \<le> length i"
  by (auto simp: parse_qos_def p_defs split: presult.splits option.splits dest: u8_sound)

lemma parse_max_qos_sound:
  "parse_maximum_quality_of_service W i = POk q r \<Longrightarrow> Suc (length r) \<le> length i"
  by (auto simp: parse_maximum_quality_of_service_def p_defs split: presult.splits option.splits
      dest: u8_sound)

lemma parse_string_enc: "str_ok s \<Longrightarrow> parse_string W (enc_data s @ r) = POk s r"
  by (simp add: parse_string_binary parse_binary_data_enc str_ok_data) (simp add: str_ok_def)

lemma parse_bool_enc: "parse_bool W ((if b then 1 else 0) # r) = POk b r"
  by (simp add: parse_bool_def p_defs u8_Cons)

lemma parse_qos_enc: "parse_qos W (qos_to_u8 q # r) = POk q r"
  by (simp add: parse_qos_def p_defs u8_Cons)

lemma parse_max_qos_enc: "parse_maximum_quality_of_service W (max_qos_to_u8 q # r) = POk q r"
  by (simp add: parse_maximum_quality_of_service_def p_defs u8_Cons)

end

lemma writes_small [writes_intros]:
  "writes (write_bool b) [if b then 1 else 0]" "writes (write_qos q) [qos_to_u8 q]"
  "writes (write_maximum_quality_of_service m) [max_qos_to_u8 m]"
  by (simp_all add: write_bool_def write_qos_def write_maximum_quality_of_service_def
      writes_byte)

sublocale winnow_spec \<subseteq> bin_data:
  checked_codec "parse_binary_data W" write_binary_data binary_data_binary_size enc_data data_ok "\<lambda>s. s"
  by unfold_locales
    (simp_all add: parse_binary_data_enc writes_data sizes_def binary_data_binary_size_def,
      use parse_binary_data_POk in fastforce)

sublocale winnow_spec \<subseteq> str:
  checked_codec "parse_string W" write_string string_binary_size enc_data str_ok "\<lambda>s. s"
  by unfold_locales
    (simp_all add: parse_string_enc str_ok_data writes_data sizes_def string_binary_size_def,
      use parse_string_POk in fastforce)

sublocale winnow_spec \<subseteq> boolean:
  checked_codec "parse_bool W" write_bool "\<lambda>_. Some 1" "\<lambda>b. [if b then 1 else 0]" "\<lambda>_. True" "\<lambda>b. b"
  by unfold_locales (simp_all add: parse_bool_enc writes_small sizes_def parse_bool_sound)

sublocale winnow_spec \<subseteq> qos:
  checked_codec "parse_qos W" write_qos "\<lambda>_. Some 1" "\<lambda>q. [qos_to_u8 q]" "\<lambda>_. True" "\<lambda>q. q"
  by unfold_locales (simp_all add: parse_qos_enc writes_small sizes_def parse_qos_sound)

sublocale winnow_spec \<subseteq> max_qos:
  checked_codec "parse_maximum_quality_of_service W" write_maximum_quality_of_service "\<lambda>_. Some 1"
    "\<lambda>q. [max_qos_to_u8 q]" "\<lambda>_. True" "\<lambda>q. q"
  by unfold_locales (simp_all add: parse_max_qos_enc writes_small sizes_def parse_max_qos_sound)

section \<open>Properties\<close>

text \<open>
  The parser of strings accepts exactly the length-prefixed well-formed UTF-8 sequences, and
  the writer writes exactly these: a string of more than 65535 bytes is refused before anything
  is written.
\<close>

lemma string_exact:
  assumes "winnow_spec W"
  shows "(parse_string W i = POk s r) = (i = enc_data s @ r \<and> utf8_valid s \<and> length s \<le> 65535) \<and>
    write_string s buf = (if length s \<le> 65535 then (WOk, buf @ enc_data s) else (WErr Invariant, buf))"
  using winnow_spec.parse_string_POk [OF assms, of i s r] winnow_spec.parse_string_enc [OF assms, of s r]
    writesD [OF writes_data(2), of s buf]
  by (auto simp: str_ok_def data_ok_def write_string_def u16_try_from_def w_fail_def)

end
