(* ===== verification/Variable_Header.thy ===== *)
theory Variable_Header
  imports Strings
begin

text \<open>
  \<open>v5/variable_header.rs\<close>: packet identifiers, the 27 properties with their parsers, writers
  and sizes (the table given to the macro \<open>define_properties!\<close>), and the user properties, which
  are kept as a slice of the input and re-parsed by an iterator. \<open>property\<close> is the enum
  \<open>Property\<close>, whose variants carry the newtypes of the same names; \<open>property_kind\<close> names
  these newtypes where the macros use them as types.
\<close>

section \<open>Packet identifiers\<close>

type_synonym PacketIdentifier = u16

definition PacketIdentifier_parse :: "winnow \<Rightarrow> PacketIdentifier parser" where
  "PacketIdentifier_parse W = parse_u16_nonzero W"

definition PacketIdentifier_binary_size :: "PacketIdentifier \<Rightarrow> u32 option" where
  "PacketIdentifier_binary_size pi = Some 2"

definition PacketIdentifier_write :: "PacketIdentifier \<Rightarrow> writer" where
  "PacketIdentifier_write pi = w_u16 pi"

lemmas PacketIdentifier_defs [defs] =
  PacketIdentifier_parse_def PacketIdentifier_binary_size_def PacketIdentifier_write_def

section \<open>The properties\<close>

datatype property =
    PayloadFormatIndicator u8
  | MessageExpiryInterval u32
  | ContentType rstr
  | ResponseTopic rstr
  | CorrelationData bytes
  | SubscriptionIdentifier u32
  | SessionExpiryInterval u32
  | AssignedClientIdentifier rstr
  | ServerKeepAlive u16
  | AuthenticationMethod rstr
  | AuthenticationData bytes
  | RequestProblemInformation u8
  | WillDelayInterval u32
  | RequestResponseInformation u8
  | ResponseInformation rstr
  | ServerReference rstr
  | ReasonString rstr
  | ReceiveMaximum u16
  | TopicAliasMaximum u16
  | TopicAlias u16
  | MaximumQoS MaximumQualityOfService
  | RetainAvailable bool
  | MaximumPacketSize u32
  | WildcardSubscriptionAvailable u8
  | SubscriptionIdentifiersAvailable u8
  | SharedSubscriptionAvailable u8
  | UserProperties bytes

datatype property_kind =
    PayloadFormatIndicator_K
  | MessageExpiryInterval_K
  | ContentType_K
  | ResponseTopic_K
  | CorrelationData_K
  | SubscriptionIdentifier_K
  | SessionExpiryInterval_K
  | AssignedClientIdentifier_K
  | ServerKeepAlive_K
  | AuthenticationMethod_K
  | AuthenticationData_K
  | RequestProblemInformation_K
  | WillDelayInterval_K
  | RequestResponseInformation_K
  | ResponseInformation_K
  | ServerReference_K
  | ReasonString_K
  | ReceiveMaximum_K
  | TopicAliasMaximum_K
  | TopicAlias_K
  | MaximumQoS_K
  | RetainAvailable_K
  | MaximumPacketSize_K
  | WildcardSubscriptionAvailable_K
  | SubscriptionIdentifiersAvailable_K
  | SharedSubscriptionAvailable_K
  | UserProperties_K

fun property_kind_of :: "property \<Rightarrow> property_kind" where
  "property_kind_of (PayloadFormatIndicator x) = PayloadFormatIndicator_K"
| "property_kind_of (MessageExpiryInterval x) = MessageExpiryInterval_K"
| "property_kind_of (ContentType x) = ContentType_K"
| "property_kind_of (ResponseTopic x) = ResponseTopic_K"
| "property_kind_of (CorrelationData x) = CorrelationData_K"
| "property_kind_of (SubscriptionIdentifier x) = SubscriptionIdentifier_K"
| "property_kind_of (SessionExpiryInterval x) = SessionExpiryInterval_K"
| "property_kind_of (AssignedClientIdentifier x) = AssignedClientIdentifier_K"
| "property_kind_of (ServerKeepAlive x) = ServerKeepAlive_K"
| "property_kind_of (AuthenticationMethod x) = AuthenticationMethod_K"
| "property_kind_of (AuthenticationData x) = AuthenticationData_K"
| "property_kind_of (RequestProblemInformation x) = RequestProblemInformation_K"
| "property_kind_of (WillDelayInterval x) = WillDelayInterval_K"
| "property_kind_of (RequestResponseInformation x) = RequestResponseInformation_K"
| "property_kind_of (ResponseInformation x) = ResponseInformation_K"
| "property_kind_of (ServerReference x) = ServerReference_K"
| "property_kind_of (ReasonString x) = ReasonString_K"
| "property_kind_of (ReceiveMaximum x) = ReceiveMaximum_K"
| "property_kind_of (TopicAliasMaximum x) = TopicAliasMaximum_K"
| "property_kind_of (TopicAlias x) = TopicAlias_K"
| "property_kind_of (MaximumQoS x) = MaximumQoS_K"
| "property_kind_of (RetainAvailable x) = RetainAvailable_K"
| "property_kind_of (MaximumPacketSize x) = MaximumPacketSize_K"
| "property_kind_of (WildcardSubscriptionAvailable x) = WildcardSubscriptionAvailable_K"
| "property_kind_of (SubscriptionIdentifiersAvailable x) = SubscriptionIdentifiersAvailable_K"
| "property_kind_of (SharedSubscriptionAvailable x) = SharedSubscriptionAvailable_K"
| "property_kind_of (UserProperties x) = UserProperties_K"

fun IDENTIFIER :: "property_kind \<Rightarrow> u32" where
  "IDENTIFIER PayloadFormatIndicator_K = 0x01"
| "IDENTIFIER MessageExpiryInterval_K = 0x02"
| "IDENTIFIER ContentType_K = 0x03"
| "IDENTIFIER ResponseTopic_K = 0x08"
| "IDENTIFIER CorrelationData_K = 0x09"
| "IDENTIFIER SubscriptionIdentifier_K = 0x0B"
| "IDENTIFIER SessionExpiryInterval_K = 0x11"
| "IDENTIFIER AssignedClientIdentifier_K = 0x12"
| "IDENTIFIER ServerKeepAlive_K = 0x13"
| "IDENTIFIER AuthenticationMethod_K = 0x15"
| "IDENTIFIER AuthenticationData_K = 0x16"
| "IDENTIFIER RequestProblemInformation_K = 0x17"
| "IDENTIFIER WillDelayInterval_K = 0x18"
| "IDENTIFIER RequestResponseInformation_K = 0x19"
| "IDENTIFIER ResponseInformation_K = 0x1A"
| "IDENTIFIER ServerReference_K = 0x1C"
| "IDENTIFIER ReasonString_K = 0x1F"
| "IDENTIFIER ReceiveMaximum_K = 0x21"
| "IDENTIFIER TopicAliasMaximum_K = 0x22"
| "IDENTIFIER TopicAlias_K = 0x23"
| "IDENTIFIER MaximumQoS_K = 0x24"
| "IDENTIFIER RetainAvailable_K = 0x25"
| "IDENTIFIER MaximumPacketSize_K = 0x27"
| "IDENTIFIER WildcardSubscriptionAvailable_K = 0x28"
| "IDENTIFIER SubscriptionIdentifiersAvailable_K = 0x29"
| "IDENTIFIER SharedSubscriptionAvailable_K = 0x2A"
| "IDENTIFIER UserProperties_K = 0x26"

definition ALLOW_REPEATING :: "property_kind \<Rightarrow> bool" where
  "ALLOW_REPEATING k \<longleftrightarrow> k = UserProperties_K"

text \<open>The arms of the dispatch in \<open>Property::parse\<close>, in order.\<close>

definition all_kinds :: "property_kind list" where
  "all_kinds = [
     PayloadFormatIndicator_K,
     MessageExpiryInterval_K,
     ContentType_K,
     ResponseTopic_K,
     CorrelationData_K,
     SubscriptionIdentifier_K,
     SessionExpiryInterval_K,
     AssignedClientIdentifier_K,
     ServerKeepAlive_K,
     AuthenticationMethod_K,
     AuthenticationData_K,
     RequestProblemInformation_K,
     WillDelayInterval_K,
     RequestResponseInformation_K,
     ResponseInformation_K,
     ServerReference_K,
     ReasonString_K,
     ReceiveMaximum_K,
     TopicAliasMaximum_K,
     TopicAlias_K,
     MaximumQoS_K,
     RetainAvailable_K,
     MaximumPacketSize_K,
     WildcardSubscriptionAvailable_K,
     SubscriptionIdentifiersAvailable_K,
     SharedSubscriptionAvailable_K, UserProperties_K]"

definition write_u8 :: "u8 \<Rightarrow> writer" where
  "write_u8 u = write_byte u"

subsection \<open>One user property\<close>

record UserProperty =
  up_key :: rstr
  up_value :: rstr

definition UserProperty_parse :: "winnow \<Rightarrow> UserProperty parser" where
  "UserProperty_parse W = p_map (\<lambda>(k, v). \<lparr>up_key = k, up_value = v\<rparr>) (parse_string_pair W)"

definition UserProperty_binary_size :: "UserProperty \<Rightarrow> u32 option" where
  "UserProperty_binary_size up = string_pair_binary_size (up_key up) (up_value up)"

definition UserProperty_write :: "UserProperty \<Rightarrow> writer" where
  "UserProperty_write up = w_seq [write_string (up_key up), write_string (up_value up)]"

text \<open>\<open>UserProperties::parse\<close> keeps the slice that starts at the first user property.\<close>

definition UserProperties_parse :: "winnow \<Rightarrow> bytes parser" where
  "UserProperties_parse W i = p_map (\<lambda>_. i) (p_take (UserProperty_parse W)) i"

subsection \<open>Parsing a property by its kind, and by its identifier\<close>

fun property_parse :: "winnow \<Rightarrow> property_kind \<Rightarrow> property parser" where
  "property_parse W PayloadFormatIndicator_K = p_map PayloadFormatIndicator (win_u8 W False)"
| "property_parse W MessageExpiryInterval_K = p_map MessageExpiryInterval (parse_u32 W)"
| "property_parse W ContentType_K = p_map ContentType (parse_string W)"
| "property_parse W ResponseTopic_K = p_map ResponseTopic (parse_string W)"
| "property_parse W CorrelationData_K = p_map CorrelationData (parse_binary_data W)"
| "property_parse W SubscriptionIdentifier_K = p_map SubscriptionIdentifier (parse_variable_u32 W False)"
| "property_parse W SessionExpiryInterval_K = p_map SessionExpiryInterval (parse_u32 W)"
| "property_parse W AssignedClientIdentifier_K = p_map AssignedClientIdentifier (parse_string W)"
| "property_parse W ServerKeepAlive_K = p_map ServerKeepAlive (parse_u16 W)"
| "property_parse W AuthenticationMethod_K = p_map AuthenticationMethod (parse_string W)"
| "property_parse W AuthenticationData_K = p_map AuthenticationData (parse_binary_data W)"
| "property_parse W RequestProblemInformation_K = p_map RequestProblemInformation (win_u8 W False)"
| "property_parse W WillDelayInterval_K = p_map WillDelayInterval (parse_u32 W)"
| "property_parse W RequestResponseInformation_K = p_map RequestResponseInformation (win_u8 W False)"
| "property_parse W ResponseInformation_K = p_map ResponseInformation (parse_string W)"
| "property_parse W ServerReference_K = p_map ServerReference (parse_string W)"
| "property_parse W ReasonString_K = p_map ReasonString (parse_string W)"
| "property_parse W ReceiveMaximum_K = p_map ReceiveMaximum (parse_u16_nonzero W)"
| "property_parse W TopicAliasMaximum_K = p_map TopicAliasMaximum (parse_u16 W)"
| "property_parse W TopicAlias_K = p_map TopicAlias (parse_u16_nonzero W)"
| "property_parse W MaximumQoS_K = p_map MaximumQoS (parse_maximum_quality_of_service W)"
| "property_parse W RetainAvailable_K = p_map RetainAvailable (parse_bool W)"
| "property_parse W MaximumPacketSize_K = p_map MaximumPacketSize (parse_u32 W)"
| "property_parse W WildcardSubscriptionAvailable_K = p_map WildcardSubscriptionAvailable (win_u8 W False)"
| "property_parse W SubscriptionIdentifiersAvailable_K = p_map SubscriptionIdentifiersAvailable (win_u8 W False)"
| "property_parse W SharedSubscriptionAvailable_K = p_map SharedSubscriptionAvailable (win_u8 W False)"
| "property_parse W UserProperties_K = p_map UserProperties (UserProperties_parse W)"

definition Property_parse :: "winnow \<Rightarrow> property parser" where
  "Property_parse W =
     p_bind (parse_variable_u32 W False)
       (\<lambda>id. case find (\<lambda>k. IDENTIFIER k = id) all_kinds of
          None \<Rightarrow> p_fail Backtrack
        | Some k \<Rightarrow> property_parse W k)"

subsection \<open>The iterator over user properties\<close>

text \<open>
  \<open>None\<close> is a panic of one of the iterator's \<open>expect\<close>s, or the end of the fuel; a loop gets
  one unit of fuel per byte of the slice. \<open>user_next\<close> is the \<open>while\<close> loop of \<open>next\<close>.
\<close>

fun user_next :: "winnow \<Rightarrow> nat \<Rightarrow> bytes \<Rightarrow> (UserProperty option \<times> bytes) option" where
  "user_next W n [] = Some (None, [])"
| "user_next W 0 (b # bs) = None"
| "user_next W (Suc n) (b # bs) =
     (case Property_parse W (b # bs) of
        POk p r \<Rightarrow>
          (case p of
             UserProperties sl \<Rightarrow>
               (case UserProperty_parse W sl of POk up r' \<Rightarrow> Some (Some up, r) | PErr e \<Rightarrow> None)
           | _ \<Rightarrow> user_next W n r)
      | PErr e \<Rightarrow> None)"

fun user_rest :: "winnow \<Rightarrow> nat \<Rightarrow> bytes \<Rightarrow> UserProperty list option" where
  "user_rest W n current =
     (case user_next W (length current) current of
        None \<Rightarrow> None
      | Some (None, r) \<Rightarrow> Some []
      | Some (Some up, r) \<Rightarrow>
          (case n of 0 \<Rightarrow> None | Suc m \<Rightarrow> map_option (Cons up) (user_rest W m r)))"

declare user_rest.simps [simp del]

definition user_iter :: "winnow \<Rightarrow> bytes \<Rightarrow> UserProperty list option" where
  "user_iter W sl =
     (case UserProperty_parse W sl of
        POk up r \<Rightarrow> map_option (Cons up) (user_rest W (length r) r)
      | PErr e \<Rightarrow> None)"

text \<open>\<open>PartialEq\<close> compares what the iterators yield.\<close>

definition UserProperties_eq :: "winnow \<Rightarrow> bytes \<Rightarrow> bytes \<Rightarrow> bool option" where
  "UserProperties_eq W a b =
     (case user_iter W a of
        None \<Rightarrow> None
      | Some xs \<Rightarrow> (case user_iter W b of None \<Rightarrow> None | Some ys \<Rightarrow> Some (xs = ys)))"

definition UserProperties_binary_size :: "winnow \<Rightarrow> bytes \<Rightarrow> u32 option" where
  "UserProperties_binary_size W sl =
     (case user_iter W sl of
        None \<Rightarrow> None
      | Some ups \<Rightarrow>
          s_sum (map (\<lambda>(idx, up). s_add (UserProperty_binary_size up)
            (if idx = 0 then Some 0 else variable_u32_binary_size (IDENTIFIER UserProperties_K)))
            (enumerate 0 ups)))"

definition UserProperties_write :: "winnow \<Rightarrow> bytes \<Rightarrow> writer" where
  "UserProperties_write W sl =
     (case user_iter W sl of
        None \<Rightarrow> w_panic
      | Some [] \<Rightarrow> w_panic
      | Some (first # rest) \<Rightarrow>
          w_seq (UserProperty_write first #
            concat (map (\<lambda>up. [write_variable_u32 (IDENTIFIER UserProperties_K), UserProperty_write up]) rest)))"

subsection \<open>Writing a property\<close>

fun property_binary_size :: "winnow \<Rightarrow> property \<Rightarrow> u32 option" where
  "property_binary_size W (PayloadFormatIndicator x) = Some 1"
| "property_binary_size W (MessageExpiryInterval x) = Some 4"
| "property_binary_size W (ContentType x) = string_binary_size x"
| "property_binary_size W (ResponseTopic x) = string_binary_size x"
| "property_binary_size W (CorrelationData x) = binary_data_binary_size x"
| "property_binary_size W (SubscriptionIdentifier x) = variable_u32_binary_size x"
| "property_binary_size W (SessionExpiryInterval x) = Some 4"
| "property_binary_size W (AssignedClientIdentifier x) = string_binary_size x"
| "property_binary_size W (ServerKeepAlive x) = Some 2"
| "property_binary_size W (AuthenticationMethod x) = string_binary_size x"
| "property_binary_size W (AuthenticationData x) = binary_data_binary_size x"
| "property_binary_size W (RequestProblemInformation x) = Some 1"
| "property_binary_size W (WillDelayInterval x) = Some 4"
| "property_binary_size W (RequestResponseInformation x) = Some 1"
| "property_binary_size W (ResponseInformation x) = string_binary_size x"
| "property_binary_size W (ServerReference x) = string_binary_size x"
| "property_binary_size W (ReasonString x) = string_binary_size x"
| "property_binary_size W (ReceiveMaximum x) = Some 2"
| "property_binary_size W (TopicAliasMaximum x) = Some 2"
| "property_binary_size W (TopicAlias x) = Some 2"
| "property_binary_size W (MaximumQoS x) = Some 1"
| "property_binary_size W (RetainAvailable x) = Some 1"
| "property_binary_size W (MaximumPacketSize x) = Some 4"
| "property_binary_size W (WildcardSubscriptionAvailable x) = Some 1"
| "property_binary_size W (SubscriptionIdentifiersAvailable x) = Some 1"
| "property_binary_size W (SharedSubscriptionAvailable x) = Some 1"
| "property_binary_size W (UserProperties x) = UserProperties_binary_size W x"

fun property_write :: "winnow \<Rightarrow> property \<Rightarrow> writer" where
  "property_write W (PayloadFormatIndicator x) = write_u8 x"
| "property_write W (MessageExpiryInterval x) = write_u32 x"
| "property_write W (ContentType x) = write_string x"
| "property_write W (ResponseTopic x) = write_string x"
| "property_write W (CorrelationData x) = write_binary_data x"
| "property_write W (SubscriptionIdentifier x) = write_variable_u32 x"
| "property_write W (SessionExpiryInterval x) = write_u32 x"
| "property_write W (AssignedClientIdentifier x) = write_string x"
| "property_write W (ServerKeepAlive x) = write_u16 x"
| "property_write W (AuthenticationMethod x) = write_string x"
| "property_write W (AuthenticationData x) = write_binary_data x"
| "property_write W (RequestProblemInformation x) = write_u8 x"
| "property_write W (WillDelayInterval x) = write_u32 x"
| "property_write W (RequestResponseInformation x) = write_u8 x"
| "property_write W (ResponseInformation x) = write_string x"
| "property_write W (ServerReference x) = write_string x"
| "property_write W (ReasonString x) = write_string x"
| "property_write W (ReceiveMaximum x) = write_u16_nonzero x"
| "property_write W (TopicAliasMaximum x) = write_u16 x"
| "property_write W (TopicAlias x) = write_u16_nonzero x"
| "property_write W (MaximumQoS x) = write_maximum_quality_of_service x"
| "property_write W (RetainAvailable x) = write_bool x"
| "property_write W (MaximumPacketSize x) = write_u32 x"
| "property_write W (WildcardSubscriptionAvailable x) = write_u8 x"
| "property_write W (SubscriptionIdentifiersAvailable x) = write_u8 x"
| "property_write W (SharedSubscriptionAvailable x) = write_u8 x"
| "property_write W (UserProperties x) = UserProperties_write W x"

text \<open>\<open>PartialEq\<close> of the newtypes.\<close>

definition property_eq :: "winnow \<Rightarrow> property \<Rightarrow> property \<Rightarrow> bool option" where
  "property_eq W p q =
     (case p of
        UserProperties a \<Rightarrow> (case q of UserProperties b \<Rightarrow> UserProperties_eq W a b | _ \<Rightarrow> Some False)
      | _ \<Rightarrow> Some (p = q))"

lemmas property_defs [defs] =
  ALLOW_REPEATING_def all_kinds_def write_u8_def UserProperty_parse_def UserProperty_binary_size_def
  UserProperty_write_def UserProperties_parse_def Property_parse_def user_iter_def
  UserProperties_eq_def UserProperties_binary_size_def UserProperties_write_def
  property_eq_def

section \<open>Layouts\<close>

definition enc_up :: "UserProperty \<Rightarrow> bytes" where
  "enc_up up = enc_data (up_key up) @ enc_data (up_value up)"

definition up_ok :: "UserProperty \<Rightarrow> bool" where
  "up_ok up \<longleftrightarrow> str_ok (up_key up) \<and> str_ok (up_value up)"

text \<open>Each user property after the first repeats the identifier.\<close>

definition enc_more :: "UserProperty list \<Rightarrow> bytes" where
  "enc_more ups = concat (map (\<lambda>up. 0x26 # enc_up up) ups)"

definition enc_ups :: "UserProperty list \<Rightarrow> bytes" where
  "enc_ups ups = (case ups of [] \<Rightarrow> [] | up # r \<Rightarrow> enc_up up @ enc_more r)"

fun enc_prop :: "winnow \<Rightarrow> property \<Rightarrow> bytes" where
  "enc_prop W (PayloadFormatIndicator x) = [x]"
| "enc_prop W (MessageExpiryInterval x) = enc_u32 x"
| "enc_prop W (ContentType x) = enc_data x"
| "enc_prop W (ResponseTopic x) = enc_data x"
| "enc_prop W (CorrelationData x) = enc_data x"
| "enc_prop W (SubscriptionIdentifier x) = enc_var x"
| "enc_prop W (SessionExpiryInterval x) = enc_u32 x"
| "enc_prop W (AssignedClientIdentifier x) = enc_data x"
| "enc_prop W (ServerKeepAlive x) = enc_u16 x"
| "enc_prop W (AuthenticationMethod x) = enc_data x"
| "enc_prop W (AuthenticationData x) = enc_data x"
| "enc_prop W (RequestProblemInformation x) = [x]"
| "enc_prop W (WillDelayInterval x) = enc_u32 x"
| "enc_prop W (RequestResponseInformation x) = [x]"
| "enc_prop W (ResponseInformation x) = enc_data x"
| "enc_prop W (ServerReference x) = enc_data x"
| "enc_prop W (ReasonString x) = enc_data x"
| "enc_prop W (ReceiveMaximum x) = enc_u16 x"
| "enc_prop W (TopicAliasMaximum x) = enc_u16 x"
| "enc_prop W (TopicAlias x) = enc_u16 x"
| "enc_prop W (MaximumQoS x) = [max_qos_to_u8 x]"
| "enc_prop W (RetainAvailable x) = [if x then 1 else 0]"
| "enc_prop W (MaximumPacketSize x) = enc_u32 x"
| "enc_prop W (WildcardSubscriptionAvailable x) = [x]"
| "enc_prop W (SubscriptionIdentifiersAvailable x) = [x]"
| "enc_prop W (SharedSubscriptionAvailable x) = [x]"
| "enc_prop W (UserProperties x) = (case user_iter W x of None \<Rightarrow> [] | Some ups \<Rightarrow> enc_ups ups)"

fun prop_ok :: "winnow \<Rightarrow> property \<Rightarrow> bool" where
  "prop_ok W (PayloadFormatIndicator x) = True"
| "prop_ok W (MessageExpiryInterval x) = True"
| "prop_ok W (ContentType x) \<longleftrightarrow> str_ok x"
| "prop_ok W (ResponseTopic x) \<longleftrightarrow> str_ok x"
| "prop_ok W (CorrelationData x) \<longleftrightarrow> data_ok x"
| "prop_ok W (SubscriptionIdentifier x) \<longleftrightarrow> x \<le> VARIABLE_INTEGER_MAX"
| "prop_ok W (SessionExpiryInterval x) = True"
| "prop_ok W (AssignedClientIdentifier x) \<longleftrightarrow> str_ok x"
| "prop_ok W (ServerKeepAlive x) = True"
| "prop_ok W (AuthenticationMethod x) \<longleftrightarrow> str_ok x"
| "prop_ok W (AuthenticationData x) \<longleftrightarrow> data_ok x"
| "prop_ok W (RequestProblemInformation x) = True"
| "prop_ok W (WillDelayInterval x) = True"
| "prop_ok W (RequestResponseInformation x) = True"
| "prop_ok W (ResponseInformation x) \<longleftrightarrow> str_ok x"
| "prop_ok W (ServerReference x) \<longleftrightarrow> str_ok x"
| "prop_ok W (ReasonString x) \<longleftrightarrow> str_ok x"
| "prop_ok W (ReceiveMaximum x) \<longleftrightarrow> x \<noteq> 0"
| "prop_ok W (TopicAliasMaximum x) = True"
| "prop_ok W (TopicAlias x) \<longleftrightarrow> x \<noteq> 0"
| "prop_ok W (MaximumQoS x) = True"
| "prop_ok W (RetainAvailable x) = True"
| "prop_ok W (MaximumPacketSize x) = True"
| "prop_ok W (WildcardSubscriptionAvailable x) = True"
| "prop_ok W (SubscriptionIdentifiersAvailable x) = True"
| "prop_ok W (SharedSubscriptionAvailable x) = True"
| "prop_ok W (UserProperties x) \<longleftrightarrow> user_iter W x \<noteq> None"

text \<open>A field of a property struct: identifier and value.\<close>

definition enc_field :: "winnow \<Rightarrow> property \<Rightarrow> bytes" where
  "enc_field W p = enc_var (IDENTIFIER (property_kind_of p)) @ enc_prop W p"


text \<open>A sequence of properties up to the end of a slice, each accepted by \<open>Property::parse\<close>.\<close>

inductive prop_seq :: "winnow \<Rightarrow> bytes \<Rightarrow> bool" for W where
  Nil: "prop_seq W []"
| Cons: "Property_parse W i = POk p r \<Longrightarrow> i \<noteq> [] \<Longrightarrow> prop_seq W r \<Longrightarrow> prop_seq W i"

section \<open>Lemmas\<close>

lemma IDENTIFIER_less: "IDENTIFIER k < 128"
  by (cases k) simp_all

lemma IDENTIFIER_le: "IDENTIFIER k \<le> VARIABLE_INTEGER_MAX"
  using IDENTIFIER_less [of k] by (simp add: VARIABLE_INTEGER_MAX_def word_less_nat_alt word_le_nat_alt)

lemma find_kind: "find (\<lambda>k'. IDENTIFIER k' = IDENTIFIER k) all_kinds = Some k"
  by (cases k) (simp_all add: all_kinds_def)

lemma find_kind_Some: "find (\<lambda>k'. IDENTIFIER k' = n) all_kinds = Some k \<Longrightarrow> IDENTIFIER k = n"
  by (auto simp: find_Some_iff)

lemma IDENTIFIER_inj: "IDENTIFIER k = IDENTIFIER k' \<Longrightarrow> k = k'"
  by (metis find_kind option.inject)

lemma enc_var_IDENTIFIER: "enc_var (IDENTIFIER k) = [ucast (IDENTIFIER k)]"
  using IDENTIFIER_less [of k]
  by (simp add: enc_var_def var_bytes_less word_less_nat_alt)

lemma enc_var_user: "enc_var 0x26 = [0x26]"
  using enc_var_IDENTIFIER [of UserProperties_K] by simp

lemma enc_field_nonempty: "enc_field W p \<noteq> []"
  by (simp add: enc_field_def)

lemma writes_u8 [writes_intros]: "writes (write_u8 u) [u]"
  by (simp add: write_u8_def writes_byte)

context winnow_spec begin

subsection \<open>User properties\<close>

lemma UserProperty_parse_enc: "up_ok up \<Longrightarrow> UserProperty_parse W (enc_up up @ r) = POk up r"
  by (simp add: UserProperty_parse_def parse_string_pair_def p_defs enc_up_def up_ok_def str.parse_enc)

lemma UserProperty_parse_POk:
  assumes "UserProperty_parse W i = POk up r"
  shows "i = enc_up up @ r \<and> up_ok up"
proof -
  obtain r' where "parse_string W i = POk (up_key up) r'" "parse_string W r' = POk (up_value up) r"
    using assms by (auto simp: UserProperty_parse_def parse_string_pair_def p_defs split: presult.splits)
  then show ?thesis by (auto dest!: parse_string_POk simp: enc_up_def up_ok_def)
qed

lemma UserProperty_parse_strict [parser_intros]: "parser_strict (UserProperty_parse W)"
  unfolding UserProperty_parse_def by (intro parser_intros)

lemma UserProperties_parse_strict [parser_intros]: "parser_strict (UserProperties_parse W)"
proof -
  note s = parser_take [OF UserProperty_parse_strict]
  show ?thesis
    by (rule parser_byI; unfold UserProperties_parse_def p_map_def)
      (auto split: presult.splits dest: parser_by_POk [OF s] parser_by_PErr [OF s])
qed

lemma UserProperties_parse_enc:
  "up_ok up \<Longrightarrow> UserProperties_parse W (enc_up up @ r) = POk (enc_up up @ r) r"
  by (simp add: UserProperties_parse_def p_map_def p_take_def UserProperty_parse_enc)

subsection \<open>Properties by kind\<close>

lemma property_parse_strict [parser_intros]: "parser_strict (property_parse W k)"
  by (cases k) (auto intro: parser_intros)

lemma Property_parse_strict [parser_intros]: "parser_strict (Property_parse W)"
  unfolding Property_parse_def
  by (intro parser_intros parser_strict_ok [OF property_parse_strict])

lemma property_parse_kind: "property_parse W k i = POk p r \<Longrightarrow> property_kind_of p = k"
  by (cases k) (auto simp: p_map_def split: presult.splits)

lemma property_parse_enc:
  assumes "prop_ok W p" and "property_kind_of p \<noteq> UserProperties_K"
  shows "property_parse W (property_kind_of p) (enc_prop W p @ r) = POk p r"
  using assms
  by (cases p) (simp_all add: p_map_def u8_Cons u32.parse_enc u16.parse_enc u16_nonzero.parse_enc
      str.parse_enc bin_data.parse_enc var_u32.parse_enc max_qos.parse_enc [simplified]
      boolean.parse_enc [simplified])

lemma Property_parse_id:
  "Property_parse W (enc_var (IDENTIFIER k) @ r) = property_parse W k r"
  by (simp add: Property_parse_def p_bind_def var_u32.parse_enc IDENTIFIER_le find_kind)

subsection \<open>The iterator\<close>

lemma Property_parse_user:
  "up_ok up \<Longrightarrow> Property_parse W (0x26 # enc_up up @ r) = POk (UserProperties (enc_up up @ r)) r"
  using Property_parse_id [of UserProperties_K "enc_up up @ r"]
  by (simp add: enc_var_user p_map_def UserProperties_parse_enc)

lemma Property_parse_field:
  assumes "prop_ok W p" and "property_kind_of p \<noteq> UserProperties_K"
  shows "Property_parse W (enc_field W p @ r) = POk p r"
  using property_parse_enc [OF assms, of r] by (simp add: enc_field_def Property_parse_id)

text \<open>A slice from which \<open>UserProperties::parse\<close> made a property starts with a user property.\<close>

lemma Property_parse_slice:
  assumes "Property_parse W i = POk (UserProperties sl) r"
  shows "\<exists>up. UserProperty_parse W sl = POk up r"
proof -
  obtain k i' where k: "property_parse W k i' = POk (UserProperties sl) r"
    using assms by (auto simp: Property_parse_def p_bind_def p_fail_def split: presult.splits option.splits)
  then have "k = UserProperties_K" using property_parse_kind by fastforce
  with k show ?thesis
    by (auto simp: UserProperties_parse_def p_map_def p_take_def split: presult.splits)
qed

lemma user_next_fuel:
  "length i \<le> n \<Longrightarrow> user_next W n i = user_next W (length i) i"
proof (induction "length i" arbitrary: i n rule: less_induct)
  case less
  show ?case
  proof (cases i)
    case (Cons b bs)
    with less.prems obtain m where m: "n = Suc m" by (cases n) auto
    show ?thesis
    proof (cases "Property_parse W i")
      case (POk p r)
      then have len: "length r < length i" by (rule parser_strict_length [OF Property_parse_strict])
      then have "user_next W m r = user_next W (length bs) r"
        using less.hyps [of r m] less.hyps [of r "length bs"] less.prems m Cons by simp
      with m Cons POk show ?thesis by (simp split: property.split)
    next
      case (PErr e)
      with m Cons show ?thesis by simp
    qed
  qed simp
qed

lemma user_next_step:
  assumes "Property_parse W i = POk p r" and "i \<noteq> []"
  shows "user_next W (length i) i =
     (case p of
        UserProperties sl \<Rightarrow>
          (case UserProperty_parse W sl of POk up r' \<Rightarrow> Some (Some up, r) | PErr e \<Rightarrow> None)
      | _ \<Rightarrow> user_next W (length r) r)"
proof -
  obtain b bs where i: "i = b # bs" using assms(2) by (cases i) auto
  have "length r < length i" by (rule parser_strict_length [OF Property_parse_strict assms(1)])
  then have "user_next W (length bs) r = user_next W (length r) r"
    using user_next_fuel [of r "length bs"] i by simp
  with assms i show ?thesis by (simp split: property.split)
qed

lemma user_next_shorter:
  "user_next W n i = Some (Some up, r) \<Longrightarrow> length r < length i"
proof (induction n arbitrary: i)
  case 0
  then show ?case by (cases i) simp_all
next
  case (Suc n)
  then obtain b bs where i: "i = b # bs" by (cases i) auto
  obtain p r' where p: "Property_parse W i = POk p r'"
    using Suc.prems i by (auto split: presult.splits)
  then have len: "length r' < length i" by (rule parser_strict_length [OF Property_parse_strict])
  show ?case
  proof (cases "property_kind_of p = UserProperties_K")
    case True
    then obtain sl where "p = UserProperties sl" by (cases p) auto
    with Suc.prems i p len show ?thesis by (auto split: presult.splits)
  next
    case False
    then have "user_next W n r' = Some (Some up, r)"
      using Suc.prems i p by (cases p) auto
    from Suc.IH [OF this] len show ?thesis by simp
  qed
qed

lemma user_rest_fuel:
  "length i \<le> n \<Longrightarrow> user_rest W n i = user_rest W (length i) i"
proof (induction "length i" arbitrary: i n rule: less_induct)
  case less
  show ?case
  proof (cases "user_next W (length i) i")
    case (Some x)
    show ?thesis
    proof (cases "fst x")
      case (Some up)
      then have x: "user_next W (length i) i = Some (Some up, snd x)" using \<open>_ = Some x\<close> by (cases x) simp
      then have len: "length (snd x) < length i" by (rule user_next_shorter)
      with less.prems obtain m k where m: "n = Suc m" and k: "length i = Suc k"
        by (cases n; cases "length i") auto
      have "user_rest W m (snd x) = user_rest W k (snd x)"
        using less.hyps [of "snd x" m] less.hyps [of "snd x" k] less.prems len m k by simp
      with x show ?thesis
        unfolding user_rest.simps [of W n i] user_rest.simps [of W "length i" i] by (simp add: m k)
    next
      case None
      then show ?thesis using \<open>_ = Some x\<close>
        unfolding user_rest.simps [of W n i] user_rest.simps [of W "length i" i]
        by (cases x) simp
    qed
  qed (simp add: user_rest.simps)
qed

lemma user_rest_Nil [simp]: "user_rest W n [] = Some []"
  by (simp add: user_rest.simps)

text \<open>One step of the iterator over a slice, with the fuel it is given.\<close>

lemma user_rest_step:
  assumes "Property_parse W i = POk p r" and "i \<noteq> []"
  shows "user_rest W (length i) i =
     (case p of
        UserProperties sl \<Rightarrow>
          (case UserProperty_parse W sl of
             POk up r' \<Rightarrow> map_option (Cons up) (user_rest W (length r) r)
           | PErr e \<Rightarrow> None)
      | _ \<Rightarrow> user_rest W (length r) r)"
proof -
  note len = parser_strict_length [OF Property_parse_strict assms(1)]
  obtain k where k: "length i = Suc k" using assms(2) by (cases i) auto
  have "user_rest W k r = user_rest W (length r) r"
    using len k user_rest_fuel [of r k] by simp
  moreover have "user_rest W (length i) r = user_rest W (length r) r"
    using len user_rest_fuel [of r "length i"] by simp
  moreover have "user_rest W n i = user_rest W n r"
    if "user_next W (length i) i = user_next W (length r) r" for n
    unfolding user_rest.simps [of W n i] user_rest.simps [of W n r] that ..
  ultimately show ?thesis
    using user_next_step [OF assms] k
    by (cases p) (auto simp: user_rest.simps [of W "Suc k" i] split: presult.splits)
qed

lemma user_rest_field:
  assumes "prop_ok W p" and "property_kind_of p \<noteq> UserProperties_K"
  shows "user_rest W (length (enc_field W p @ r)) (enc_field W p @ r) = user_rest W (length r) r"
  using user_rest_step [OF Property_parse_field [OF assms, of r]] assms(2)
  by (cases p) (simp_all add: enc_field_nonempty)

lemma user_rest_more:
  "\<forall>up\<in>set ups. up_ok up \<Longrightarrow>
    user_rest W (length (enc_more ups @ r)) (enc_more ups @ r) =
      map_option (append ups) (user_rest W (length r) r)"
proof (induction ups)
  case Nil
  then show ?case by (simp add: enc_more_def option.map_ident)
next
  case (Cons up ups)
  have e: "enc_more (up # ups) @ r = 0x26 # enc_up up @ enc_more ups @ r" by (simp add: enc_more_def)
  have "user_rest W (length (enc_more (up # ups) @ r)) (enc_more (up # ups) @ r) =
      map_option (Cons up) (user_rest W (length (enc_more ups @ r)) (enc_more ups @ r))"
    unfolding e using Cons.prems
    by (subst user_rest_step [OF Property_parse_user]) (simp_all add: UserProperty_parse_enc)
  with Cons show ?case by (simp add: option.map_comp comp_def)
qed

lemma user_rest_fields:
  "\<forall>p\<in>set ps. prop_ok W p \<and> property_kind_of p \<noteq> UserProperties_K \<Longrightarrow>
    user_rest W (length (concat (map (enc_field W) ps))) (concat (map (enc_field W) ps)) = Some []"
proof (induction ps)
  case (Cons p ps)
  then show ?case using user_rest_field [of p "concat (map (enc_field W) ps)"] by simp
qed simp

text \<open>What the iterator yields over an encoding of user properties with other fields behind it.\<close>

lemma user_iter_enc:
  assumes "ups \<noteq> []" and "\<forall>up\<in>set ups. up_ok up"
    and "\<forall>p\<in>set ps. prop_ok W p \<and> property_kind_of p \<noteq> UserProperties_K"
  shows "user_iter W (enc_ups ups @ concat (map (enc_field W) ps)) = Some ups"
proof -
  obtain up us where ups: "ups = up # us" using assms(1) by (cases ups) auto
  with assms(2) have ok: "up_ok up" "\<forall>up\<in>set us. up_ok up" by auto
  then show ?thesis
    using user_rest_more [OF ok(2)] user_rest_fields [OF assms(3)]
    by (simp add: ups enc_ups_def user_iter_def UserProperty_parse_enc)
qed

text \<open>Everything the iterator yields can be written again.\<close>

lemma user_next_ok: "user_next W n i = Some (Some up, r) \<Longrightarrow> up_ok up"
proof (induction n arbitrary: i)
  case 0
  then show ?case by (cases i) simp_all
next
  case (Suc n)
  then obtain b bs where i: "i = b # bs" by (cases i) auto
  obtain p r' where p: "Property_parse W i = POk p r'"
    using Suc.prems i by (auto split: presult.splits)
  show ?case
  proof (cases "property_kind_of p = UserProperties_K")
    case True
    then obtain sl where "p = UserProperties sl" by (cases p) auto
    with Suc.prems i p show ?thesis by (auto split: presult.splits dest: UserProperty_parse_POk)
  next
    case False
    then have "user_next W n r' = Some (Some up, r)"
      using Suc.prems i p by (cases p) auto
    then show ?thesis by (rule Suc.IH)
  qed
qed

lemma user_rest_ok: "user_rest W n i = Some ups \<Longrightarrow> up \<in> set ups \<Longrightarrow> up_ok up"
proof (induction n arbitrary: i ups)
  case 0
  then show ?case by (auto simp: user_rest.simps [of W 0 i] split: option.splits prod.splits)
next
  case (Suc n)
  then show ?case
    by (auto simp: user_rest.simps [of W "Suc n" i] dest: user_next_ok split: option.splits prod.splits)
qed

lemma user_iter_ok:
  assumes "user_iter W sl = Some ups"
  shows "ups \<noteq> [] \<and> (\<forall>up\<in>set ups. up_ok up)"
  using assms
  by (auto simp: user_iter_def split: presult.splits dest: UserProperty_parse_POk user_rest_ok)

text \<open>
  A slice that \<open>Property::parse\<close> accepts to its end is one over which the iterator does not
  panic.
\<close>

lemma user_rest_total: "prop_seq W i \<Longrightarrow> user_rest W (length i) i \<noteq> None"
proof (induction rule: prop_seq.induct)
  case (Cons i p r)
  show ?case
  proof (cases "property_kind_of p = UserProperties_K")
    case True
    then obtain sl where p: "p = UserProperties sl" by (cases p) auto
    then obtain up where "UserProperty_parse W sl = POk up r"
      using Cons.hyps(1) Property_parse_slice by blast
    with p user_rest_step [OF Cons.hyps(1,2)] Cons.IH show ?thesis by simp
  next
    case False
    then show ?thesis using user_rest_step [OF Cons.hyps(1,2)] Cons.IH by (cases p) simp_all
  qed
qed simp

lemma user_iter_total:
  assumes "UserProperty_parse W sl = POk up r" and "prop_seq W r"
  shows "user_iter W sl \<noteq> None"
  using assms user_rest_total [of r] by (simp add: user_iter_def)

subsection \<open>Writing and sizes\<close>

lemma write_user_property: "up_ok up \<Longrightarrow> writes (UserProperty_write up) (enc_up up)"
  using writes_Cons [OF str.write_enc writes_one [OF str.write_enc]]
  by (simp add: UserProperty_write_def enc_up_def up_ok_def)

lemma size_user_property: "up_ok up \<Longrightarrow> sizes (UserProperty_binary_size up) (enc_up up)"
  by (simp add: UserProperty_binary_size_def string_pair_binary_size_def enc_up_def up_ok_def
      sizes_add str.size_enc)

lemma write_user_more:
  "\<forall>up\<in>set ups. up_ok up \<Longrightarrow>
    writes (w_seq (concat (map (\<lambda>up. [write_variable_u32 0x26, UserProperty_write up]) ups))) (enc_more ups)"
proof (induction ups)
  case (Cons up ups)
  have "writes (write_variable_u32 0x26) [0x26]"
    using var_u32.write_enc [of "0x26"] by (simp add: enc_var_user VARIABLE_INTEGER_MAX_def)
  note writes_Cons [OF this writes_Cons [OF write_user_property [of up] Cons.IH]]
  with Cons.prems show ?case by (simp add: enc_more_def del: w_seq.simps)
qed (simp add: enc_more_def writes_Nil del: w_seq.simps)

lemma size_user_more:
  "\<forall>up\<in>set ups. up_ok up \<Longrightarrow> 0 < n \<Longrightarrow>
    sizes (s_sum (map (\<lambda>(idx, up). s_add (UserProperty_binary_size up)
      (if idx = 0 then Some 0 else variable_u32_binary_size 0x26)) (enumerate n ups))) (enc_more ups)"
proof (induction ups arbitrary: n)
  case (Cons up ups)
  have one: "sizes (variable_u32_binary_size 0x26) [0x26]"
    using var_u32.size_enc [of "0x26"] by (simp add: enc_var_user VARIABLE_INTEGER_MAX_def)
  have "sizes (s_add (UserProperty_binary_size up) (variable_u32_binary_size 0x26)) (0x26 # enc_up up)"
    using sizes_add [OF size_user_property one] Cons.prems(1) by (simp add: sizes_def)
  from sizes_add [OF this Cons.IH [of "Suc n"]] Cons.prems show ?case
    by (simp add: enc_more_def)
qed (simp add: enc_more_def sizes_Nil)

lemma write_user_properties:
  assumes "user_iter W sl = Some ups"
  shows "writes (UserProperties_write W sl) (enc_ups ups)"
proof -
  obtain up us where ups: "ups = up # us" and ok: "up_ok up" "\<forall>up\<in>set us. up_ok up"
    using user_iter_ok [OF assms] by (cases ups) auto
  from writes_Cons [OF write_user_property [OF ok(1)] write_user_more [OF ok(2)]]
  show ?thesis by (simp add: UserProperties_write_def assms ups enc_ups_def del: w_seq.simps)
qed

lemma size_user_properties:
  assumes "user_iter W sl = Some ups"
  shows "sizes (UserProperties_binary_size W sl) (enc_ups ups)"
proof -
  obtain up us where ups: "ups = up # us" and ok: "up_ok up" "\<forall>up\<in>set us. up_ok up"
    using user_iter_ok [OF assms] by (cases ups) auto
  have "sizes (s_add (UserProperty_binary_size up) (Some 0)) (enc_up up)"
    using sizes_add [OF size_user_property [OF ok(1)] sizes_Nil] by simp
  from sizes_add [OF this size_user_more [OF ok(2), of "Suc 0"]] show ?thesis
    by (simp add: UserProperties_binary_size_def assms ups enc_ups_def cong: if_cong)
qed

lemma property_write_enc: "prop_ok W p \<Longrightarrow> writes (property_write W p) (enc_prop W p)"
  by (cases p) (auto simp: write_user_properties writes_u8 u32.write_enc u16.write_enc
      u16_nonzero.write_enc str.write_enc bin_data.write_enc var_u32.write_enc
      max_qos.write_enc [simplified] boolean.write_enc [simplified])

lemma property_size_enc: "prop_ok W p \<Longrightarrow> sizes (property_binary_size W p) (enc_prop W p)"
  by (cases p) (auto simp: size_user_properties str.size_enc bin_data.size_enc var_u32.size_enc
      sizes_def [of "Some _"])

subsection \<open>What the parsers accept can be written\<close>

lemmas basic_sound = u8_sound u16.parse_sound u16_nonzero.parse_sound u32.parse_sound
  var_u32.parse_sound str.parse_sound bin_data.parse_sound boolean.parse_sound max_qos.parse_sound

lemma p_map_POk: "p_map f p i = POk y r \<longleftrightarrow> (\<exists>x. p i = POk x r \<and> y = f x)"
  by (auto simp: p_map_def split: presult.splits)

lemma property_parse_sound:
  assumes "property_parse W k i = POk p r" and "k \<noteq> UserProperties_K"
  shows "prop_ok W p \<and> length (enc_prop W p) + length r \<le> length i"
  using assms by (cases k) (auto simp: p_map_POk dest!: basic_sound simp del: length_enc_data)

lemma UserProperty_parse_sound:
  "UserProperty_parse W i = POk up r \<Longrightarrow> up_ok up \<and> length (enc_up up) + length r \<le> length i"
  by (auto dest: UserProperty_parse_POk)

end

section \<open>The codecs\<close>

sublocale winnow_spec \<subseteq> packet_id:
  checked_codec "PacketIdentifier_parse W" PacketIdentifier_write PacketIdentifier_binary_size enc_u16
    "\<lambda>pi. pi \<noteq> 0" "\<lambda>pi. pi"
  using u16_nonzero.checked_codec_axioms
  by (simp add: PacketIdentifier_parse_def [abs_def] PacketIdentifier_write_def [abs_def]
      PacketIdentifier_binary_size_def [abs_def] write_u16_nonzero_def [abs_def]
      write_u16_def [abs_def])

sublocale winnow_spec \<subseteq> user_prop:
  checked_codec "UserProperty_parse W" UserProperty_write UserProperty_binary_size enc_up up_ok "\<lambda>up. up"
  by unfold_locales (simp_all add: UserProperty_parse_enc write_user_property size_user_property
      UserProperty_parse_sound)

sublocale winnow_spec \<subseteq> prop_kind:
  codec "property_parse W k" "property_write W" "property_binary_size W" "enc_prop W"
    "\<lambda>p. prop_ok W p \<and> property_kind_of p = k \<and> k \<noteq> UserProperties_K" "\<lambda>p. p" for k
  by unfold_locales
    (auto simp: property_parse_enc property_write_enc property_size_enc)

end
