(* ===== verification/Properties.thy ===== *)
theory Properties
  imports Variable_Header
begin

text \<open>
  \<open>v5/properties.rs\<close>: the property structs of the packets. The macro \<open>define_properties!\<close>
  generates one struct per packet from a list of properties; here that list is an argument, the
  declaration, and a struct is the list of its \<open>Option\<close> fields in declaration order.
\<close>

section \<open>Slots\<close>

record MqttPropertySlot =
  allow_repeat :: bool
  slot :: "property option"

definition slot_new :: "bool \<Rightarrow> MqttPropertySlot" where
  "slot_new rep = \<lparr>allow_repeat = rep, slot = None\<rparr>"

text \<open>\<open>&mut self\<close> is returned; the input is only used to make the error.\<close>

definition use_slot :: "MqttPropertySlot \<Rightarrow> property \<Rightarrow> MqttPropertySlot parser" where
  "use_slot self new_slot =
     (if slot self \<noteq> None
      then (if allow_repeat self then p_return self else p_fail Backtrack)
      else p_return (self\<lparr>slot := Some new_slot\<rparr>))"

section \<open>The generated struct\<close>

type_synonym decl = "property_kind list"
type_synonym props = "property option list"

definition props_new :: "decl \<Rightarrow> props" where
  "props_new ks = map (\<lambda>_. None) ks"

text \<open>The accessor of a field.\<close>

fun props_get :: "decl \<Rightarrow> props \<Rightarrow> property_kind \<Rightarrow> property option" where
  "props_get (k # ks) (f # fs) k' = (if k = k' then f else props_get ks fs k')"
| "props_get _ _ k' = None"

text \<open>The chain of \<open>if IDENTIFIER == id\<close>; \<open>continue\<close> ends one round of the loop.\<close>

fun props_arms :: "winnow \<Rightarrow> u32 \<Rightarrow> decl \<Rightarrow> MqttPropertySlot list \<Rightarrow> MqttPropertySlot list parser" where
  "props_arms W n (k # ks) (s # ss) =
     (if IDENTIFIER k = n
      then p_bind (property_parse W k) (\<lambda>sl. p_map (\<lambda>s'. s' # ss) (use_slot s sl))
      else p_map (Cons s) (props_arms W n ks ss))"
| "props_arms W n _ _ = p_fail Backtrack"

definition props_round :: "winnow \<Rightarrow> decl \<Rightarrow> MqttPropertySlot list \<Rightarrow> MqttPropertySlot list parser" where
  "props_round W ks ss = p_bind (parse_variable_u32 W False) (\<lambda>n. props_arms W n ks ss)"

definition props_slots :: "decl \<Rightarrow> MqttPropertySlot list" where
  "props_slots ks = map (\<lambda>k. slot_new (ALLOW_REPEATING k)) ks"

definition props_parse :: "winnow \<Rightarrow> decl \<Rightarrow> props parser" where
  "props_parse W ks =
     p_bind (win_length_take W (p_map unat (parse_variable_u32 W False)))
       (\<lambda>bs. p_map (map slot) (p_inner (while_input (length bs) (props_round W ks) (props_slots ks)) bs))"

definition props_prop_size :: "winnow \<Rightarrow> props \<Rightarrow> u32 option" where
  "props_prop_size W fs =
     s_sum (map (\<lambda>f. case f of
         None \<Rightarrow> Some 0
       | Some p \<Rightarrow> s_add (variable_u32_binary_size (IDENTIFIER (property_kind_of p)))
                       (property_binary_size W p)) fs)"

definition props_binary_size :: "winnow \<Rightarrow> props \<Rightarrow> u32 option" where
  "props_binary_size W fs =
     (case props_prop_size W fs of
        None \<Rightarrow> None
      | Some prop_size \<Rightarrow> s_add (variable_u32_binary_size prop_size) (Some prop_size))"

definition props_write :: "winnow \<Rightarrow> props \<Rightarrow> writer" where
  "props_write W fs =
     (case props_prop_size W fs of
        None \<Rightarrow> w_panic
      | Some sz \<Rightarrow>
          w_seq (write_variable_u32 sz #
            concat (map (\<lambda>f. case f of
                None \<Rightarrow> []
              | Some p \<Rightarrow> [write_variable_u32 (IDENTIFIER (property_kind_of p)), property_write W p]) fs)))"

text \<open>The derived \<open>PartialEq\<close>: field by field, stopping at the first difference.\<close>

fun props_eq :: "winnow \<Rightarrow> props \<Rightarrow> props \<Rightarrow> bool option" where
  "props_eq W (f # fs) (g # gs) =
     (case (f, g) of
        (None, None) \<Rightarrow> props_eq W fs gs
      | (Some p, Some q) \<Rightarrow>
          (case property_eq W p q of
             None \<Rightarrow> None
           | Some b \<Rightarrow> if b then props_eq W fs gs else Some False)
      | _ \<Rightarrow> Some False)"
| "props_eq W fs gs = Some True"

lemmas props_defs [defs] =
  slot_new_def use_slot_def props_new_def props_round_def props_slots_def props_parse_def
  props_prop_size_def props_binary_size_def props_write_def

section \<open>Layout\<close>

definition present :: "props \<Rightarrow> property list" where
  "present fs = concat (map (\<lambda>f. case f of None \<Rightarrow> [] | Some p \<Rightarrow> [p]) fs)"

definition enc_fields :: "winnow \<Rightarrow> props \<Rightarrow> bytes" where
  "enc_fields W fs = concat (map (enc_field W) (present fs))"

definition enc_props :: "winnow \<Rightarrow> props \<Rightarrow> bytes" where
  "enc_props W fs = enc_var (word_of_nat (length (enc_fields W fs))) @ enc_fields W fs"

definition field_ok :: "winnow \<Rightarrow> property_kind \<Rightarrow> property option \<Rightarrow> bool" where
  "field_ok W k f = (case f of None \<Rightarrow> True | Some p \<Rightarrow> property_kind_of p = k \<and> prop_ok W p)"

definition props_ok :: "winnow \<Rightarrow> decl \<Rightarrow> props \<Rightarrow> bool" where
  "props_ok W ks fs \<longleftrightarrow>
     distinct ks \<and> list_all2 (field_ok W) ks fs \<and> length (enc_fields W fs) \<le> 268435455"

lemma props_ok_code [code]:
  "props_ok W ks fs \<longleftrightarrow>
     distinct ks \<and> list_all2 (field_ok W) ks fs \<and> int (length (enc_fields W fs)) \<le> 268435455"
  by (simp only: props_ok_def nat_le_numeral)

text \<open>The slots of a struct.\<close>

definition slots_of :: "decl \<Rightarrow> props \<Rightarrow> MqttPropertySlot list" where
  "slots_of ks fs = map2 (\<lambda>k f. \<lparr>allow_repeat = ALLOW_REPEATING k, slot = f\<rparr>) ks fs"

text \<open>
  What comes back from an encoding: user properties borrow the slice from the first of them to
  the end of the section.
\<close>

fun props_canon :: "winnow \<Rightarrow> props \<Rightarrow> props" where
  "props_canon W [] = []"
| "props_canon W (f # fs) =
     (case f of
        Some (UserProperties x) \<Rightarrow> Some (UserProperties (enc_prop W (UserProperties x) @ enc_fields W fs))
      | _ \<Rightarrow> f) # props_canon W fs"

text \<open>
  For the parser's side: slots that hold writable values, the size of what they hold, and the
  size of the user properties that are still to come for a filled slot.
\<close>

definition slot_inv :: "winnow \<Rightarrow> property_kind \<Rightarrow> MqttPropertySlot \<Rightarrow> bool" where
  "slot_inv W k s \<longleftrightarrow> allow_repeat s = ALLOW_REPEATING k \<and> field_ok W k (slot s)"

definition weight :: "winnow \<Rightarrow> MqttPropertySlot list \<Rightarrow> nat" where
  "weight W ss = length (enc_fields W (map slot ss))"

definition user_filled :: "MqttPropertySlot list \<Rightarrow> bool" where
  "user_filled ss \<longleftrightarrow> (\<exists>s\<in>set ss. case slot s of Some p \<Rightarrow> property_kind_of p = UserProperties_K | None \<Rightarrow> False)"

definition pending :: "winnow \<Rightarrow> MqttPropertySlot list \<Rightarrow> bytes \<Rightarrow> nat" where
  "pending W ss i =
     (if user_filled ss then length (enc_more (the (user_rest W (length i) i))) else 0)"

lemma enc_fields_simps [simp]:
  "enc_fields W [] = []"
  "enc_fields W (None # fs) = enc_fields W fs"
  "enc_fields W (Some p # fs) = enc_field W p @ enc_fields W fs"
  by (simp_all add: enc_fields_def present_def)

section \<open>Lemmas\<close>

context winnow_spec begin

subsection \<open>Totality\<close>

lemma use_slot_ok [parser_intros]: "parser_ok (use_slot s p)"
  unfolding use_slot_def by (intro parser_intros)

lemma props_arms_strict: "parser_strict (props_arms W n ks ss)"
proof (induction ks arbitrary: ss)
  case (Cons k ks)
  then show ?case
    by (cases ss) (auto intro!: parser_intros property_parse_strict)
qed (simp add: parser_intros)

lemma props_round_strict: "parser_strict (props_round W ks ss)"
  unfolding props_round_def by (intro parser_intros parser_strict_ok [OF props_arms_strict])

lemma props_loop_ok: "parser_ok (p_inner (while_input (length bs) (props_round W ks) ss) bs)"
  using while_input_ok [of "props_round W ks" bs "length bs" ss, OF props_round_strict]
  by (auto intro!: parser_byI simp: p_inner_def split: presult.splits)

lemma props_parse_strict [parser_intros]: "parser_strict (props_parse W ks)"
  unfolding props_parse_def by (intro parser_intros props_loop_ok)

subsection \<open>One field at a time\<close>

lemma props_arms_at:
  assumes "length sp = length kp" and "k \<notin> set kp"
  shows "props_arms W (IDENTIFIER k) (kp @ k # kq) (sp @ s # sq) =
    p_bind (property_parse W k) (\<lambda>sl. p_map (\<lambda>s'. sp @ s' # sq) (use_slot s sl))"
  using assms
proof (induction kp sp rule: list_induct2')
  case (4 k' kp s' sp)
  then have "IDENTIFIER k' \<noteq> IDENTIFIER k" using IDENTIFIER_inj [of k' k] by auto
  with 4 show ?case by (auto simp: p_defs fun_eq_iff split: presult.splits)
qed simp_all

text \<open>An identifier no field has, and a second value for a field that does not repeat.\<close>

lemma props_arms_unknown:
  "\<forall>k\<in>set ks. IDENTIFIER k \<noteq> n \<Longrightarrow> props_arms W n ks ss i = PErr Backtrack"
proof (induction ks arbitrary: ss)
  case (Cons k ks)
  then show ?case by (cases ss) (auto simp: p_defs)
qed (simp add: p_defs)

lemma props_round_at:
  assumes "length sp = length kp" and "k \<notin> set kp" and "property_parse W k i = POk p r"
  shows "props_round W (kp @ k # kq) (sp @ s # sq) (enc_var (IDENTIFIER k) @ i) =
    p_map (\<lambda>s'. sp @ s' # sq) (use_slot s p) r"
  using assms(3)
  by (simp add: props_round_def p_bind_def var_u32.parse_enc IDENTIFIER_le props_arms_at [OF assms(1,2)])

lemma loop_at:
  assumes "length sp = length kp" and "k \<notin> set kp" and "property_parse W k i = POk p r"
    and "use_slot s p r = POk s' r"
  shows "while_input (length (enc_var (IDENTIFIER k) @ i)) (props_round W (kp @ k # kq))
      (sp @ s # sq) (enc_var (IDENTIFIER k) @ i) =
    while_input (length r) (props_round W (kp @ k # kq)) (sp @ s' # sq) r"
  by (rule while_input_step [OF props_round_strict])
    (simp_all add: props_round_at [OF assms(1-3)] p_map_def assms(4))

text \<open>User properties after the first one are checked and dropped.\<close>

lemma loop_more:
  assumes "length sp = length kp" and "UserProperties_K \<notin> set kp" and "slot s \<noteq> None" and "allow_repeat s"
    and "\<forall>up\<in>set us. up_ok up"
  shows "while_input (length (enc_more us @ r)) (props_round W (kp @ UserProperties_K # kq))
      (sp @ s # sq) (enc_more us @ r) =
    while_input (length r) (props_round W (kp @ UserProperties_K # kq)) (sp @ s # sq) r"
  using assms(5)
proof (induction us)
  case (Cons up us)
  have e: "enc_more (up # us) @ r = enc_var (IDENTIFIER UserProperties_K) @ enc_up up @ enc_more us @ r"
    by (simp add: enc_more_def enc_var_user)
  have "property_parse W UserProperties_K (enc_up up @ enc_more us @ r) =
      POk (UserProperties (enc_up up @ enc_more us @ r)) (enc_more us @ r)"
    using Cons.prems by (simp add: p_map_def UserProperties_parse_enc)
  from loop_at [OF assms(1,2) this, of s s kq sq] Cons assms(3,4) show ?case
    unfolding e by (simp add: use_slot_def p_return_def)
qed (simp add: enc_more_def)

lemma loop_user:
  assumes "length sp = length kp" and "UserProperties_K \<notin> set kp" and "user_iter W x = Some ups"
  shows "while_input (length (enc_field W (UserProperties x) @ r))
      (props_round W (kp @ UserProperties_K # kq)) (sp @ slot_new (ALLOW_REPEATING UserProperties_K) # sq)
      (enc_field W (UserProperties x) @ r) =
    while_input (length r) (props_round W (kp @ UserProperties_K # kq))
      (sp @ \<lparr>allow_repeat = True, slot = Some (UserProperties (enc_ups ups @ r))\<rparr> # sq) r"
proof -
  obtain up us where ups: "ups = up # us" and ok: "up_ok up" "\<forall>up\<in>set us. up_ok up"
    using user_iter_ok [OF assms(3)] by (cases ups) auto
  have e: "enc_field W (UserProperties x) @ r =
      enc_var (IDENTIFIER UserProperties_K) @ enc_up up @ enc_more us @ r"
    by (simp add: enc_field_def assms(3) ups enc_ups_def)
  have "property_parse W UserProperties_K (enc_up up @ enc_more us @ r) =
      POk (UserProperties (enc_ups ups @ r)) (enc_more us @ r)"
    using ok by (simp add: p_map_def UserProperties_parse_enc ups enc_ups_def)
  moreover define s where "s = \<lparr>allow_repeat = True, slot = Some (UserProperties (enc_ups ups @ r))\<rparr>"
  moreover have "use_slot (slot_new (ALLOW_REPEATING UserProperties_K)) (UserProperties (enc_ups ups @ r)) i
      = POk s i" for i
    by (simp add: use_slot_def slot_new_def ALLOW_REPEATING_def p_return_def s_def)
  ultimately have "while_input (length (enc_field W (UserProperties x) @ r))
      (props_round W (kp @ UserProperties_K # kq)) (sp @ slot_new (ALLOW_REPEATING UserProperties_K) # sq)
      (enc_field W (UserProperties x) @ r) =
    while_input (length (enc_more us @ r)) (props_round W (kp @ UserProperties_K # kq)) (sp @ s # sq)
      (enc_more us @ r)"
    unfolding e by (intro loop_at [OF assms(1,2)])
  also have "\<dots> = while_input (length r) (props_round W (kp @ UserProperties_K # kq)) (sp @ s # sq) r"
    using ok(2) by (intro loop_more [OF assms(1,2)]) (simp_all add: s_def)
  finally show ?thesis by (simp add: s_def)
qed

lemma loop_field:
  assumes "length sp = length kp" and "property_kind_of p \<notin> set kp" and "prop_ok W p"
    and "property_kind_of p \<noteq> UserProperties_K"
  shows "while_input (length (enc_field W p @ r))
      (props_round W (kp @ property_kind_of p # kq))
      (sp @ slot_new (ALLOW_REPEATING (property_kind_of p)) # sq) (enc_field W p @ r) =
    while_input (length r) (props_round W (kp @ property_kind_of p # kq))
      (sp @ \<lparr>allow_repeat = ALLOW_REPEATING (property_kind_of p), slot = Some p\<rparr> # sq) r"
proof -
  have e: "enc_field W p @ r = enc_var (IDENTIFIER (property_kind_of p)) @ enc_prop W p @ r"
    by (simp add: enc_field_def)
  show ?thesis
    unfolding e
    by (rule loop_at [OF assms(1,2) property_parse_enc [OF assms(3,4)]])
      (simp add: use_slot_def slot_new_def p_return_def)
qed

text \<open>The whole section.\<close>

lemma loop_fields:
  assumes "list_all2 (field_ok W) kq fs" and "distinct (kp @ kq)" and "length sp = length kp"
  shows "while_input (length (enc_fields W fs)) (props_round W (kp @ kq)) (sp @ props_slots kq)
      (enc_fields W fs) = POk (sp @ slots_of kq (props_canon W fs)) []"
  using assms
proof (induction arbitrary: kp sp rule: list_all2_induct)
  case (Cons k kq f fs)
  note IH = Cons.IH [of "kp @ [k]"]
  show ?case
  proof (cases f)
    case None
    with IH [of "sp @ [slot_new (ALLOW_REPEATING k)]"] Cons.prems show ?thesis
      by (simp add: props_slots_def slots_of_def slot_new_def)
  next
    case (Some p)
    with Cons.hyps(1) have k: "k = property_kind_of p" and p: "prop_ok W p"
      by (simp_all add: field_ok_def)
    show ?thesis
    proof (cases "k = UserProperties_K")
      case True
      with k obtain x where x: "p = UserProperties x" by (cases p) simp_all
      with p obtain ups where ups: "user_iter W x = Some ups" by auto
      show ?thesis
        using loop_user [OF Cons.prems(2) _ ups, of "enc_fields W fs" kq "props_slots kq"]
          IH [of "sp @ [\<lparr>allow_repeat = True, slot = Some (UserProperties (enc_ups ups @ enc_fields W fs))\<rparr>]"]
          Cons.prems Some x True ups
        by (simp add: props_slots_def slots_of_def ALLOW_REPEATING_def)
    next
      case False
      then have "props_canon W (Some p # fs) = Some p # props_canon W fs"
        using k by (cases p) simp_all
      with False show ?thesis
        using loop_field [OF Cons.prems(2) _ p, of "enc_fields W fs" kq "props_slots kq"]
          IH [of "sp @ [\<lparr>allow_repeat = ALLOW_REPEATING k, slot = Some p\<rparr>]"]
          Cons.prems Some k
        by (simp add: props_slots_def slots_of_def)
    qed
  qed
qed (simp add: props_slots_def slots_of_def)

lemma slots_of_slot: "length ks = length fs \<Longrightarrow> map slot (slots_of ks fs) = fs"
  by (induction ks fs rule: list_induct2) (simp_all add: slots_of_def)

lemma length_props_canon [simp]: "length (props_canon W fs) = length fs"
  by (induction fs) simp_all

lemma unat_var_len: "n \<le> 268435455 \<Longrightarrow> unat (word_of_nat n :: u32) = n"
  by (simp add: unat_of_nat)

lemma var_len_le: "n \<le> 268435455 \<Longrightarrow> (word_of_nat n :: u32) \<le> VARIABLE_INTEGER_MAX"
  by (simp add: VARIABLE_INTEGER_MAX_def word_le_nat_alt unat_var_len)

lemma props_parse_enc:
  assumes "props_ok W ks fs"
  shows "props_parse W ks (enc_props W fs @ r) = POk (props_canon W fs) r"
proof -
  define n where "n = length (enc_fields W fs)"
  have n: "n \<le> 268435455" and f: "list_all2 (field_ok W) ks fs" and d: "distinct ks"
    using assms by (simp_all add: props_ok_def n_def)
  have "while_input n (props_round W ks) (props_slots ks) (enc_fields W fs) =
      POk (slots_of ks (props_canon W fs)) []"
    using loop_fields [OF f, of "[]" "[]"] d by (simp add: n_def)
  moreover have "map slot (slots_of ks (props_canon W fs)) = props_canon W fs"
    using f by (intro slots_of_slot) (simp add: list_all2_lengthD)
  moreover have "win_length_take W (p_map unat (parse_variable_u32 W False)) (enc_props W fs @ r) =
      POk (enc_fields W fs) r"
    using n by (simp add: enc_props_def length_take p_map_def var_u32.parse_enc var_len_le
        unat_var_len flip: n_def)
  ultimately show ?thesis
    by (simp add: props_parse_def p_bind_def p_map_def p_inner_def n_def)
qed

lemma field_size:
  assumes "prop_ok W p"
  shows "sizes (s_add (variable_u32_binary_size (IDENTIFIER (property_kind_of p))) (property_binary_size W p))
    (enc_field W p)"
  unfolding enc_field_def
  by (intro sizes_add var_u32.size_enc property_size_enc assms IDENTIFIER_le)

lemma fields_size:
  assumes "list_all2 (field_ok W) ks fs"
  shows "props_prop_size W fs = Some (word_of_nat (length (enc_fields W fs)))"
  unfolding sizes_def [symmetric] using assms
proof (induction rule: list_all2_induct)
  case (Cons k ks f fs)
  note IH = Cons.IH [unfolded props_prop_size_def]
  show ?case
  proof (cases f)
    case None
    with sizes_add [OF sizes_Nil IH] show ?thesis by (simp add: props_prop_size_def)
  next
    case (Some p)
    then have "prop_ok W p" using Cons.hyps by (simp add: field_ok_def)
    from sizes_add [OF field_size [OF this] IH] Some show ?thesis by (simp add: props_prop_size_def)
  qed
qed (simp add: props_prop_size_def sizes_Nil)

lemma fields_write:
  assumes "list_all2 (field_ok W) ks fs"
  shows "writes (w_seq (concat (map (\<lambda>f. case f of
      None \<Rightarrow> []
    | Some p \<Rightarrow> [write_variable_u32 (IDENTIFIER (property_kind_of p)), property_write W p]) fs)))
    (enc_fields W fs)"
  using assms
proof (induction rule: list_all2_induct)
  case (Cons k ks f fs)
  show ?case
  proof (cases f)
    case (Some p)
    then have "prop_ok W p" using Cons.hyps by (simp add: field_ok_def)
    from writes_Cons [OF var_u32.write_enc [OF IDENTIFIER_le] writes_Cons [OF property_write_enc [OF this] Cons.IH]]
    show ?thesis using Some by (simp add: enc_field_def del: w_seq.simps)
  qed (use Cons.IH in \<open>simp del: w_seq.simps\<close>)
qed (simp add: writes_Nil del: w_seq.simps)

lemma props_write_enc: "props_ok W ks fs \<Longrightarrow> writes (props_write W fs) (enc_props W fs)"
  unfolding props_ok_def
  using writes_Cons [OF var_u32.write_enc [OF var_len_le] fields_write]
  by (auto simp: props_write_def fields_size enc_props_def simp del: w_seq.simps)

lemma props_size_enc: "props_ok W ks fs \<Longrightarrow> sizes (props_binary_size W fs) (enc_props W fs)"
  unfolding props_ok_def
  by (auto simp: props_binary_size_def fields_size enc_props_def sizes_def [of "Some _"]
      intro!: sizes_add var_u32.size_enc var_len_le)

text \<open>What is parsed back is equal to what was written, in the sense of \<open>PartialEq\<close>.\<close>

lemma present_ok:
  "list_all2 (field_ok W) ks fs \<Longrightarrow> p \<in> set (present fs) \<Longrightarrow> prop_ok W p \<and> property_kind_of p \<in> set ks"
  by (induction rule: list_all2_induct) (auto simp: present_def field_ok_def split: option.splits)

lemma property_eq_refl: "prop_ok W p \<Longrightarrow> property_eq W p p = Some True"
  by (cases p) (auto simp: property_eq_def UserProperties_eq_def)

lemma props_eq_canon:
  assumes "list_all2 (field_ok W) ks fs" and "distinct ks"
  shows "props_eq W fs (props_canon W fs) = Some True"
  using assms
proof (induction rule: list_all2_induct)
  case (Cons k ks f fs)
  show ?case
  proof (cases "f")
    case (Some p)
    then have p: "prop_ok W p" "property_kind_of p = k" using Cons.hyps by (simp_all add: field_ok_def)
    show ?thesis
    proof (cases "k = UserProperties_K")
      case True
      with p obtain x where x: "p = UserProperties x" by (cases p) auto
      with p obtain ups where ups: "user_iter W x = Some ups" by auto
      have "\<forall>q\<in>set (present fs). prop_ok W q \<and> property_kind_of q \<noteq> UserProperties_K"
        using present_ok [OF Cons.hyps(2)] Cons.prems True by fastforce
      with user_iter_ok [OF ups] have "user_iter W (enc_ups ups @ enc_fields W fs) = Some ups"
        unfolding enc_fields_def by (intro user_iter_enc) auto
      with Some x ups Cons show ?thesis by (simp add: property_eq_def UserProperties_eq_def)
    next
      case False
      then have "(case p of UserProperties x \<Rightarrow> y x | _ \<Rightarrow> Some p) = Some p" for y
        using p by (cases p) simp_all
      with Some p Cons show ?thesis by (simp add: property_eq_refl)
    qed
  qed (use Cons in simp)
qed simp

subsection \<open>What the parser accepts can be written\<close>

text \<open>The ways one round of the loop can succeed.\<close>

lemma props_arms_POk:
  assumes "props_arms W n ks ss i = POk ss' r" and "length ks = length ss"
  obtains kp k kq sp s sq p s' where "ks = kp @ k # kq" "ss = sp @ s # sq" "ss' = sp @ s' # sq"
    "length kp = length sp" "n = IDENTIFIER k" "property_parse W k i = POk p r"
    "use_slot s p r = POk s' r"
  using assms
proof (induction ks ss arbitrary: ss' thesis rule: list_induct2')
  case (4 k ks s ss)
  show ?case
  proof (cases "IDENTIFIER k = n")
    case True
    with 4(3) obtain p s' r' where "property_parse W k i = POk p r'" "use_slot s p r' = POk s' r"
      "ss' = s' # ss"
      by (auto simp: p_defs split: presult.splits)
    moreover from this(2) have "r = r'" by (auto simp: use_slot_def p_defs split: if_splits)
    ultimately show ?thesis using True by (intro 4(2) [of "[]" k ks "[]" s ss s' p]) simp_all
  next
    case False
    with 4(3) obtain ss1 where "props_arms W n ks ss i = POk ss1 r" "ss' = s # ss1"
      by (auto simp: p_defs split: presult.splits)
    show ?thesis
    proof (rule 4(1))
      fix kp k' kq sp s1 sq p s'
      assume "ks = kp @ k' # kq" "ss = sp @ s1 # sq" "ss1 = sp @ s' # sq" "length kp = length sp"
        "n = IDENTIFIER k'" "property_parse W k' i = POk p r" "use_slot s1 p r = POk s' r"
      with \<open>ss' = s # ss1\<close> show ?thesis
        by (intro 4(2) [of "k # kp" k' kq "s # sp" s1 sq s' p]) simp_all
    qed (use 4(4) \<open>props_arms W n ks ss i = POk ss1 r\<close> in simp_all)
  qed
qed (simp_all add: p_defs)

lemma props_round_POk:
  assumes "props_round W ks ss i = POk ss' r" and "length ks = length ss"
  obtains kp k kq sp s sq p s' i' where "ks = kp @ k # kq" "ss = sp @ s # sq" "ss' = sp @ s' # sq"
    "length kp = length sp" "property_parse W k i' = POk p r" "use_slot s p r = POk s' r"
    "length i' < length i" "Property_parse W i = POk p r"
proof -
  obtain n i' where n: "parse_variable_u32 W False i = POk n i'" "props_arms W n ks ss i' = POk ss' r"
    using assms(1) by (auto simp: props_round_def p_bind_def split: presult.splits)
  from n(2) assms(2) show ?thesis
  proof (rule props_arms_POk)
    fix kp k kq sp s sq p s'
    assume *: "ks = kp @ k # kq" "ss = sp @ s # sq" "ss' = sp @ s' # sq" "length kp = length sp"
      "n = IDENTIFIER k" "property_parse W k i' = POk p r" "use_slot s p r = POk s' r"
    have "Property_parse W i = POk p r"
      using n(1) *(5,6) by (simp add: Property_parse_def p_bind_def find_kind)
    moreover have "length i' < length i" using parse_var_bound [OF n(1)] by simp
    ultimately show thesis using that * by blast
  qed
qed

lemma loop_unfold:
  assumes "while_input (length i) (props_round W ks) ss i = POk ss' r'" and "i \<noteq> []"
  obtains ss1 r where "props_round W ks ss i = POk ss1 r"
    "while_input (length r) (props_round W ks) ss1 r = POk ss' r'" "length r < length i"
proof -
  obtain b bs where i: "i = b # bs" using assms(2) by (cases i) auto
  with assms(1) obtain ss1 r where r: "props_round W ks ss i = POk ss1 r"
    by (auto split: presult.splits)
  moreover have "while_input (length r) (props_round W ks) ss1 r = POk ss' r'"
    using while_input_step [of "props_round W ks", OF props_round_strict r assms(2)] assms(1) by simp
  moreover have "length r < length i" by (rule parser_strict_length [OF props_round_strict r])
  ultimately show ?thesis using that by blast
qed

lemma loop_prop_seq:
  "while_input (length i) (props_round W ks) ss i = POk ss' r' \<Longrightarrow> length ks = length ss \<Longrightarrow> prop_seq W i"
proof (induction "length i" arbitrary: i ss rule: less_induct)
  case less
  show ?case
  proof (cases "i = []")
    case False
    obtain ss1 r where 1: "props_round W ks ss i = POk ss1 r"
      "while_input (length r) (props_round W ks) ss1 r = POk ss' r'" "length r < length i"
      by (rule loop_unfold [OF less.prems(1) False])
    from 1(1) less.prems(2) obtain p where "Property_parse W i = POk p r" "length ks = length ss1"
      by (rule props_round_POk) (use less.prems(2) in auto)
    with less.hyps [OF 1(3,2)] False show ?thesis by (auto intro: prop_seq.Cons)
  qed (simp add: prop_seq.Nil)
qed

lemma enc_fields_append: "enc_fields W (fs @ gs) = enc_fields W fs @ enc_fields W gs"
  by (simp add: enc_fields_def present_def)

lemma not_user_filled:
  assumes "list_all2 (slot_inv W) kp sp" and "UserProperties_K \<notin> set kp"
  shows "\<not> user_filled sp"
  using assms
  by (induction rule: list_all2_induct)
    (auto simp: user_filled_def slot_inv_def field_ok_def split: option.splits)

lemma length_enc_field: "length (enc_field W p) = Suc (length (enc_prop W p))"
  by (simp add: enc_field_def enc_var_IDENTIFIER)

text \<open>A user property is read, for the first time or again.\<close>

lemma user_slice:
  assumes "Property_parse W i = POk (UserProperties sl) r" and "prop_seq W r" and "i \<noteq> []"
  obtains up us where "UserProperty_parse W sl = POk up r" "user_rest W (length r) r = Some us"
    "user_iter W sl = Some (up # us)" "user_rest W (length i) i = Some (up # us)"
proof -
  obtain up where up: "UserProperty_parse W sl = POk up r"
    using Property_parse_slice [OF assms(1)] by blast
  obtain us where us: "user_rest W (length r) r = Some us"
    using user_rest_total [OF assms(2)] by blast
  show ?thesis
    using that [OF up us] user_rest_step [OF assms(1,3)] up us by (simp add: user_iter_def)
qed

text \<open>A round that fills a slot of its own, and one that meets a user property.\<close>

lemma round_other:
  assumes * : "ks = kp @ k # kq" "ss = sp @ s # sq" "ss' = sp @ s' # sq" "length kp = length sp"
    and p: "property_parse W k i' = POk p r" and use: "use_slot s p r = POk s' r"
    and len: "length i' < length i" and pi: "Property_parse W i = POk p r" and ne: "i \<noteq> []"
    and inv: "list_all2 (slot_inv W) kp sp" "slot_inv W k s" "list_all2 (slot_inv W) kq sq"
    and k: "k \<noteq> UserProperties_K"
  shows "list_all2 (slot_inv W) ks ss' \<and>
    weight W ss' + length r + pending W ss i \<le> weight W ss + length i + pending W ss' r"
proof -
  have kind: "property_kind_of p = k" by (rule property_parse_kind [OF p])
  have ok: "prop_ok W p" "length (enc_prop W p) + length r \<le> length i'"
    using property_parse_sound [OF p] k by auto
  have s: "slot s = None" "s' = s\<lparr>slot := Some p\<rparr>"
    using use inv(2) k by (auto simp: use_slot_def slot_inv_def ALLOW_REPEATING_def p_defs split: if_splits)
  then have "slot_inv W k s'" using inv(2) kind ok by (simp add: slot_inv_def field_ok_def)
  moreover have "user_rest W (length i) i = user_rest W (length r) r"
    using user_rest_step [OF pi ne] kind k by (cases p) simp_all
  then have "pending W ss i = pending W ss' r"
    using kind k s by (simp add: pending_def user_filled_def *)
  ultimately show ?thesis
    using inv ok(2) len s by (simp add: * list_all2_append weight_def enc_fields_append length_enc_field)
qed

lemma round_user:
  assumes * : "ks = kp @ UserProperties_K # kq" "ss = sp @ s # sq" "ss' = sp @ s' # sq" "length kp = length sp"
    and p: "property_parse W UserProperties_K i' = POk p r" and use: "use_slot s p r = POk s' r"
    and len: "length i' < length i" and pi: "Property_parse W i = POk p r" and ne: "i \<noteq> []"
    and inv: "list_all2 (slot_inv W) kp sp" "slot_inv W UserProperties_K s" "list_all2 (slot_inv W) kq sq"
    and dist: "distinct ks" and rest: "prop_seq W r"
  shows "list_all2 (slot_inv W) ks ss' \<and>
    weight W ss' + length r + pending W ss i \<le> weight W ss + length i + pending W ss' r"
proof -
  have kind: "property_kind_of p = UserProperties_K" by (rule property_parse_kind [OF p])
  then obtain sl where sl: "p = UserProperties sl" by (cases p) simp_all
  with pi rest ne obtain up us where u: "UserProperty_parse W sl = POk up r"
    "user_rest W (length r) r = Some us" "user_iter W sl = Some (up # us)"
    "user_rest W (length i) i = Some (up # us)" by (auto elim: user_slice)
  have "sl = i'" using p sl
    by (auto simp: p_map_def UserProperties_parse_def split: presult.splits)
  then have e: "length (enc_up up) + length r \<le> length i'"
    using UserProperty_parse_sound [OF u(1)] by simp
  show ?thesis
  proof (cases "slot s")
    case None
    then have s': "s' = s\<lparr>slot := Some p\<rparr>" using use by (simp add: use_slot_def p_return_def)
    then have "slot_inv W UserProperties_K s'" using inv(2) kind u sl by (simp add: slot_inv_def field_ok_def)
    moreover have "\<not> user_filled sp" "\<not> user_filled sq"
      using not_user_filled [OF inv(1)] not_user_filled [OF inv(3)] dist * by auto
    then have "\<not> user_filled ss" using None by (auto simp: user_filled_def *)
    then have "pending W ss i = 0" by (simp add: pending_def)
    moreover have "pending W ss' r = length (enc_more us)"
      using s' kind u by (auto simp: pending_def user_filled_def *)
    ultimately show ?thesis using inv e len None s' sl u
      by (simp add: * list_all2_append weight_def enc_fields_append length_enc_field enc_ups_def)
  next
    case (Some q)
    then have s': "s' = s" using use by (auto simp: use_slot_def p_defs split: if_splits)
    have "user_filled ss" using inv(2) Some by (auto simp: user_filled_def slot_inv_def field_ok_def *)
    then have "pending W ss i = Suc (length (enc_up up)) + length (enc_more us)"
      "pending W ss' r = length (enc_more us)"
      using u s' by (simp_all add: pending_def * enc_more_def)
    then show ?thesis using inv e len s' by (simp add: * list_all2_append)
  qed
qed

lemma props_round_inv:
  assumes "props_round W ks ss i = POk ss' r" and "distinct ks" and "list_all2 (slot_inv W) ks ss"
    and "prop_seq W r"
  shows "list_all2 (slot_inv W) ks ss' \<and>
    weight W ss' + length r + pending W ss i \<le> weight W ss + length i + pending W ss' r"
  using assms(1) list_all2_lengthD [OF assms(3)]
proof (rule props_round_POk)
  fix kp k kq sp s sq p s' i'
  assume * : "ks = kp @ k # kq" "ss = sp @ s # sq" "ss' = sp @ s' # sq" "length kp = length sp"
    and p: "property_parse W k i' = POk p r" "use_slot s p r = POk s' r"
      "length i' < length i" "Property_parse W i = POk p r"
  then have ne: "i \<noteq> []" by auto
  have inv: "list_all2 (slot_inv W) kp sp" "slot_inv W k s" "list_all2 (slot_inv W) kq sq"
    using assms(3) * by (simp_all add: list_all2_append)
  show ?thesis
  proof (cases "k = UserProperties_K")
    case False
    show ?thesis by (rule round_other [OF * p ne inv False])
  next
    case True
    show ?thesis by (rule round_user [OF * [unfolded True] p [unfolded True] ne inv [unfolded True] assms(2,4)])
  qed
qed

lemma loop_inv:
  "while_input (length i) (props_round W ks) ss i = POk ss' [] \<Longrightarrow> distinct ks \<Longrightarrow>
    list_all2 (slot_inv W) ks ss \<Longrightarrow>
    list_all2 (slot_inv W) ks ss' \<and> weight W ss' + pending W ss i \<le> weight W ss + length i"
proof (induction "length i" arbitrary: i ss rule: less_induct)
  case less
  show ?case
  proof (cases "i = []")
    case False
    obtain ss1 r where 1: "props_round W ks ss i = POk ss1 r"
      "while_input (length r) (props_round W ks) ss1 r = POk ss' []" "length r < length i"
      by (rule loop_unfold [OF less.prems(1) False])
    have "length ks = length ss1"
      using 1(1) list_all2_lengthD [OF less.prems(3)]
      by (rule props_round_POk) (use list_all2_lengthD [OF less.prems(3)] in auto)
    then have "prop_seq W r" by (rule loop_prop_seq [OF 1(2)])
    from props_round_inv [OF 1(1) less.prems(2,3) this] less.hyps [OF 1(3,2) less.prems(2)]
    show ?thesis by auto
  qed (use less.prems in \<open>simp add: pending_def enc_more_def\<close>)
qed

lemma enc_var_mono:
  assumes "m \<le> n" and "n \<le> 268435455"
  shows "length (enc_var (word_of_nat m)) \<le> length (enc_var (word_of_nat n))"
proof -
  have "n < 128 ^ length (var_bytes n)"
    using var_nat_less [of "var_bytes n"] by (simp add: var_nat_var_bytes)
  then have "length (var_bytes m) \<le> length (var_bytes n)"
    using assms(1) by (intro var_bytes_length_pow) simp_all
  then show ?thesis using assms by (simp add: enc_var_def unat_var_len)
qed

lemma list_all2_slots: "list_all2 (slot_inv W) ks ss \<Longrightarrow> list_all2 (field_ok W) ks (map slot ss)"
  by (auto simp: list_all2_conv_all_nth slot_inv_def)

lemma props_slots_inv: "list_all2 (slot_inv W) ks (props_slots ks)"
  by (simp add: props_slots_def list.rel_map list_all2_same slot_inv_def slot_new_def field_ok_def)

lemma props_slots_empty: "weight W (props_slots ks) = 0" "pending W (props_slots ks) i = 0"
proof -
  show "weight W (props_slots ks) = 0"
    by (induction ks) (simp_all add: weight_def props_slots_def slot_new_def)
  show "pending W (props_slots ks) i = 0"
    by (simp add: pending_def user_filled_def props_slots_def slot_new_def)
qed

lemma props_parse_sound:
  assumes "props_parse W ks i = POk fs r" and "distinct ks"
  shows "props_ok W ks fs \<and> length (enc_props W fs) + length r \<le> length i"
proof -
  obtain n i1 ss i2 where n: "parse_variable_u32 W False i = POk n i1"
    and le: "unat n \<le> length i1" and r: "r = drop (unat n) i1"
    and ss: "while_input (unat n) (props_round W ks) (props_slots ks) (take (unat n) i1) = POk ss i2"
    and fs: "fs = map slot ss"
    using assms(1)
    by (auto simp: props_parse_def p_bind_def p_map_def p_inner_def length_take min_def
        split: presult.splits if_splits)
  define bs where "bs = take (unat n) i1"
  have len: "length bs = unat n" using le by (simp add: bs_def)
  have ss': "while_input (length bs) (props_round W ks) (props_slots ks) bs = POk ss i2"
    using ss len by (simp add: bs_def [symmetric])
  moreover have "i2 = []"
    using while_input_ok [of "props_round W ks" bs "length bs" "props_slots ks", OF props_round_strict] ss'
    by auto
  ultimately have inv: "list_all2 (slot_inv W) ks ss" "weight W ss \<le> unat n"
    using loop_inv [of bs ks "props_slots ks" ss] assms(2) props_slots_inv [of ks]
    by (auto simp: props_slots_empty len)
  have nb: "unat n \<le> 268435455" "length (enc_var n) + length i1 \<le> length i"
    using parse_var_sound [OF n] by (auto simp: VARIABLE_INTEGER_MAX_def word_le_nat_alt)
  have "length (enc_var (word_of_nat (weight W ss))) \<le> length (enc_var n)"
    using enc_var_mono [OF inv(2) nb(1)] by simp
  then have "length (enc_props W fs) + length r \<le> length i"
    using inv(2) nb(2) le by (simp add: enc_props_def fs weight_def [symmetric] r)
  then show ?thesis
    using inv nb(1) assms(2) list_all2_slots [OF inv(1)] by (simp add: props_ok_def fs weight_def)
qed

lemma props_new_ok [simp]: "props_ok W ks (props_new ks) \<longleftrightarrow> distinct ks"
proof -
  have "enc_fields W (props_new ks) = []" by (induction ks) (simp_all add: props_new_def)
  then show ?thesis
    by (simp add: props_ok_def props_new_def list.rel_map list_all2_same field_ok_def)
qed

lemma enc_props_new [simp]: "enc_props W (props_new ks) = [0]"
proof -
  have "enc_fields W (props_new ks) = []" by (induction ks) (simp_all add: props_new_def)
  then show ?thesis by (simp add: enc_props_def enc_var_def var_bytes_less)
qed

lemma props_eq_ok: "props_ok W ks fs \<Longrightarrow> props_eq W fs (props_canon W fs) = Some True"
  by (auto simp: props_ok_def intro: props_eq_canon)

end

sublocale winnow_spec \<subseteq> props:
  codec "props_parse W ks" "props_write W" "props_binary_size W" "enc_props W" "props_ok W ks"
    "props_canon W" for ks
  by unfold_locales (simp_all add: props_parse_enc props_write_enc props_size_enc)

end
