(* ===== verification/Property_Sections.thy ===== *)
theory Property_Sections
  imports Properties
begin

text \<open>
  What the macro-generated parsers of \<open>v5/properties.rs\<close> compute, said without slots and loops:
  a section of properties is a sequence of properties of the declared kinds, in which only user
  properties repeat, and a field holds the first property of its kind.
\<close>

section \<open>Specification\<close>

definition section_ok :: "decl \<Rightarrow> property list \<Rightarrow> bool" where
  "section_ok ks ps \<longleftrightarrow>
     (\<forall>p\<in>set ps. property_kind_of p \<in> set ks) \<and>
     distinct (filter (\<lambda>k. \<not> ALLOW_REPEATING k) (map property_kind_of ps))"

definition first_of :: "property list \<Rightarrow> property_kind \<Rightarrow> property option" where
  "first_of ps k = find (\<lambda>p. property_kind_of p = k) ps"

definition first_values :: "decl \<Rightarrow> property list \<Rightarrow> props" where
  "first_values ks ps = map (first_of ps) ks"

text \<open>The slots after these properties.\<close>

definition slots_after :: "decl \<Rightarrow> property list \<Rightarrow> MqttPropertySlot list" where
  "slots_after ks ps = map (\<lambda>k. \<lparr>allow_repeat = ALLOW_REPEATING k, slot = first_of ps k\<rparr>) ks"

text \<open>The user properties of a section, in their order.\<close>

definition up_of :: "winnow \<Rightarrow> property \<Rightarrow> UserProperty option" where
  "up_of W p =
     (case p of
        UserProperties sl \<Rightarrow> (case UserProperty_parse W sl of POk up r \<Rightarrow> Some up | PErr e \<Rightarrow> None)
      | _ \<Rightarrow> None)"

section \<open>Lemmas\<close>

lemma first_of_simps [simp]:
  "first_of [] k = None"
  "first_of (p # ps) k = (if property_kind_of p = k then Some p else first_of ps k)"
  by (simp_all add: first_of_def)

lemma first_of_append: "first_of (ps @ qs) k = (case first_of ps k of None \<Rightarrow> first_of qs k | Some p \<Rightarrow> Some p)"
  by (induction ps) simp_all

lemma first_of_None: "first_of ps k = None \<longleftrightarrow> k \<notin> property_kind_of ` set ps"
  by (induction ps) auto

lemma first_of_kind: "first_of ps k = Some p \<Longrightarrow> property_kind_of p = k"
  by (induction ps) (auto split: if_splits)

lemma length_slots_after [simp]: "length (slots_after ks ps) = length ks"
  by (simp add: slots_after_def)

lemma slot_slots_after: "map slot (slots_after ks ps) = first_values ks ps"
  by (simp add: slots_after_def first_values_def)

lemma slots_after_Nil: "slots_after ks [] = props_slots ks"
  by (simp add: slots_after_def props_slots_def slot_new_def)

lemma slots_after_Cons:
  "slots_after (k # ks) ps = \<lparr>allow_repeat = ALLOW_REPEATING k, slot = first_of ps k\<rparr> # slots_after ks ps"
  by (simp add: slots_after_def)

lemma slots_after_append: "slots_after (kp @ kq) ps = slots_after kp ps @ slots_after kq ps"
  by (simp add: slots_after_def)

lemma slots_after_other: "property_kind_of p \<notin> set ks \<Longrightarrow> slots_after ks (ps @ [p]) = slots_after ks ps"
  by (auto simp: slots_after_def first_of_append split: option.splits)

text \<open>Using a slot is taking in one more property.\<close>

lemma use_slot_after:
  "use_slot \<lparr>allow_repeat = ALLOW_REPEATING (property_kind_of p), slot = first_of ps (property_kind_of p)\<rparr> p i =
    (if property_kind_of p \<in> property_kind_of ` set ps \<and> \<not> ALLOW_REPEATING (property_kind_of p)
     then PErr Backtrack
     else POk \<lparr>allow_repeat = ALLOW_REPEATING (property_kind_of p),
       slot = first_of (ps @ [p]) (property_kind_of p)\<rparr> i)"
  using first_of_None [of ps "property_kind_of p"]
  by (auto simp: use_slot_def p_defs first_of_append split: option.splits)

lemma section_ok_snoc:
  "section_ok ks (ps @ [p]) \<longleftrightarrow> section_ok ks ps \<and> property_kind_of p \<in> set ks \<and>
    (property_kind_of p \<notin> property_kind_of ` set ps \<or> ALLOW_REPEATING (property_kind_of p))"
  by (auto simp: section_ok_def)

lemma section_ok_append: "section_ok ks (ps @ qs) \<Longrightarrow> section_ok ks ps"
  by (auto simp: section_ok_def)

lemma pieces_Nil_iff [simp]: "pieces f xs [] \<longleftrightarrow> xs = []"
  by (subst pieces.simps) simp

context winnow_spec
begin

lemma props_round_slots:
  assumes "distinct ks" and "Property_parse W i = POk p r"
  shows "props_round W ks (slots_after ks ps) i =
    (if property_kind_of p \<in> set ks \<and>
        (property_kind_of p \<notin> property_kind_of ` set ps \<or> ALLOW_REPEATING (property_kind_of p))
     then POk (slots_after ks (ps @ [p])) r else PErr Backtrack)"
proof -
  obtain n k i' where n: "parse_variable_u32 W False i = POk n i'"
    "find (\<lambda>k. IDENTIFIER k = n) all_kinds = Some k" "property_parse W k i' = POk p r"
    using assms(2) by (auto simp: Property_parse_def p_bind_def p_fail_def split: presult.splits option.splits)
  then have id: "n = IDENTIFIER k" and kind: "property_kind_of p = k"
    using find_kind_Some [OF n(2)] property_parse_kind [OF n(3)] by simp_all
  show ?thesis
  proof (cases "k \<in> set ks")
    case True
    then obtain kp kq where ks: "ks = kp @ k # kq" by (auto dest: split_list)
    with assms(1) have new: "k \<notin> set kp" "k \<notin> set kq" by auto
    show ?thesis
      using n(1,3) new kind
      by (simp add: props_round_def p_bind_def id ks slots_after_append slots_after_Cons slots_after_other
          props_arms_at use_slot_after [of p ps, unfolded kind] p_map_def)
  next
    case False
    then have "\<forall>k'\<in>set ks. IDENTIFIER k' \<noteq> n" using IDENTIFIER_inj id by blast
    with False kind n(1) show ?thesis by (simp add: props_round_def p_bind_def props_arms_unknown)
  qed
qed

lemma props_round_slots_iff:
  assumes "distinct ks"
  shows "props_round W ks (slots_after ks ps) i = POk ss r \<longleftrightarrow>
    (\<exists>p. Property_parse W i = POk p r \<and> property_kind_of p \<in> set ks \<and>
       (property_kind_of p \<notin> property_kind_of ` set ps \<or> ALLOW_REPEATING (property_kind_of p)) \<and>
       ss = slots_after ks (ps @ [p]))"
proof
  assume round: "props_round W ks (slots_after ks ps) i = POk ss r"
  then obtain p where "Property_parse W i = POk p r" by (rule props_round_POk) simp_all
  with round props_round_slots [OF assms this, of ps] show "\<exists>p. Property_parse W i = POk p r \<and> property_kind_of p \<in> set ks \<and>
       (property_kind_of p \<notin> property_kind_of ` set ps \<or> ALLOW_REPEATING (property_kind_of p)) \<and>
       ss = slots_after ks (ps @ [p])" by (auto split: if_splits)
qed (auto simp: props_round_slots [OF assms])

lemma loop_pieces:
  assumes "distinct ks" and "section_ok ks qs"
  shows "while_input (length i) (props_round W ks) (slots_after ks qs) i = POk ss r \<longleftrightarrow>
    (\<exists>ps. pieces (Property_parse W) ps i \<and> section_ok ks (qs @ ps) \<and> ss = slots_after ks (qs @ ps)) \<and> r = []"
  using assms(2)
proof (induction "length i" arbitrary: i qs rule: less_induct)
  case less
  show ?case
  proof (cases "i = []")
    case True
    with less.prems show ?thesis by auto
  next
    case False
    let ?next = "\<lambda>p r1. Property_parse W i = POk p r1 \<and> section_ok ks (qs @ [p])"
    have step: "while_input (length i) (props_round W ks) (slots_after ks qs) i = POk ss r \<longleftrightarrow>
      (\<exists>p r1. ?next p r1 \<and> while_input (length r1) (props_round W ks) (slots_after ks (qs @ [p])) r1 = POk ss r)"
      (is "?l \<longleftrightarrow> ?r")
    proof
      assume ?l
      then obtain ss1 r1 where "props_round W ks (slots_after ks qs) i = POk ss1 r1"
        "while_input (length r1) (props_round W ks) ss1 r1 = POk ss r" by (rule loop_unfold [OF _ False])
      with less.prems show ?r by (auto simp: props_round_slots_iff [OF assms(1)] section_ok_snoc)
    next
      assume ?r
      then obtain p r1 where p: "?next p r1"
        "while_input (length r1) (props_round W ks) (slots_after ks (qs @ [p])) r1 = POk ss r" by blast
      then have "props_round W ks (slots_after ks qs) i = POk (slots_after ks (qs @ [p])) r1"
        by (simp add: props_round_slots_iff [OF assms(1)] section_ok_snoc)
      from while_input_step [of "props_round W ks", OF props_round_strict this False] p show ?l by simp
    qed
    have IH: "while_input (length r1) (props_round W ks) (slots_after ks (qs @ [p])) r1 = POk ss r \<longleftrightarrow>
        (\<exists>ps. pieces (Property_parse W) ps r1 \<and> section_ok ks (qs @ p # ps) \<and> ss = slots_after ks (qs @ p # ps)) \<and> r = []"
      if "?next p r1" for p r1
      using less.hyps [of r1 "qs @ [p]"] that parser_strict_length [OF Property_parse_strict, of i p r1] by simp
    have "(\<exists>ps. pieces (Property_parse W) ps i \<and> section_ok ks (qs @ ps) \<and> ss = slots_after ks (qs @ ps)) \<longleftrightarrow>
      (\<exists>p r1 ps. Property_parse W i = POk p r1 \<and> pieces (Property_parse W) ps r1 \<and>
        section_ok ks (qs @ p # ps) \<and> ss = slots_after ks (qs @ p # ps))"
      using False by (auto elim!: pieces.cases [of _ _ i] intro: pieces.Cons)
    moreover have "section_ok ks (qs @ p # ps) \<Longrightarrow> section_ok ks (qs @ [p])" for p ps
      using section_ok_append [of ks "qs @ [p]" ps] by simp
    ultimately show ?thesis unfolding step using IH by blast
  qed
qed

lemma props_parse_pieces:
  assumes "distinct ks"
  shows "props_parse W ks i = POk fs r \<longleftrightarrow>
    (\<exists>n i1 ps. parse_variable_u32 W False i = POk n i1 \<and> unat n \<le> length i1 \<and>
       pieces (Property_parse W) ps (take (unat n) i1) \<and> section_ok ks ps \<and>
       fs = first_values ks ps \<and> r = drop (unat n) i1)"
proof -
  have loop: "while_input (unat n) (props_round W ks) (props_slots ks) (take (unat n) i1) = POk ss r' \<longleftrightarrow>
      (\<exists>ps. pieces (Property_parse W) ps (take (unat n) i1) \<and> section_ok ks ps \<and> ss = slots_after ks ps) \<and> r' = []"
    if "unat n \<le> length i1" for n :: u32 and i1 ss r'
    using loop_pieces [OF assms, of "[]" "take (unat n) i1" ss r'] that
    by (simp add: slots_after_Nil section_ok_def)
  have parse: "props_parse W ks i = POk fs r \<longleftrightarrow>
    (\<exists>n i1 ss r'. parse_variable_u32 W False i = POk n i1 \<and> unat n \<le> length i1 \<and>
       while_input (unat n) (props_round W ks) (props_slots ks) (take (unat n) i1) = POk ss r' \<and>
       fs = map slot ss \<and> r = drop (unat n) i1)"
    by (auto simp: props_parse_def p_bind_def p_map_def p_inner_def length_take split: presult.split)
  show ?thesis
    unfolding parse using loop by (fastforce simp: slot_slots_after)
qed

subsection \<open>User properties\<close>

lemma up_of_user: "UserProperty_parse W sl = POk up r \<Longrightarrow> up_of W (UserProperties sl) = Some up"
  by (simp add: up_of_def)

lemma up_of_other: "property_kind_of p \<noteq> UserProperties_K \<Longrightarrow> up_of W p = None"
  by (cases p) (simp_all add: up_of_def)

lemma user_kindE:
  assumes "property_kind_of p = UserProperties_K"
  obtains sl where "p = UserProperties sl"
  using assms by (cases p) simp_all

lemma user_rest_pieces:
  "pieces (Property_parse W) ps i \<Longrightarrow> user_rest W (length i) i = Some (List.map_filter (up_of W) ps)"
proof (induction rule: pieces.induct)
  case (Cons i p r ps)
  show ?case
  proof (cases "property_kind_of p = UserProperties_K")
    case True
    then obtain sl where p: "p = UserProperties sl" by (rule user_kindE)
    then obtain up where "UserProperty_parse W sl = POk up r"
      using Cons.hyps(1) Property_parse_slice by blast
    with p user_rest_step [OF Cons.hyps(1,2)] Cons.IH show ?thesis
      by (simp add: List.map_filter_simps up_of_user)
  next
    case False
    with user_rest_step [OF Cons.hyps(1,2)] Cons.IH up_of_other [OF False] show ?thesis
      by (cases p) (simp_all add: List.map_filter_simps)
  qed
qed (simp add: List.map_filter_simps)

lemma user_iter_pieces:
  "pieces (Property_parse W) ps i \<Longrightarrow> first_of ps UserProperties_K = Some (UserProperties sl) \<Longrightarrow>
    user_iter W sl = Some (List.map_filter (up_of W) ps)"
proof (induction rule: pieces.induct)
  case (Cons i p r ps)
  show ?case
  proof (cases "property_kind_of p = UserProperties_K")
    case True
    with Cons.prems have p: "p = UserProperties sl" by simp
    then obtain up where "UserProperty_parse W sl = POk up r"
      using Cons.hyps(1) Property_parse_slice by blast
    with p user_rest_pieces [OF Cons.hyps(3)] show ?thesis
      by (simp add: user_iter_def List.map_filter_simps up_of_user)
  next
    case False
    with Cons up_of_other [OF False] show ?thesis by (simp add: List.map_filter_simps)
  qed
qed simp

text \<open>Such a slice can be written, and is sized.\<close>

lemma user_slice_written:
  assumes "user_iter W sl = Some ups"
  shows "\<exists>bs. UserProperties_write W sl buf = (WOk, buf @ bs) \<and>
    UserProperties_binary_size W sl = Some (word_of_nat (length bs))"
  using property_write_enc [of "UserProperties sl"] property_size_enc [of "UserProperties sl"] assms
  by (auto simp: writes_def sizes_def)

end

lemma first_values_user:
  assumes "fs = first_values ks ps" and "Some (UserProperties sl) \<in> set fs"
  shows "first_of ps UserProperties_K = Some (UserProperties sl)"
proof -
  obtain k where k: "first_of ps k = Some (UserProperties sl)" using assms by (auto simp: first_values_def)
  then have "property_kind_of (UserProperties sl) = k"
    by (rule first_of_kind)
  with k show ?thesis by simp
qed

section \<open>Properties\<close>

text \<open>
  C17. The generated parser of a property struct accepts exactly this: a length, and in the bytes
  it announces a sequence of properties up to the end, each of a kind the struct declares, in
  which no kind but user properties comes twice. The fields are the first property of each kind.
  So an unknown property, one that does not belong to the packet, a repeated one, a malformed
  value and a section that is cut short are all refused, and nothing else is.
\<close>

theorem props_parse_exact:
  assumes "winnow_spec W" and "distinct ks"
  shows "props_parse W ks i = POk fs r \<longleftrightarrow>
    (\<exists>n i1 ps. parse_variable_u32 W False i = POk n i1 \<and> unat n \<le> length i1 \<and>
       pieces (Property_parse W) ps (take (unat n) i1) \<and> section_ok ks ps \<and>
       fs = first_values ks ps \<and> r = drop (unat n) i1)"
  by (rule winnow_spec.props_parse_pieces [OF assms])

lemma props_parse_exact_witness:
  "\<exists>n i1 ps. parse_variable_u32 winnow_ref False [5, 0x1F, 0, 2, 0x6F, 0x6B, 7] = POk n i1 \<and> unat n \<le> length i1 \<and>
     pieces (Property_parse winnow_ref) ps (take (unat n) i1) \<and>
     section_ok [ReasonString_K, UserProperties_K] ps \<and>
     [Some (ReasonString [0x6F, 0x6B]), None] = first_values [ReasonString_K, UserProperties_K] ps \<and>
     [7] = drop (unat n) i1"
proof -
  have "props_parse winnow_ref [ReasonString_K, UserProperties_K] [5, 0x1F, 0, 2, 0x6F, 0x6B, 7] =
    POk [Some (ReasonString [0x6F, 0x6B]), None] [7]" by code_simp
  then show ?thesis by (subst (asm) props_parse_exact [OF winnow_ref_spec]) simp_all
qed

text \<open>
  A struct that was parsed holds for its user properties the rest of the section from the
  first of them on. Iterating over it, which parses this slice again and would panic on bytes it
  cannot parse, gives all the user properties of the section, in their order and none else; and
  neither the size nor the writer of the property, which iterate too, panics.
\<close>

lemma user_properties_exact:
  assumes "winnow_spec W" and "distinct ks" and "props_parse W ks i = POk fs r"
    and "Some (UserProperties sl) \<in> set fs"
  shows "\<exists>n i1 ps bs. parse_variable_u32 W False i = POk n i1 \<and>
    pieces (Property_parse W) ps (take (unat n) i1) \<and>
    user_iter W sl = Some (List.map_filter (up_of W) ps) \<and> List.map_filter (up_of W) ps \<noteq> [] \<and>
    UserProperties_write W sl buf = (WOk, buf @ bs) \<and>
    UserProperties_binary_size W sl = Some (word_of_nat (length bs))"
proof -
  obtain n i1 ps where p: "parse_variable_u32 W False i = POk n i1"
    "pieces (Property_parse W) ps (take (unat n) i1)" "fs = first_values ks ps"
    using assms(3) winnow_spec.props_parse_pieces [OF assms(1,2)] by blast
  from p(3) assms(4) have "first_of ps UserProperties_K = Some (UserProperties sl)"
    by (rule first_values_user)
  with winnow_spec.user_iter_pieces [OF assms(1) p(2)]
  have iter: "user_iter W sl = Some (List.map_filter (up_of W) ps)" by simp
  from winnow_spec.user_slice_written [OF assms(1) iter, of buf] winnow_spec.user_iter_ok [OF assms(1) iter]
    iter p(1,2) show ?thesis by blast
qed

end
