(* ===== verification/Reason_Codes.thy ===== *)
theory Reason_Codes
  imports Properties
begin

text \<open>
  \<open>v5/reason_code.rs\<close>: the reason codes, and the enums that the macro
  \<open>make_combined_reason_code!\<close> generates for the packets. An enum is the list of its
  variants, an argument of the generated functions.
\<close>

section \<open>The codes\<close>

datatype reason_code =
    GrantedQoS0
  | NormalDisconnection
  | Success
  | GrantedQoS1
  | GrantedQoS2
  | DisconnectWithWillMessage
  | NoMatchingSubscribers
  | NoSubscriptionExisted
  | ContinueAuthentication
  | ReAuthenticate
  | UnspecifiedError
  | MalformedPacket
  | ProtocolError
  | ImplementationSpecificError
  | UnsupportedProtocolVersion
  | ClientIdentifierNotValid
  | BadUsernameOrPassword
  | NotAuthorized
  | ServerUnavailable
  | ServerBusy
  | Banned
  | ServerShuttingDown
  | BadAuthenticationMethod
  | KeepAliveTimeout
  | SessionTakenOver
  | TopicFilterInvalid
  | TopicNameInvalid
  | PacketIdentifierInUse
  | PacketIdentifierNotFound
  | ReceiveMaximumExceeded
  | TopicAliasInvalid
  | PacketTooLarge
  | MessageRateTooHigh
  | QuotaExceeded
  | AdministrativeAction
  | PayloadFormatInvalid
  | RetainNotSupported
  | QoSNotSupported
  | UseAnotherServer
  | ServerMoved
  | SharedSubscriptionsNotSupported
  | ConnectionRateExceeded
  | MaximumConnectTime
  | SubscriptionIdentifiersNotSupported
  | WildcardSubscriptionsNotSupported

fun CODE :: "reason_code \<Rightarrow> u8" where
  "CODE GrantedQoS0 = 0x00"
| "CODE NormalDisconnection = 0x00"
| "CODE Success = 0x00"
| "CODE GrantedQoS1 = 0x01"
| "CODE GrantedQoS2 = 0x02"
| "CODE DisconnectWithWillMessage = 0x04"
| "CODE NoMatchingSubscribers = 0x10"
| "CODE NoSubscriptionExisted = 0x11"
| "CODE ContinueAuthentication = 0x18"
| "CODE ReAuthenticate = 0x19"
| "CODE UnspecifiedError = 0x80"
| "CODE MalformedPacket = 0x81"
| "CODE ProtocolError = 0x82"
| "CODE ImplementationSpecificError = 0x83"
| "CODE UnsupportedProtocolVersion = 0x84"
| "CODE ClientIdentifierNotValid = 0x85"
| "CODE BadUsernameOrPassword = 0x86"
| "CODE NotAuthorized = 0x87"
| "CODE ServerUnavailable = 0x88"
| "CODE ServerBusy = 0x89"
| "CODE Banned = 0x8A"
| "CODE ServerShuttingDown = 0x8B"
| "CODE BadAuthenticationMethod = 0x8C"
| "CODE KeepAliveTimeout = 0x8D"
| "CODE SessionTakenOver = 0x8E"
| "CODE TopicFilterInvalid = 0x8F"
| "CODE TopicNameInvalid = 0x90"
| "CODE PacketIdentifierInUse = 0x91"
| "CODE PacketIdentifierNotFound = 0x92"
| "CODE ReceiveMaximumExceeded = 0x93"
| "CODE TopicAliasInvalid = 0x94"
| "CODE PacketTooLarge = 0x95"
| "CODE MessageRateTooHigh = 0x96"
| "CODE QuotaExceeded = 0x97"
| "CODE AdministrativeAction = 0x98"
| "CODE PayloadFormatInvalid = 0x99"
| "CODE RetainNotSupported = 0x9A"
| "CODE QoSNotSupported = 0x9B"
| "CODE UseAnotherServer = 0x9C"
| "CODE ServerMoved = 0x9D"
| "CODE SharedSubscriptionsNotSupported = 0x9E"
| "CODE ConnectionRateExceeded = 0x9F"
| "CODE MaximumConnectTime = 0xA0"
| "CODE SubscriptionIdentifiersNotSupported = 0xA1"
| "CODE WildcardSubscriptionsNotSupported = 0xA2"

section \<open>The generated functions\<close>

type_synonym reason_enum = "reason_code list"

text \<open>\<open>TryFromPrimitive\<close>: the variant with this discriminant.\<close>

definition reason_try_from :: "reason_enum \<Rightarrow> u8 \<Rightarrow> reason_code option" where
  "reason_try_from rs b = find (\<lambda>c. CODE c = b) rs"

definition is_valid_bit_pattern :: "reason_enum \<Rightarrow> u8 \<Rightarrow> bool" where
  "is_valid_bit_pattern rs b \<longleftrightarrow> list_ex (\<lambda>c. b = CODE c) rs"

definition reason_parse :: "winnow \<Rightarrow> reason_enum \<Rightarrow> reason_code parser" where
  "reason_parse W rs = p_try_map (reason_try_from rs) (win_u8 W False)"

definition reason_binary_size :: "reason_code \<Rightarrow> u32 option" where
  "reason_binary_size c = Some 1"

definition reason_write :: "reason_code \<Rightarrow> writer" where
  "reason_write c = write_byte (CODE c)"

lemmas reason_defs [defs] =
  reason_try_from_def is_valid_bit_pattern_def reason_parse_def reason_binary_size_def reason_write_def

section \<open>The enums of the packets\<close>

definition ConnackReasonCode :: reason_enum where
  "ConnackReasonCode = [
     Success, UnspecifiedError, MalformedPacket, ProtocolError,
     ImplementationSpecificError, ClientIdentifierNotValid, BadUsernameOrPassword,
     NotAuthorized, ServerUnavailable, ServerBusy, Banned, BadAuthenticationMethod,
     TopicNameInvalid, PacketTooLarge, QuotaExceeded, PayloadFormatInvalid,
     RetainNotSupported, QoSNotSupported, UseAnotherServer, ServerMoved,
     ConnectionRateExceeded]"

definition PubackReasonCode :: reason_enum where
  "PubackReasonCode = [
     ImplementationSpecificError, NoMatchingSubscribers, NotAuthorized,
     PacketIdentifierInUse, PayloadFormatInvalid, QuotaExceeded, Success, TopicNameInvalid,
     UnspecifiedError]"

definition PubrecReasonCode :: reason_enum where
  "PubrecReasonCode = [
     ImplementationSpecificError, NoMatchingSubscribers, NotAuthorized,
     PacketIdentifierInUse, PacketIdentifierNotFound, PayloadFormatInvalid, QuotaExceeded,
     Success, TopicNameInvalid, UnspecifiedError]"

definition PubrelReasonCode :: reason_enum where
  "PubrelReasonCode = [
     Success, PacketIdentifierNotFound]"

definition PubcompReasonCode :: reason_enum where
  "PubcompReasonCode = [
     PacketIdentifierNotFound, Success]"

definition SubackReasonCode :: reason_enum where
  "SubackReasonCode = [
     GrantedQoS0, GrantedQoS1, GrantedQoS2, ImplementationSpecificError, NotAuthorized,
     PacketIdentifierInUse, QuotaExceeded, SharedSubscriptionsNotSupported,
     SubscriptionIdentifiersNotSupported, TopicFilterInvalid, UnspecifiedError,
     WildcardSubscriptionsNotSupported]"

definition UnsubackReasonCode :: reason_enum where
  "UnsubackReasonCode = [
     ImplementationSpecificError, NoSubscriptionExisted, NotAuthorized,
     PacketIdentifierInUse, Success, TopicFilterInvalid, UnspecifiedError]"

definition DisconnectReasonCode :: reason_enum where
  "DisconnectReasonCode = [
     AdministrativeAction, ConnectionRateExceeded, DisconnectWithWillMessage,
     ImplementationSpecificError, KeepAliveTimeout, MalformedPacket, MaximumConnectTime,
     MessageRateTooHigh, NormalDisconnection, NotAuthorized, PacketTooLarge,
     PayloadFormatInvalid, ProtocolError, QoSNotSupported, QuotaExceeded,
     ReceiveMaximumExceeded, RetainNotSupported, ServerBusy, ServerMoved,
     ServerShuttingDown, SessionTakenOver, SharedSubscriptionsNotSupported,
     SubscriptionIdentifiersNotSupported, TopicAliasInvalid, TopicFilterInvalid,
     TopicNameInvalid, UnspecifiedError, UseAnotherServer, WildcardSubscriptionsNotSupported]"

definition AuthReasonCode :: reason_enum where
  "AuthReasonCode = [
     ContinueAuthentication, ReAuthenticate, Success]"

lemmas reason_enum_defs =
  ConnackReasonCode_def PubackReasonCode_def PubrecReasonCode_def PubrelReasonCode_def
  PubcompReasonCode_def SubackReasonCode_def UnsubackReasonCode_def
  DisconnectReasonCode_def AuthReasonCode_def

section \<open>Lemmas\<close>

definition reason_ok :: "reason_enum \<Rightarrow> reason_code \<Rightarrow> bool" where
  "reason_ok rs c \<longleftrightarrow> distinct (map CODE rs) \<and> c \<in> set rs"

text \<open>No enum has two variants with one discriminant.\<close>

lemma reason_enums_distinct [simp]:
  "distinct (map CODE ConnackReasonCode)"
  "distinct (map CODE PubackReasonCode)"
  "distinct (map CODE PubrecReasonCode)"
  "distinct (map CODE PubrelReasonCode)"
  "distinct (map CODE PubcompReasonCode)"
  "distinct (map CODE SubackReasonCode)"
  "distinct (map CODE UnsubackReasonCode)"
  "distinct (map CODE DisconnectReasonCode)"
  "distinct (map CODE AuthReasonCode)"
  by (simp_all add: reason_enum_defs)

lemma reason_try_from_CODE:
  assumes "reason_ok rs c"
  shows "reason_try_from rs (CODE c) = Some c"
proof -
  have "distinct (map CODE rs) \<Longrightarrow> c \<in> set rs \<Longrightarrow> find (\<lambda>c'. CODE c' = CODE c) rs = Some c"
    by (induction rs) auto
  then show ?thesis using assms by (simp add: reason_try_from_def reason_ok_def)
qed

lemma reason_try_from_Some: "reason_try_from rs b = Some c \<Longrightarrow> c \<in> set rs \<and> CODE c = b"
  by (auto simp: reason_try_from_def find_Some_iff)

lemma is_valid_bit_pattern_iff: "is_valid_bit_pattern rs b \<longleftrightarrow> reason_try_from rs b \<noteq> None"
  by (auto simp: is_valid_bit_pattern_def reason_try_from_def find_None_iff list_ex_iff)

context winnow_spec begin

lemma reason_parse_strict [parser_intros]: "parser_strict (reason_parse W rs)"
  unfolding reason_parse_def by (intro parser_intros)

lemma reason_parse_POk:
  "reason_parse W rs i = POk c r \<Longrightarrow> i = CODE c # r \<and> c \<in> set rs"
  by (auto simp: reason_parse_def p_try_map_def dest!: u8_sound reason_try_from_Some
      split: presult.splits option.splits)

lemma reason_parse_enc: "reason_ok rs c \<Longrightarrow> reason_parse W rs (CODE c # r) = POk c r"
  by (simp add: reason_parse_def p_try_map_def u8_Cons reason_try_from_CODE)

end

lemma writes_reason [writes_intros]: "writes (reason_write c) [CODE c]"
  by (simp add: reason_write_def writes_byte)

sublocale winnow_spec \<subseteq> reason:
  codec "reason_parse W rs" reason_write reason_binary_size "\<lambda>c. [CODE c]" "reason_ok rs" "\<lambda>c. c" for rs
  by unfold_locales (simp_all add: reason_parse_enc writes_reason reason_binary_size_def sizes_def)

end
