(* ===== verification/Fixed_Header.thy ===== *)
theory Fixed_Header
  imports Reason_Codes
begin

text \<open>
  \<open>v5/fixed_header.rs\<close>: the first byte of a packet, with the packet type and its flags.
\<close>

datatype PacketType =
    PT_Connect
  | PT_Connack
  | PT_Publish (pt_dup: bool) (pt_qos: QualityOfService) (pt_retain: bool)
  | PT_Puback
  | PT_Pubrec
  | PT_Pubrel
  | PT_Pubcomp
  | PT_Subscribe
  | PT_Suback
  | PT_Unsubscribe
  | PT_Unsuback
  | PT_Pingreq
  | PT_Pingresp
  | PT_Disconnect
  | PT_Auth

record MFixedHeader =
  packet_type :: PacketType

text \<open>The \<open>match\<close> on the two halves of the byte, in the order of its arms.\<close>

definition packet_type_of :: "u8 \<Rightarrow> u8 \<Rightarrow> PacketType option" where
  "packet_type_of t flags =
     (if t = 0 then None
      else if t = 1 \<and> flags = 0 then Some PT_Connect
      else if t = 2 \<and> flags = 0 then Some PT_Connack
      else if t = 3 then
        (case qos_try_from (drop_bit 1 (flags AND 0b0110)) of
           None \<Rightarrow> None
         | Some qos \<Rightarrow> Some (PT_Publish (0b1000 AND flags \<noteq> 0) qos (0b0001 AND flags \<noteq> 0)))
      else if t = 4 \<and> flags = 0 then Some PT_Puback
      else if t = 5 \<and> flags = 0 then Some PT_Pubrec
      else if t = 6 \<and> flags = 0b0010 then Some PT_Pubrel
      else if t = 7 \<and> flags = 0 then Some PT_Pubcomp
      else if t = 8 \<and> flags = 0b0010 then Some PT_Subscribe
      else if t = 9 \<and> flags = 0 then Some PT_Suback
      else if t = 10 \<and> flags = 0b0010 then Some PT_Unsubscribe
      else if t = 11 \<and> flags = 0 then Some PT_Unsuback
      else if t = 12 \<and> flags = 0 then Some PT_Pingreq
      else if t = 13 \<and> flags = 0 then Some PT_Pingresp
      else if t = 14 \<and> flags = 0 then Some PT_Disconnect
      else if t = 15 \<and> flags = 0 then Some PT_Auth
      else None)"

definition MFixedHeader_parse :: "winnow \<Rightarrow> MFixedHeader parser" where
  "MFixedHeader_parse W =
     p_bind (p_bits W (b_bind (win_bits_take W 4) (\<lambda>t. b_bind (win_bits_take W 4) (\<lambda>f. b_return (t, f)))))
       (\<lambda>(t, flags). case packet_type_of t flags of
          None \<Rightarrow> p_fail Backtrack
        | Some pt \<Rightarrow> p_return \<lparr>packet_type = pt\<rparr>)"

definition MFixedHeader_binary_size :: "u32 option" where
  "MFixedHeader_binary_size = Some 1"

definition bool_u8 :: "bool \<Rightarrow> u8" where
  "bool_u8 b = (if b then 1 else 0)"

fun header_byte :: "PacketType \<Rightarrow> u8" where
  "header_byte PT_Connect = push_bit 4 1 OR 0"
| "header_byte PT_Connack = push_bit 4 2 OR 0"
| "header_byte (PT_Publish dup qos retain) =
     push_bit 4 3 OR ((push_bit 3 (bool_u8 dup) OR push_bit 1 (qos_to_u8 qos)) OR bool_u8 retain)"
| "header_byte PT_Puback = push_bit 4 4 OR 0"
| "header_byte PT_Pubrec = push_bit 4 5 OR 0"
| "header_byte PT_Pubrel = push_bit 4 6 OR 0b0010"
| "header_byte PT_Pubcomp = push_bit 4 7 OR 0"
| "header_byte PT_Subscribe = push_bit 4 8 OR 0b0010"
| "header_byte PT_Suback = push_bit 4 9 OR 0"
| "header_byte PT_Unsubscribe = push_bit 4 10 OR 0b0010"
| "header_byte PT_Unsuback = push_bit 4 11 OR 0"
| "header_byte PT_Pingreq = push_bit 4 12 OR 0"
| "header_byte PT_Pingresp = push_bit 4 13 OR 0"
| "header_byte PT_Disconnect = push_bit 4 14 OR 0"
| "header_byte PT_Auth = push_bit 4 15 OR 0"

definition MFixedHeader_write :: "MFixedHeader \<Rightarrow> writer" where
  "MFixedHeader_write h = write_byte (header_byte (packet_type h))"

lemmas header_defs [defs] =
  packet_type_of_def MFixedHeader_parse_def MFixedHeader_binary_size_def bool_u8_def
  MFixedHeader_write_def

section \<open>Lemmas\<close>

text \<open>The byte and the packet type determine each other.\<close>

lemma packet_type_of_byte:
  "packet_type_of (bits_of (header_byte pt) 0 4) (bits_of (header_byte pt) 4 4) = Some pt"
proof (cases pt)
  case (PT_Publish dup qos retain)
  show ?thesis
    unfolding PT_Publish by (cases dup; cases qos; cases retain; simp only:; code_simp)
qed (simp only:, code_simp)+

lemma publish_flags_all:
  "list_all (\<lambda>n. case packet_type_of 3 (word_of_nat n) of
     None \<Rightarrow> True | Some pt \<Rightarrow> header_byte pt = push_bit 4 3 OR word_of_nat n) [0..<16]"
  by code_simp

lemma packet_type_of_POk:
  assumes "packet_type_of (bits_of b 0 4) (bits_of b 4 4) = Some pt"
  shows "header_byte pt = b"
proof -
  define t f where "t = bits_of b 0 4" and "f = bits_of b 4 4"
  have "header_byte pt = push_bit 4 t OR f"
  proof (cases "t = 3")
    case True
    have "f = take_bit 4 b" by (simp add: f_def bits_of_def)
    then have "unat f = take_bit 4 (unat b)" by (simp add: unsigned_take_bit_eq)
    then have "unat f < 16" using take_bit_nat_less_exp [of 4 "unat b"] by simp
    then have "unat f \<in> set [0..<16]" by simp
    from bspec [OF publish_flags_all [unfolded list_all_iff] this] assms True show ?thesis
      by (simp del: set_upt push_bit_numeral add: t_def [symmetric] f_def [symmetric])
  next
    case False
    with assms show ?thesis
      by (auto simp: packet_type_of_def t_def [symmetric] f_def [symmetric] split: if_splits)
  qed
  then show ?thesis using byte_halves [of b] by (simp add: t_def f_def)
qed

context winnow_spec begin

lemma MFixedHeader_parse_Cons:
  "MFixedHeader_parse W (b # r) =
    (case packet_type_of (bits_of b 0 4) (bits_of b 4 4) of
       None \<Rightarrow> PErr Backtrack
     | Some pt \<Rightarrow> POk \<lparr>packet_type = pt\<rparr> r)"
  by (simp add: MFixedHeader_parse_def p_defs b_defs bits_take_Cons bits_end split: option.split)

lemma MFixedHeader_parse_Nil: "MFixedHeader_parse W [] = PErr Backtrack"
  by (simp add: MFixedHeader_parse_def p_defs b_defs bits_take_Nil)

lemma MFixedHeader_parse_POk:
  "MFixedHeader_parse W i = POk h r \<longleftrightarrow> i = header_byte (packet_type h) # r"
proof (cases i)
  case (Cons b i')
  have "packet_type_of (bits_of b 0 4) (bits_of b 4 4) = Some (packet_type h) \<longleftrightarrow>
      header_byte (packet_type h) = b"
    using packet_type_of_POk [of b] packet_type_of_byte [of "packet_type h"] by blast
  then show ?thesis
    by (auto simp: Cons MFixedHeader_parse_Cons split: option.splits)
qed (simp add: MFixedHeader_parse_Nil)

lemma MFixedHeader_parse_strict [parser_intros]: "parser_strict (MFixedHeader_parse W)"
proof (rule parser_byI)
  show "strict_suffix r i" if "MFixedHeader_parse W i = POk h r" for i h r
    using that by (simp add: MFixedHeader_parse_POk strict_suffix_def suffix_def)
  show "e = Backtrack \<or> e = Cut" if "MFixedHeader_parse W i = PErr e" for i e
    using that by (cases i) (auto simp: MFixedHeader_parse_Cons MFixedHeader_parse_Nil split: option.splits)
qed

end

sublocale winnow_spec \<subseteq> header:
  checked_codec "MFixedHeader_parse W" MFixedHeader_write "\<lambda>_. MFixedHeader_binary_size"
    "\<lambda>h. [header_byte (packet_type h)]" "\<lambda>_. True" "\<lambda>h. h"
proof
  show "writes (MFixedHeader_write h) [header_byte (packet_type h)]" for h
    by (simp add: MFixedHeader_write_def writes_byte)
qed (simp_all add: MFixedHeader_parse_POk MFixedHeader_binary_size_def sizes_def)

section \<open>Properties\<close>

text \<open>
  C20. The fixed header: a byte is accepted with a packet type exactly if it is the byte the
  writer writes for that type. So the flag bits must be the ones the standard reserves, quality of
  service 3 and packet type 0 are refused, and no two packet types share a byte.
\<close>

theorem fixed_header_exact:
  assumes "winnow_spec W"
  shows "MFixedHeader_parse W i = POk h r \<longleftrightarrow> (\<exists>b. i = b # r \<and> MFixedHeader_write h [] = (WOk, [b]))"
  using winnow_spec.MFixedHeader_parse_POk [OF assms, of i h r]
  by (auto simp: MFixedHeader_write_def write_byte_def)

lemma fixed_header_exact_witness:
  "MFixedHeader_parse winnow_ref [0x3B, 1] = POk \<lparr>packet_type = PT_Publish True AtLeastOnce True\<rparr> [1] \<longleftrightarrow>
    (\<exists>b. [0x3B, 1] = b # [1] \<and>
      MFixedHeader_write \<lparr>packet_type = PT_Publish True AtLeastOnce True\<rparr> [] = (WOk, [b]))"
  by (rule fixed_header_exact [OF winnow_ref_spec])

end
