(* ===== verification/Acknowledgements.thy ===== *)
theory Acknowledgements
  imports Fixed_Header
begin

text \<open>
  The packets that answer others: \<open>v5/packets/puback.rs\<close>, \<open>pubrec.rs\<close>,
  \<open>pubrel.rs\<close> and \<open>pubcomp.rs\<close>, which differ in their reason codes only, and
  \<open>suback.rs\<close> and \<open>unsuback.rs\<close>, with one reason code per subscription. Code that the files
  repeat word for word is one definition here, with the enum and the properties as arguments.
\<close>

section \<open>The properties of the packets\<close>

definition PubackProperties :: decl where
  "PubackProperties = [
     ReasonString_K, UserProperties_K]"

definition PubrecProperties :: decl where
  "PubrecProperties = [
     ReasonString_K, UserProperties_K]"

definition PubrelProperties :: decl where
  "PubrelProperties = [
     ReasonString_K, UserProperties_K]"

definition PubcompProperties :: decl where
  "PubcompProperties = [
     ReasonString_K, UserProperties_K]"

definition SubackProperties :: decl where
  "SubackProperties = [
     ReasonString_K, UserProperties_K]"

definition UnsubackProperties :: decl where
  "UnsubackProperties = [
     ReasonString_K, UserProperties_K]"

lemmas ack_decls =
  PubackProperties_def PubrecProperties_def PubrelProperties_def PubcompProperties_def
  SubackProperties_def UnsubackProperties_def

section \<open>PUBACK, PUBREC, PUBREL, PUBCOMP\<close>

record ack =
  ack_packet_identifier :: PacketIdentifier
  ack_reason :: reason_code
  ack_properties :: props

text \<open>A reason code or properties that the packet leaves out have their defaults.\<close>

definition ack_parse :: "winnow \<Rightarrow> reason_enum \<Rightarrow> decl \<Rightarrow> ack parser" where
  "ack_parse W rs ks =
     p_bind (PacketIdentifier_parse W) (\<lambda>packet_identifier.
     p_bind (p_bind p_is_empty (\<lambda>e. if e then p_return Success else reason_parse W rs)) (\<lambda>reason.
     p_bind (p_bind p_is_empty (\<lambda>e. if e then p_return (props_new ks) else props_parse W ks)) (\<lambda>properties.
     p_return \<lparr>ack_packet_identifier = packet_identifier, ack_reason = reason,
       ack_properties = properties\<rparr>)))"

definition ack_binary_size :: "winnow \<Rightarrow> ack \<Rightarrow> u32 option" where
  "ack_binary_size W a =
     s_sum [PacketIdentifier_binary_size (ack_packet_identifier a), reason_binary_size (ack_reason a),
       props_binary_size W (ack_properties a)]"

definition ack_write :: "winnow \<Rightarrow> ack \<Rightarrow> writer" where
  "ack_write W a =
     w_seq [PacketIdentifier_write (ack_packet_identifier a), reason_write (ack_reason a),
       props_write W (ack_properties a)]"

definition ack_eq :: "winnow \<Rightarrow> ack \<Rightarrow> ack \<Rightarrow> bool option" where
  "ack_eq W a b =
     (if ack_packet_identifier a = ack_packet_identifier b \<and> ack_reason a = ack_reason b
      then props_eq W (ack_properties a) (ack_properties b) else Some False)"

text \<open>The four packets.\<close>

type_synonym MPuback = ack
type_synonym MPubrec = ack
type_synonym MPubrel = ack
type_synonym MPubcomp = ack

definition MPuback_parse :: "winnow \<Rightarrow> MPuback parser" where
  "MPuback_parse W = ack_parse W PubackReasonCode PubackProperties"

definition MPubrec_parse :: "winnow \<Rightarrow> MPubrec parser" where
  "MPubrec_parse W = ack_parse W PubrecReasonCode PubrecProperties"

definition MPubrel_parse :: "winnow \<Rightarrow> MPubrel parser" where
  "MPubrel_parse W = ack_parse W PubrelReasonCode PubrelProperties"

definition MPubcomp_parse :: "winnow \<Rightarrow> MPubcomp parser" where
  "MPubcomp_parse W = ack_parse W PubcompReasonCode PubcompProperties"

abbreviation MPuback_binary_size :: "winnow \<Rightarrow> MPuback \<Rightarrow> u32 option" where
  "MPuback_binary_size \<equiv> ack_binary_size"

abbreviation MPuback_write :: "winnow \<Rightarrow> MPuback \<Rightarrow> writer" where
  "MPuback_write \<equiv> ack_write"

abbreviation MPubrec_binary_size :: "winnow \<Rightarrow> MPubrec \<Rightarrow> u32 option" where
  "MPubrec_binary_size \<equiv> ack_binary_size"

abbreviation MPubrec_write :: "winnow \<Rightarrow> MPubrec \<Rightarrow> writer" where
  "MPubrec_write \<equiv> ack_write"

abbreviation MPubrel_binary_size :: "winnow \<Rightarrow> MPubrel \<Rightarrow> u32 option" where
  "MPubrel_binary_size \<equiv> ack_binary_size"

abbreviation MPubrel_write :: "winnow \<Rightarrow> MPubrel \<Rightarrow> writer" where
  "MPubrel_write \<equiv> ack_write"

abbreviation MPubcomp_binary_size :: "winnow \<Rightarrow> MPubcomp \<Rightarrow> u32 option" where
  "MPubcomp_binary_size \<equiv> ack_binary_size"

abbreviation MPubcomp_write :: "winnow \<Rightarrow> MPubcomp \<Rightarrow> writer" where
  "MPubcomp_write \<equiv> ack_write"

section \<open>SUBACK, UNSUBACK\<close>

record suback =
  suback_packet_identifier :: PacketIdentifier
  suback_properties :: props
  suback_reasons :: "reason_code list"

text \<open>\<open>bytemuck::checked::try_cast_slice\<close>: every byte must be a valid bit pattern.\<close>

definition try_cast_slice :: "reason_enum \<Rightarrow> bytes \<Rightarrow> reason_code list option" where
  "try_cast_slice rs bs =
     (if list_all (is_valid_bit_pattern rs) bs then Some (map (\<lambda>b. the (reason_try_from rs b)) bs)
      else None)"

definition suback_parse :: "winnow \<Rightarrow> reason_enum \<Rightarrow> decl \<Rightarrow> suback parser" where
  "suback_parse W rs ks =
     p_bind (PacketIdentifier_parse W) (\<lambda>packet_identifier.
     p_bind (props_parse W ks) (\<lambda>properties.
     p_bind (p_take (win_repeat_till W 0 (p_map (\<lambda>_. ()) (reason_parse W rs)) (win_eof W))) (\<lambda>payload.
     (case try_cast_slice rs payload of
        None \<Rightarrow> p_fail Cut
      | Some reasons \<Rightarrow> p_return \<lparr>suback_packet_identifier = packet_identifier,
          suback_properties = properties, suback_reasons = reasons\<rparr>))))"

definition suback_binary_size :: "winnow \<Rightarrow> suback \<Rightarrow> u32 option" where
  "suback_binary_size W a =
     s_sum [PacketIdentifier_binary_size (suback_packet_identifier a),
       Some (word_of_nat (length (suback_reasons a))), props_binary_size W (suback_properties a)]"

definition suback_write :: "winnow \<Rightarrow> suback \<Rightarrow> writer" where
  "suback_write W a =
     w_seq [PacketIdentifier_write (suback_packet_identifier a), props_write W (suback_properties a),
       write_slice (map CODE (suback_reasons a))]"

definition suback_eq :: "winnow \<Rightarrow> suback \<Rightarrow> suback \<Rightarrow> bool option" where
  "suback_eq W a b =
     (if suback_packet_identifier a = suback_packet_identifier b
      then (case props_eq W (suback_properties a) (suback_properties b) of
              None \<Rightarrow> None
            | Some e \<Rightarrow> Some (e \<and> suback_reasons a = suback_reasons b))
      else Some False)"

type_synonym MSuback = suback
type_synonym MUnsuback = suback

definition MSuback_parse :: "winnow \<Rightarrow> MSuback parser" where
  "MSuback_parse W = suback_parse W SubackReasonCode SubackProperties"

definition MUnsuback_parse :: "winnow \<Rightarrow> MUnsuback parser" where
  "MUnsuback_parse W = suback_parse W UnsubackReasonCode UnsubackProperties"

abbreviation MSuback_binary_size :: "winnow \<Rightarrow> MSuback \<Rightarrow> u32 option" where
  "MSuback_binary_size \<equiv> suback_binary_size"

abbreviation MSuback_write :: "winnow \<Rightarrow> MSuback \<Rightarrow> writer" where
  "MSuback_write \<equiv> suback_write"

abbreviation MUnsuback_binary_size :: "winnow \<Rightarrow> MUnsuback \<Rightarrow> u32 option" where
  "MUnsuback_binary_size \<equiv> suback_binary_size"

abbreviation MUnsuback_write :: "winnow \<Rightarrow> MUnsuback \<Rightarrow> writer" where
  "MUnsuback_write \<equiv> suback_write"

lemmas ack_defs [defs] =
  ack_parse_def ack_binary_size_def ack_write_def ack_eq_def MPuback_parse_def MPubrec_parse_def
  MPubrel_parse_def MPubcomp_parse_def try_cast_slice_def suback_parse_def suback_binary_size_def
  suback_write_def suback_eq_def MSuback_parse_def MUnsuback_parse_def

section \<open>Layouts\<close>

definition enc_ack :: "winnow \<Rightarrow> ack \<Rightarrow> bytes" where
  "enc_ack W a = enc_u16 (ack_packet_identifier a) @ [CODE (ack_reason a)] @ enc_props W (ack_properties a)"

definition ack_ok :: "winnow \<Rightarrow> reason_enum \<Rightarrow> decl \<Rightarrow> ack \<Rightarrow> bool" where
  "ack_ok W rs ks a \<longleftrightarrow>
     ack_packet_identifier a \<noteq> 0 \<and> reason_ok rs (ack_reason a) \<and> props_ok W ks (ack_properties a)"

definition ack_canon :: "winnow \<Rightarrow> ack \<Rightarrow> ack" where
  "ack_canon W a = a\<lparr>ack_properties := props_canon W (ack_properties a)\<rparr>"

definition enc_suback :: "winnow \<Rightarrow> suback \<Rightarrow> bytes" where
  "enc_suback W a =
     enc_u16 (suback_packet_identifier a) @ enc_props W (suback_properties a) @ map CODE (suback_reasons a)"

definition suback_ok :: "winnow \<Rightarrow> reason_enum \<Rightarrow> decl \<Rightarrow> suback \<Rightarrow> bool" where
  "suback_ok W rs ks a \<longleftrightarrow>
     suback_packet_identifier a \<noteq> 0 \<and> distinct (map CODE rs) \<and> set (suback_reasons a) \<subseteq> set rs \<and>
     props_ok W ks (suback_properties a)"

definition suback_canon :: "winnow \<Rightarrow> suback \<Rightarrow> suback" where
  "suback_canon W a = a\<lparr>suback_properties := props_canon W (suback_properties a)\<rparr>"

section \<open>Lemmas\<close>

lemma ack_decls_distinct [simp]:
  "distinct PubackProperties" "distinct PubrecProperties" "distinct PubrelProperties"
  "distinct PubcompProperties" "distinct SubackProperties" "distinct UnsubackProperties"
  by (simp_all add: ack_decls)

lemma ack_success [simp]:
  "Success \<in> set PubackReasonCode" "Success \<in> set PubrecReasonCode"
  "Success \<in> set PubrelReasonCode" "Success \<in> set PubcompReasonCode"
  by (simp_all add: reason_enum_defs)

lemma enc_props_nonempty [simp]: "enc_props W fs \<noteq> []"
  by (simp add: enc_props_def)

lemma fits_append: "fits (xs @ ys) \<longleftrightarrow> length xs + length ys \<le> 268435455"
  by (simp add: fits_def)

context winnow_spec begin

subsection \<open>Acknowledgements\<close>

lemma ack_parse_ok: "parser_ok (ack_parse W rs ks)"
  unfolding ack_parse_def PacketIdentifier_parse_def by (intro parser_intros parser_strict_ok)

lemma ack_parse_enc: "ack_ok W rs ks a \<Longrightarrow> ack_parse W rs ks (enc_ack W a) = POk (ack_canon W a) []"
  using packet_id.parse_enc [of "ack_packet_identifier a" "CODE (ack_reason a) # enc_props W (ack_properties a)"]
    reason.parse_enc [of rs "ack_reason a" "enc_props W (ack_properties a)"]
    props.parse_enc [of ks "ack_properties a" "[]"]
  by (simp add: ack_parse_def enc_ack_def ack_ok_def ack_canon_def p_defs)

lemma ack_write_enc: "ack_ok W rs ks a \<Longrightarrow> writes (ack_write W a) (enc_ack W a)"
  unfolding ack_write_def enc_ack_def ack_ok_def
  by (intro writes_Cons writes_one) (auto intro: packet_id.write_enc writes_reason props.write_enc)

lemma ack_size_enc: "ack_ok W rs ks a \<Longrightarrow> sizes (ack_binary_size W a) (enc_ack W a)"
  unfolding ack_binary_size_def enc_ack_def ack_ok_def
  by (intro sizes_sum_Cons sizes_one) (auto intro: packet_id.size_enc reason.size_enc props.size_enc)

lemma ack_parse_sound:
  assumes "fits i" and "ack_parse W rs ks i = POk a r" and "Success \<in> set rs"
    and "distinct (map CODE rs)" and "distinct ks"
  shows "ack_ok W rs ks a \<and> fits (enc_ack W a)"
proof -
  obtain i1 i2 where pid: "PacketIdentifier_parse W i = POk (ack_packet_identifier a) i1"
    and c: "i1 = [] \<and> ack_reason a = Success \<and> i2 = [] \<or> reason_parse W rs i1 = POk (ack_reason a) i2"
    and ps: "i2 = [] \<and> ack_properties a = props_new ks \<or> props_parse W ks i2 = POk (ack_properties a) r"
    using assms(2)
    by (simp add: ack_parse_def p_defs split: presult.splits if_splits) (metis ack.select_convs)+
  have "ack_reason a \<in> set rs" "length i2 \<le> length i1"
    using c assms(3) by (auto dest: reason_parse_POk)
  moreover have "props_ok W ks (ack_properties a)"
    "length (enc_props W (ack_properties a)) \<le> max 1 (length i2)"
    using ps assms(5) props_parse_sound [of ks i2 "ack_properties a" r] by auto
  moreover have "ack_packet_identifier a \<noteq> 0" "2 + length i1 \<le> length i"
    using packet_id.parse_sound [OF pid] by auto
  moreover have "i1 = [] \<or> Suc (length i2) \<le> length i1" using c by (auto dest: reason_parse_POk)
  ultimately show ?thesis using assms(1,4) by (auto simp: ack_ok_def reason_ok_def enc_ack_def fits_def)
qed

lemma ack_checked:
  assumes "Success \<in> set rs" and "distinct (map CODE rs)" and "distinct ks"
  shows "checked_body_codec (ack_parse W rs ks) (ack_write W) (ack_binary_size W) (enc_ack W)
    (ack_ok W rs ks) (ack_canon W)"
proof
  fix a :: ack and i r :: bytes
  show "ack_ok W rs ks a \<Longrightarrow> ack_parse W rs ks (enc_ack W a) = POk (ack_canon W a) []"
    by (rule ack_parse_enc)
  show "ack_ok W rs ks a \<Longrightarrow> writes (ack_write W a) (enc_ack W a)" by (rule ack_write_enc)
  show "ack_ok W rs ks a \<Longrightarrow> sizes (ack_binary_size W a) (enc_ack W a)" by (rule ack_size_enc)
  show "fits i \<Longrightarrow> ack_parse W rs ks i = POk a r \<Longrightarrow> ack_ok W rs ks a \<and> fits (enc_ack W a)"
    by (rule ack_parse_sound [OF _ _ assms])
qed

lemma ack_eq_canon: "ack_ok W rs ks a \<Longrightarrow> ack_eq W a (ack_canon W a) = Some True"
  by (auto simp: ack_eq_def ack_canon_def ack_ok_def dest: props_eq_ok)

subsection \<open>Subscription acknowledgements\<close>

lemma suback_parse_ok: "parser_ok (suback_parse W rs ks)"
proof -
  have "parser_strict (p_map (\<lambda>_. ()) (reason_parse W rs))" by (intro parser_intros)
  then show ?thesis
    unfolding suback_parse_def PacketIdentifier_parse_def
    by (intro parser_intros parser_strict_ok)
qed

lemma try_cast_codes:
  assumes "distinct (map CODE rs)" and "set cs \<subseteq> set rs"
  shows "try_cast_slice rs (map CODE cs) = Some cs"
  using assms
  by (induction cs)
    (auto simp: try_cast_slice_def is_valid_bit_pattern_iff reason_try_from_CODE reason_ok_def
      split: if_splits)

lemma pieces_reason: "pieces (reason_parse W rs) cs i \<Longrightarrow> i = map CODE cs \<and> set cs \<subseteq> set rs"
  by (induction rule: pieces.induct) (auto dest: reason_parse_POk)

lemma reasons_repeat:
  assumes "distinct (map CODE rs)" and "set cs \<subseteq> set rs"
  shows "win_repeat_till W 0 (p_map (\<lambda>_. ()) (reason_parse W rs)) (win_eof W) (map CODE cs) = POk () []"
proof -
  have "map CODE cs = concat (map (\<lambda>c. [CODE c]) cs)" by simp
  moreover have "parser_strict (p_map (\<lambda>_. ()) (reason_parse W rs))" by (intro parser_intros)
  ultimately show ?thesis
    using assms
    by (simp only:) (intro repeat_till_concat; auto simp: p_map_def reason_parse_enc reason_ok_def)
qed

lemma suback_parse_enc:
  assumes "suback_ok W rs ks a"
  shows "suback_parse W rs ks (enc_suback W a) = POk (suback_canon W a) []"
  using assms packet_id.parse_enc [of "suback_packet_identifier a"]
    props.parse_enc [of ks "suback_properties a" "map CODE (suback_reasons a)"]
    reasons_repeat [of rs "suback_reasons a"] try_cast_codes [of rs "suback_reasons a"]
  by (simp add: suback_parse_def enc_suback_def suback_ok_def suback_canon_def p_defs)

lemma suback_write_enc: "suback_ok W rs ks a \<Longrightarrow> writes (suback_write W a) (enc_suback W a)"
  unfolding suback_write_def enc_suback_def suback_ok_def
  by (intro writes_Cons writes_one) (auto intro: packet_id.write_enc writes_slice props.write_enc)

lemma suback_size_enc:
  assumes "suback_ok W rs ks a"
  shows "sizes (suback_binary_size W a) (enc_suback W a)"
proof -
  have "sizes (props_binary_size W (suback_properties a)) (enc_props W (suback_properties a))"
    "sizes (PacketIdentifier_binary_size (suback_packet_identifier a)) (enc_u16 (suback_packet_identifier a))"
    using assms by (auto simp: suback_ok_def intro: props.size_enc packet_id.size_enc)
  then show ?thesis
    by (simp add: suback_binary_size_def enc_suback_def sizes_def s_add_def add.commute)
qed

lemma suback_parse_sound:
  assumes "fits i" and "suback_parse W rs ks i = POk a r"
    and "distinct (map CODE rs)" and "distinct ks"
  shows "suback_ok W rs ks a \<and> fits (enc_suback W a)"
proof -
  obtain i1 i2 where pid: "PacketIdentifier_parse W i = POk (suback_packet_identifier a) i1"
    and ps: "props_parse W ks i1 = POk (suback_properties a) i2"
    and rep: "win_repeat_till W 0 (p_map (\<lambda>_. ()) (reason_parse W rs)) (win_eof W) i2 = POk () r"
    and cast: "try_cast_slice rs (take (length i2 - length r) i2) = Some (suback_reasons a)"
    using assms(2) by (auto simp: suback_parse_def p_defs split: presult.splits option.splits)
  have "parser_strict (p_map (\<lambda>_. ()) (reason_parse W rs))" by (intro parser_intros)
  with repeat_till_eof_result [of "p_map (\<lambda>_. ()) (reason_parse W rs)" 0 i2] rep have "r = []" by auto
  obtain cs where "i2 = map CODE cs" "set cs \<subseteq> set rs"
    using repeat_till_pieces [OF reason_parse_strict rep] pieces_reason by blast
  moreover from this \<open>r = []\<close> cast have "suback_reasons a = cs"
    using try_cast_codes [OF assms(3), of cs] by simp
  ultimately show ?thesis
    using props_parse_sound [OF ps assms(4)] packet_id.parse_sound [OF pid] assms(1,3)
    by (auto simp: suback_ok_def enc_suback_def fits_def)
qed

lemma suback_checked:
  assumes "distinct (map CODE rs)" and "distinct ks"
  shows "checked_body_codec (suback_parse W rs ks) (suback_write W) (suback_binary_size W) (enc_suback W)
    (suback_ok W rs ks) (suback_canon W)"
proof
  fix a :: suback and i r :: bytes
  show "suback_ok W rs ks a \<Longrightarrow> suback_parse W rs ks (enc_suback W a) = POk (suback_canon W a) []"
    by (rule suback_parse_enc)
  show "suback_ok W rs ks a \<Longrightarrow> writes (suback_write W a) (enc_suback W a)" by (rule suback_write_enc)
  show "suback_ok W rs ks a \<Longrightarrow> sizes (suback_binary_size W a) (enc_suback W a)" by (rule suback_size_enc)
  show "fits i \<Longrightarrow> suback_parse W rs ks i = POk a r \<Longrightarrow> suback_ok W rs ks a \<and> fits (enc_suback W a)"
    by (rule suback_parse_sound [OF _ _ assms])
qed

lemma suback_eq_canon: "suback_ok W rs ks a \<Longrightarrow> suback_eq W a (suback_canon W a) = Some True"
  by (auto simp: suback_eq_def suback_canon_def suback_ok_def dest: props_eq_ok)

end

section \<open>The codecs\<close>

sublocale winnow_spec \<subseteq> puback:
  checked_body_codec "MPuback_parse W" "ack_write W" "ack_binary_size W" "enc_ack W"
    "ack_ok W PubackReasonCode PubackProperties" "ack_canon W"
  unfolding MPuback_parse_def by (rule ack_checked) simp_all

sublocale winnow_spec \<subseteq> pubrec:
  checked_body_codec "MPubrec_parse W" "ack_write W" "ack_binary_size W" "enc_ack W"
    "ack_ok W PubrecReasonCode PubrecProperties" "ack_canon W"
  unfolding MPubrec_parse_def by (rule ack_checked) simp_all

sublocale winnow_spec \<subseteq> pubrel:
  checked_body_codec "MPubrel_parse W" "ack_write W" "ack_binary_size W" "enc_ack W"
    "ack_ok W PubrelReasonCode PubrelProperties" "ack_canon W"
  unfolding MPubrel_parse_def by (rule ack_checked) simp_all

sublocale winnow_spec \<subseteq> pubcomp:
  checked_body_codec "MPubcomp_parse W" "ack_write W" "ack_binary_size W" "enc_ack W"
    "ack_ok W PubcompReasonCode PubcompProperties" "ack_canon W"
  unfolding MPubcomp_parse_def by (rule ack_checked) simp_all

sublocale winnow_spec \<subseteq> suback:
  checked_body_codec "MSuback_parse W" "suback_write W" "suback_binary_size W" "enc_suback W"
    "suback_ok W SubackReasonCode SubackProperties" "suback_canon W"
  unfolding MSuback_parse_def by (rule suback_checked) simp_all

sublocale winnow_spec \<subseteq> unsuback:
  checked_body_codec "MUnsuback_parse W" "suback_write W" "suback_binary_size W" "enc_suback W"
    "suback_ok W UnsubackReasonCode UnsubackProperties" "suback_canon W"
  unfolding MUnsuback_parse_def by (rule suback_checked) simp_all

end
