(* ===== verification/Connection.thy ===== *)
theory Connection
  imports Acknowledgements
begin

text \<open>
  The packets that open, keep and close a connection: \<open>v5/packets/connect.rs\<close>,
  \<open>connack.rs\<close>, \<open>disconnect.rs\<close>, \<open>auth.rs\<close>, \<open>pingreq.rs\<close> and \<open>pingresp.rs\<close>.
\<close>

section \<open>The properties of the packets\<close>

definition ConnectProperties :: decl where
  "ConnectProperties = [
     SessionExpiryInterval_K, ReceiveMaximum_K, MaximumPacketSize_K, TopicAliasMaximum_K,
     RequestResponseInformation_K, RequestProblemInformation_K, UserProperties_K,
     AuthenticationMethod_K, AuthenticationData_K]"

definition ConnectWillProperties :: decl where
  "ConnectWillProperties = [
     WillDelayInterval_K, PayloadFormatIndicator_K, MessageExpiryInterval_K, ContentType_K,
     ResponseTopic_K, CorrelationData_K, UserProperties_K]"

definition ConnackProperties :: decl where
  "ConnackProperties = [
     SessionExpiryInterval_K, ReceiveMaximum_K, MaximumQoS_K, RetainAvailable_K,
     MaximumPacketSize_K, AssignedClientIdentifier_K, TopicAliasMaximum_K, ReasonString_K,
     UserProperties_K, WildcardSubscriptionAvailable_K, SubscriptionIdentifiersAvailable_K,
     SharedSubscriptionAvailable_K, ServerKeepAlive_K, ResponseInformation_K,
     ServerReference_K, AuthenticationMethod_K, AuthenticationData_K]"

definition DisconnectProperties :: decl where
  "DisconnectProperties = [
     SessionExpiryInterval_K, ReasonString_K, UserProperties_K, ServerReference_K]"

definition AuthProperties :: decl where
  "AuthProperties = [
     AuthenticationMethod_K, AuthenticationData_K, ReasonString_K, UserProperties_K]"

lemmas connection_decls =
  ConnectProperties_def ConnectWillProperties_def ConnackProperties_def DisconnectProperties_def
  AuthProperties_def

section \<open>CONNECT\<close>

datatype ProtocolLevel = V3 | V5

definition ProtocolLevel_parse :: "winnow \<Rightarrow> ProtocolLevel parser" where
  "ProtocolLevel_parse W =
     p_bind (win_u8 W False)
       (\<lambda>b. if b = 3 then p_return V3 else if b = 5 then p_return V5 else p_fail Backtrack)"

definition ProtocolLevel_write :: "ProtocolLevel \<Rightarrow> writer" where
  "ProtocolLevel_write l = (case l of V3 \<Rightarrow> write_byte 3 | V5 \<Rightarrow> write_byte 5)"

record Will =
  will_properties :: props
  will_topic :: rstr
  will_payload :: bytes
  will_qos :: QualityOfService
  will_retain :: bool

definition Will_write :: "winnow \<Rightarrow> Will \<Rightarrow> writer" where
  "Will_write W w =
     w_seq [props_write W (will_properties w), write_string (will_topic w),
       write_binary_data (will_payload w)]"

definition Will_binary_size :: "winnow \<Rightarrow> Will \<Rightarrow> u32 option" where
  "Will_binary_size W w =
     s_sum [props_binary_size W (will_properties w), string_binary_size (will_topic w),
       binary_data_binary_size (will_payload w)]"

definition Will_eq :: "winnow \<Rightarrow> Will \<Rightarrow> Will \<Rightarrow> bool option" where
  "Will_eq W a b =
     (case props_eq W (will_properties a) (will_properties b) of
        None \<Rightarrow> None
      | Some e \<Rightarrow> Some (e \<and> will_topic a = will_topic b \<and> will_payload a = will_payload b \<and>
          will_qos a = will_qos b \<and> will_retain a = will_retain b))"

record MConnect =
  con_client_identifier :: rstr
  con_username :: "rstr option"
  con_password :: "bytes option"
  con_clean_start :: bool
  con_will :: "Will option"
  con_properties :: props
  con_keep_alive :: u16

text \<open>The protocol name, \<open>"MQTT"\<close>.\<close>

definition protocol_name :: rstr where
  "protocol_name = [0x4D, 0x51, 0x54, 0x54]"

record connect_flag_bits =
  user_name_flag :: bool
  password_flag :: bool
  will_retain_flag :: bool
  will_qos_flag :: QualityOfService
  will_flag :: bool
  clean_start_flag :: bool

definition connect_bits :: "winnow \<Rightarrow> connect_flag_bits bit_parser" where
  "connect_bits W =
     b_bind (win_bits_bool W) (\<lambda>user_name_flag.
     b_bind (win_bits_bool W) (\<lambda>password_flag.
     b_bind (win_bits_bool W) (\<lambda>will_retain.
     b_bind (b_try_map qos_try_from (win_bits_take W 2)) (\<lambda>will_qos.
     b_bind (win_bits_bool W) (\<lambda>will_flag.
     b_bind (win_bits_bool W) (\<lambda>clean_start.
     b_bind (win_bits_pattern W 0 1) (\<lambda>_.
     b_return \<lparr>user_name_flag = user_name_flag, password_flag = password_flag,
       will_retain_flag = will_retain, will_qos_flag = will_qos, will_flag = will_flag,
       clean_start_flag = clean_start\<rparr>)))))))"

text \<open>\<open>flag.then(|| p).transpose()?\<close>\<close>

definition p_then :: "bool \<Rightarrow> 'a parser \<Rightarrow> 'a option parser" where
  "p_then b p = (if b then p_map Some p else p_return None)"

definition Will_parse :: "winnow \<Rightarrow> QualityOfService \<Rightarrow> bool \<Rightarrow> Will parser" where
  "Will_parse W qos retain =
     p_bind (props_parse W ConnectWillProperties) (\<lambda>properties.
     p_bind (parse_string W) (\<lambda>topic.
     p_bind (parse_binary_data W) (\<lambda>payload.
     p_return \<lparr>will_properties = properties, will_topic = topic, will_payload = payload,
       will_qos = qos, will_retain = retain\<rparr>)))"

definition MConnect_parse :: "winnow \<Rightarrow> MConnect parser" where
  "MConnect_parse W =
     p_bind (p_verify (\<lambda>s. s = protocol_name) (parse_string W)) (\<lambda>_.
     p_bind (p_verify (\<lambda>lvl. lvl = V5) (ProtocolLevel_parse W)) (\<lambda>_.
     p_bind (p_bits W (connect_bits W)) (\<lambda>f.
     p_bind (parse_u16 W) (\<lambda>keep_alive.
     p_bind (props_parse W ConnectProperties) (\<lambda>properties.
     p_bind (parse_string W) (\<lambda>client_identifier.
     p_bind (p_then (will_flag f) (Will_parse W (will_qos_flag f) (will_retain_flag f))) (\<lambda>will.
     p_bind (p_then (user_name_flag f) (parse_string W)) (\<lambda>username.
     p_bind (p_then (password_flag f) (parse_binary_data W)) (\<lambda>password.
     p_return \<lparr>con_client_identifier = client_identifier, con_username = username,
       con_password = password, con_clean_start = clean_start_flag f, con_will = will,
       con_properties = properties, con_keep_alive = keep_alive\<rparr>)))))))))"

definition MConnect_binary_size :: "winnow \<Rightarrow> MConnect \<Rightarrow> u32 option" where
  "MConnect_binary_size W c =
     s_sum [Some 6, Some 1, Some 1, Some 2, props_binary_size W (con_properties c),
       string_binary_size (con_client_identifier c),
       (case con_will c of None \<Rightarrow> Some 0 | Some w \<Rightarrow> Will_binary_size W w),
       (case con_username c of None \<Rightarrow> Some 0 | Some s \<Rightarrow> string_binary_size s),
       (case con_password c of None \<Rightarrow> Some 0 | Some p \<Rightarrow> binary_data_binary_size p)]"

definition connect_flags :: "MConnect \<Rightarrow> u8" where
  "connect_flags c =
     (let reserved = 0;
          clean_start = push_bit 1 (bool_u8 (con_clean_start c));
          will =
            (case con_will c of
               Some w \<Rightarrow>
                 push_bit 2 1 OR push_bit 3 (qos_to_u8 (will_qos w)) OR push_bit 5 (bool_u8 (will_retain w))
             | None \<Rightarrow> 0);
          password = push_bit 6 (bool_u8 (con_password c \<noteq> None));
          username = push_bit 7 (bool_u8 (con_username c \<noteq> None))
      in reserved OR clean_start OR will OR password OR username)"

definition MConnect_write :: "winnow \<Rightarrow> MConnect \<Rightarrow> writer" where
  "MConnect_write W c =
     w_seq ([write_string protocol_name, ProtocolLevel_write V5, write_byte (connect_flags c),
       w_u16 (con_keep_alive c), props_write W (con_properties c), write_string (con_client_identifier c)]
       @ (case con_will c of None \<Rightarrow> [] | Some w \<Rightarrow> [Will_write W w])
       @ (case con_username c of None \<Rightarrow> [] | Some s \<Rightarrow> [write_string s])
       @ (case con_password c of None \<Rightarrow> [] | Some p \<Rightarrow> [write_binary_data p]))"

definition MConnect_eq :: "winnow \<Rightarrow> MConnect \<Rightarrow> MConnect \<Rightarrow> bool option" where
  "MConnect_eq W a b =
     (if con_client_identifier a = con_client_identifier b \<and> con_username a = con_username b \<and>
         con_password a = con_password b \<and> con_clean_start a = con_clean_start b
      then
        (case (case (con_will a, con_will b) of
                 (Some u, Some v) \<Rightarrow> Will_eq W u v
               | (None, None) \<Rightarrow> Some True
               | _ \<Rightarrow> Some False) of
           None \<Rightarrow> None
         | Some False \<Rightarrow> Some False
         | Some True \<Rightarrow>
             (case props_eq W (con_properties a) (con_properties b) of
                None \<Rightarrow> None
              | Some e \<Rightarrow> Some (e \<and> con_keep_alive a = con_keep_alive b)))
      else Some False)"

section \<open>CONNACK\<close>

record MConnack =
  connack_session_present :: bool
  connack_reason_code :: reason_code
  connack_properties :: props

definition MConnack_parse :: "winnow \<Rightarrow> MConnack parser" where
  "MConnack_parse W =
     p_bind (p_bits W
       (b_bind (win_bits_take W 1) (\<lambda>b. b_bind (win_bits_pattern W 0 7) (\<lambda>_. b_return (b = 1)))))
       (\<lambda>session_present.
     p_bind (reason_parse W ConnackReasonCode) (\<lambda>reason_code.
     p_bind (props_parse W ConnackProperties) (\<lambda>properties.
     p_return \<lparr>connack_session_present = session_present, connack_reason_code = reason_code,
       connack_properties = properties\<rparr>)))"

definition MConnack_binary_size :: "winnow \<Rightarrow> MConnack \<Rightarrow> u32 option" where
  "MConnack_binary_size W c =
     s_sum [Some 1, reason_binary_size (connack_reason_code c), props_binary_size W (connack_properties c)]"

definition MConnack_write :: "winnow \<Rightarrow> MConnack \<Rightarrow> writer" where
  "MConnack_write W c =
     w_seq [write_byte (push_bit 7 (bool_u8 (connack_session_present c))),
       reason_write (connack_reason_code c), props_write W (connack_properties c)]"

definition MConnack_eq :: "winnow \<Rightarrow> MConnack \<Rightarrow> MConnack \<Rightarrow> bool option" where
  "MConnack_eq W a b =
     (if connack_session_present a = connack_session_present b \<and>
         connack_reason_code a = connack_reason_code b
      then props_eq W (connack_properties a) (connack_properties b) else Some False)"

section \<open>DISCONNECT\<close>

record MDisconnect =
  dis_reason_code :: reason_code
  dis_properties :: props

definition MDisconnect_parse :: "winnow \<Rightarrow> MDisconnect parser" where
  "MDisconnect_parse W =
     p_bind (p_bind p_is_empty
       (\<lambda>e. if e then p_return NormalDisconnection else reason_parse W DisconnectReasonCode)) (\<lambda>reason_code.
     p_bind (p_bind p_is_empty
       (\<lambda>e. if e then p_return (props_new DisconnectProperties) else props_parse W DisconnectProperties))
       (\<lambda>properties.
     p_return \<lparr>dis_reason_code = reason_code, dis_properties = properties\<rparr>))"

definition is_short_packet :: "winnow \<Rightarrow> MDisconnect \<Rightarrow> bool option" where
  "is_short_packet W d =
     (if dis_reason_code d = NormalDisconnection
      then props_eq W (dis_properties d) (props_new DisconnectProperties) else Some False)"

definition MDisconnect_binary_size :: "winnow \<Rightarrow> MDisconnect \<Rightarrow> u32 option" where
  "MDisconnect_binary_size W d =
     (case is_short_packet W d of
        None \<Rightarrow> None
      | Some True \<Rightarrow> Some 0
      | Some False \<Rightarrow> s_add (reason_binary_size (dis_reason_code d)) (props_binary_size W (dis_properties d)))"

definition MDisconnect_write :: "winnow \<Rightarrow> MDisconnect \<Rightarrow> writer" where
  "MDisconnect_write W d =
     (case is_short_packet W d of
        None \<Rightarrow> w_panic
      | Some True \<Rightarrow> w_seq []
      | Some False \<Rightarrow> w_seq [reason_write (dis_reason_code d), props_write W (dis_properties d)])"

definition MDisconnect_eq :: "winnow \<Rightarrow> MDisconnect \<Rightarrow> MDisconnect \<Rightarrow> bool option" where
  "MDisconnect_eq W a b =
     (if dis_reason_code a = dis_reason_code b then props_eq W (dis_properties a) (dis_properties b)
      else Some False)"

section \<open>AUTH\<close>

record MAuth =
  auth_reason :: reason_code
  auth_properties :: props

definition MAuth_parse :: "winnow \<Rightarrow> MAuth parser" where
  "MAuth_parse W =
     p_bind (reason_parse W AuthReasonCode) (\<lambda>reason.
     p_bind (props_parse W AuthProperties) (\<lambda>properties.
     p_return \<lparr>auth_reason = reason, auth_properties = properties\<rparr>))"

definition MAuth_binary_size :: "winnow \<Rightarrow> MAuth \<Rightarrow> u32 option" where
  "MAuth_binary_size W a = s_add (reason_binary_size (auth_reason a)) (props_binary_size W (auth_properties a))"

definition MAuth_write :: "winnow \<Rightarrow> MAuth \<Rightarrow> writer" where
  "MAuth_write W a = w_seq [reason_write (auth_reason a), props_write W (auth_properties a)]"

definition MAuth_eq :: "winnow \<Rightarrow> MAuth \<Rightarrow> MAuth \<Rightarrow> bool option" where
  "MAuth_eq W a b =
     (if auth_reason a = auth_reason b then props_eq W (auth_properties a) (auth_properties b)
      else Some False)"

section \<open>PINGREQ, PINGRESP\<close>

datatype MPingreq = MPingreq
datatype MPingresp = MPingresp

definition MPingreq_parse :: "winnow \<Rightarrow> MPingreq parser" where
  "MPingreq_parse W = p_map (\<lambda>_. MPingreq) (win_eof W)"

definition MPingresp_parse :: "winnow \<Rightarrow> MPingresp parser" where
  "MPingresp_parse W = p_map (\<lambda>_. MPingresp) (win_eof W)"

definition MPingreq_binary_size :: "MPingreq \<Rightarrow> u32 option" where
  "MPingreq_binary_size p = Some 0"

definition MPingresp_binary_size :: "MPingresp \<Rightarrow> u32 option" where
  "MPingresp_binary_size p = Some 0"

definition MPingreq_write :: "MPingreq \<Rightarrow> writer" where
  "MPingreq_write p = w_seq []"

definition MPingresp_write :: "MPingresp \<Rightarrow> writer" where
  "MPingresp_write p = w_seq []"

lemmas connection_defs [defs] =
  ProtocolLevel_parse_def ProtocolLevel_write_def Will_write_def Will_binary_size_def Will_eq_def
  protocol_name_def connect_bits_def p_then_def Will_parse_def MConnect_parse_def
  MConnect_binary_size_def connect_flags_def MConnect_write_def MConnect_eq_def MConnack_parse_def
  MConnack_binary_size_def MConnack_write_def MConnack_eq_def MDisconnect_parse_def
  is_short_packet_def MDisconnect_binary_size_def MDisconnect_write_def MDisconnect_eq_def
  MAuth_parse_def MAuth_binary_size_def MAuth_write_def MAuth_eq_def MPingreq_parse_def
  MPingresp_parse_def MPingreq_binary_size_def MPingresp_binary_size_def MPingreq_write_def
  MPingresp_write_def

section \<open>Layouts\<close>

definition enc_opt :: "('a \<Rightarrow> bytes) \<Rightarrow> 'a option \<Rightarrow> bytes" where
  "enc_opt e x = (case x of None \<Rightarrow> [] | Some y \<Rightarrow> e y)"

definition opt_ok :: "('a \<Rightarrow> bool) \<Rightarrow> 'a option \<Rightarrow> bool" where
  "opt_ok P x \<longleftrightarrow> (case x of None \<Rightarrow> True | Some y \<Rightarrow> P y)"

definition enc_will :: "winnow \<Rightarrow> Will \<Rightarrow> bytes" where
  "enc_will W w = enc_props W (will_properties w) @ enc_data (will_topic w) @ enc_data (will_payload w)"

definition will_ok :: "winnow \<Rightarrow> Will \<Rightarrow> bool" where
  "will_ok W w \<longleftrightarrow>
     props_ok W ConnectWillProperties (will_properties w) \<and> str_ok (will_topic w) \<and> data_ok (will_payload w)"

definition will_canon :: "winnow \<Rightarrow> Will \<Rightarrow> Will" where
  "will_canon W w = w\<lparr>will_properties := props_canon W (will_properties w)\<rparr>"

definition enc_connect :: "winnow \<Rightarrow> MConnect \<Rightarrow> bytes" where
  "enc_connect W c =
     enc_data protocol_name @ [5] @ [connect_flags c] @ enc_u16 (con_keep_alive c) @
     enc_props W (con_properties c) @ enc_data (con_client_identifier c) @
     enc_opt (enc_will W) (con_will c) @ enc_opt enc_data (con_username c) @
     enc_opt enc_data (con_password c)"

definition connect_ok :: "winnow \<Rightarrow> MConnect \<Rightarrow> bool" where
  "connect_ok W c \<longleftrightarrow>
     props_ok W ConnectProperties (con_properties c) \<and> str_ok (con_client_identifier c) \<and>
     opt_ok (will_ok W) (con_will c) \<and> opt_ok str_ok (con_username c) \<and> opt_ok data_ok (con_password c)"

definition connect_canon :: "winnow \<Rightarrow> MConnect \<Rightarrow> MConnect" where
  "connect_canon W c =
     c\<lparr>con_will := map_option (will_canon W) (con_will c),
       con_properties := props_canon W (con_properties c)\<rparr>"

definition enc_connack :: "winnow \<Rightarrow> MConnack \<Rightarrow> bytes" where
  "enc_connack W c =
     [push_bit 7 (bool_u8 (connack_session_present c))] @ [CODE (connack_reason_code c)] @
     enc_props W (connack_properties c)"

definition connack_ok :: "winnow \<Rightarrow> MConnack \<Rightarrow> bool" where
  "connack_ok W c \<longleftrightarrow>
     reason_ok ConnackReasonCode (connack_reason_code c) \<and>
     props_ok W ConnackProperties (connack_properties c)"

definition connack_canon :: "winnow \<Rightarrow> MConnack \<Rightarrow> MConnack" where
  "connack_canon W c = c\<lparr>connack_properties := props_canon W (connack_properties c)\<rparr>"

definition enc_disconnect :: "winnow \<Rightarrow> MDisconnect \<Rightarrow> bytes" where
  "enc_disconnect W d =
     (if dis_reason_code d = NormalDisconnection \<and> dis_properties d = props_new DisconnectProperties
      then [] else [CODE (dis_reason_code d)] @ enc_props W (dis_properties d))"

definition disconnect_ok :: "winnow \<Rightarrow> MDisconnect \<Rightarrow> bool" where
  "disconnect_ok W d \<longleftrightarrow>
     reason_ok DisconnectReasonCode (dis_reason_code d) \<and>
     props_ok W DisconnectProperties (dis_properties d)"

definition disconnect_canon :: "winnow \<Rightarrow> MDisconnect \<Rightarrow> MDisconnect" where
  "disconnect_canon W d = d\<lparr>dis_properties := props_canon W (dis_properties d)\<rparr>"

definition enc_auth :: "winnow \<Rightarrow> MAuth \<Rightarrow> bytes" where
  "enc_auth W a = [CODE (auth_reason a)] @ enc_props W (auth_properties a)"

definition auth_ok :: "winnow \<Rightarrow> MAuth \<Rightarrow> bool" where
  "auth_ok W a \<longleftrightarrow>
     reason_ok AuthReasonCode (auth_reason a) \<and> props_ok W AuthProperties (auth_properties a)"

definition auth_canon :: "winnow \<Rightarrow> MAuth \<Rightarrow> MAuth" where
  "auth_canon W a = a\<lparr>auth_properties := props_canon W (auth_properties a)\<rparr>"

section \<open>Lemmas\<close>

lemma connection_decls_distinct [simp]:
  "distinct ConnectProperties" "distinct ConnectWillProperties" "distinct ConnackProperties"
  "distinct DisconnectProperties" "distinct AuthProperties"
  by (simp_all add: connection_decls)

lemma normal_disconnection [simp]: "NormalDisconnection \<in> set DisconnectReasonCode"
  by (simp add: DisconnectReasonCode_def)

lemma protocol_name_ok [simp]: "str_ok protocol_name"
  by (simp add: str_ok_def protocol_name_def utf8_valid_def utf8_valid_ascii)

lemma writes_opt:
  "opt_ok P x \<Longrightarrow> (\<And>y. P y \<Longrightarrow> writes (w y) (e y)) \<Longrightarrow>
    writes (w_seq (case x of None \<Rightarrow> [] | Some y \<Rightarrow> [w y])) (enc_opt e x)"
  by (cases x) (auto simp: opt_ok_def enc_opt_def simp del: w_seq.simps intro: writes_Nil writes_one)

lemma sizes_opt:
  "opt_ok P x \<Longrightarrow> (\<And>y. P y \<Longrightarrow> sizes (s y) (e y)) \<Longrightarrow>
    sizes (case x of None \<Rightarrow> Some 0 | Some y \<Rightarrow> s y) (enc_opt e x)"
  by (cases x) (auto simp: opt_ok_def enc_opt_def sizes_Nil)

text \<open>Comparing with empty properties never runs an iterator.\<close>

lemma props_eq_new:
  "length fs = length ks \<Longrightarrow> props_eq W fs (props_new ks) = Some (fs = props_new ks)"
  by (induction fs ks rule: list_induct2) (auto simp: props_new_def split: option.splits)

lemma props_ok_length: "props_ok W ks fs \<Longrightarrow> length fs = length ks"
  by (auto simp: props_ok_def list_all2_lengthD)

context winnow_spec begin

subsection \<open>The flags of CONNECT\<close>

lemma connect_bits_Cons:
  "p_bits W (connect_bits W) (b # r) =
    (case qos_try_from (bits_of b 3 2) of
       None \<Rightarrow> PErr Backtrack
     | Some q \<Rightarrow>
         if bits_of b 7 1 = 0
         then POk \<lparr>user_name_flag = bits_of b 0 1 \<noteq> 0, password_flag = bits_of b 1 1 \<noteq> 0,
           will_retain_flag = bits_of b 2 1 \<noteq> 0, will_qos_flag = q, will_flag = bits_of b 5 1 \<noteq> 0,
           clean_start_flag = bits_of b 6 1 \<noteq> 0\<rparr> r
         else PErr Backtrack)"
  by (cases "qos_try_from (bits_of b 3 2)")
    (simp_all add: connect_bits_def b_defs bits_bool bits_pattern bits_take_Cons bits_end numeral_eq_Suc)

lemma connect_bits_Nil: "p_bits W (connect_bits W) [] = PErr Backtrack"
  by (simp add: connect_bits_def b_defs bits_bool bits_take_Nil)

lemma connect_bits_strict: "parser_strict (p_bits W (connect_bits W))"
proof (rule parser_byI)
  show "strict_suffix r i" if "p_bits W (connect_bits W) i = POk x r" for i x r
    using that by (cases i) (auto simp: connect_bits_Cons connect_bits_Nil strict_suffix_def suffix_def
        split: option.splits if_splits)
  show "e = Backtrack \<or> e = Cut" if "p_bits W (connect_bits W) i = PErr e" for i e
    using that by (cases i) (auto simp: connect_bits_Cons connect_bits_Nil split: option.splits if_splits)
qed

lemma connect_flags_parse:
  "p_bits W (connect_bits W) (connect_flags c # r) =
    POk \<lparr>user_name_flag = con_username c \<noteq> None, password_flag = con_password c \<noteq> None,
      will_retain_flag = (case con_will c of None \<Rightarrow> False | Some w \<Rightarrow> will_retain w),
      will_qos_flag = (case con_will c of None \<Rightarrow> AtMostOnce | Some w \<Rightarrow> will_qos w),
      will_flag = con_will c \<noteq> None, clean_start_flag = con_clean_start c\<rparr> r"
proof (cases "con_will c")
  case None
  then show ?thesis
    by (cases "con_username c"; cases "con_password c"; cases "con_clean_start c")
      (simp_all add: connect_bits_Cons connect_flags_def bool_u8_def bits_of_def qos_try_from_def)
next
  case (Some w)
  then show ?thesis
    by (cases "con_username c"; cases "con_password c"; cases "con_clean_start c";
        cases "will_qos w"; cases "will_retain w")
      (simp_all add: connect_bits_Cons connect_flags_def bool_u8_def bits_of_def qos_try_from_def)
qed

lemma p_then_enc:
  assumes "\<And>y. x = Some y \<Longrightarrow> p (e y @ r) = POk (f y) r"
  shows "p_then (x \<noteq> None) p (enc_opt e x @ r) = POk (map_option f x) r"
  using assms by (cases x) (simp_all add: p_then_def p_defs enc_opt_def)

lemma p_then_ok: "parser_ok p \<Longrightarrow> parser_ok (p_then b p)"
  unfolding p_then_def by (intro parser_intros)

subsection \<open>CONNECT\<close>

lemma Will_parse_strict: "parser_strict (Will_parse W q b)"
  unfolding Will_parse_def
  by (intro parser_intros parser_strict_ok [OF parse_string_strict] parser_strict_ok [OF parse_binary_data_strict])

lemma Will_parse_enc:
  "will_ok W w \<Longrightarrow> Will_parse W (will_qos w) (will_retain w) (enc_will W w @ r) = POk (will_canon W w) r"
  by (simp add: Will_parse_def enc_will_def will_ok_def will_canon_def p_defs props.parse_enc
      str.parse_enc bin_data.parse_enc)

lemma Will_write_enc: "will_ok W w \<Longrightarrow> writes (Will_write W w) (enc_will W w)"
  unfolding Will_write_def enc_will_def will_ok_def
  by (intro writes_Cons writes_one) (auto intro: props.write_enc str.write_enc bin_data.write_enc)

lemma Will_size_enc: "will_ok W w \<Longrightarrow> sizes (Will_binary_size W w) (enc_will W w)"
  unfolding Will_binary_size_def enc_will_def will_ok_def
  by (intro sizes_sum_Cons sizes_one) (auto intro: props.size_enc str.size_enc bin_data.size_enc)

lemma Will_parse_sound:
  assumes "Will_parse W q b i = POk w r"
  shows "will_ok W w \<and> length (enc_will W w) + length r \<le> length i \<and> will_qos w = q \<and> will_retain w = b"
proof -
  obtain i1 i2 where "props_parse W ConnectWillProperties i = POk (will_properties w) i1"
    "parse_string W i1 = POk (will_topic w) i2" "parse_binary_data W i2 = POk (will_payload w) r"
    and "will_qos w = q \<and> will_retain w = b"
    using assms by (auto simp: Will_parse_def p_defs split: presult.splits)
  with props_parse_sound [of ConnectWillProperties i "will_properties w" i1]
    str.parse_sound [of i1 "will_topic w" i2] bin_data.parse_sound [of i2 "will_payload w" r]
  show ?thesis by (auto simp: will_ok_def enc_will_def simp del: length_enc_data)
qed

lemma ProtocolLevel_parse_Cons:
  "ProtocolLevel_parse W (b # r) =
    (if b = 3 then POk V3 r else if b = 5 then POk V5 r else PErr Backtrack)"
  by (simp add: ProtocolLevel_parse_def p_defs u8_Cons)

lemma ProtocolLevel_parse_strict: "parser_strict (ProtocolLevel_parse W)"
  unfolding ProtocolLevel_parse_def by (intro parser_intros)

lemma MConnect_parse_ok: "parser_ok (MConnect_parse W)"
  unfolding MConnect_parse_def
  by (intro parser_intros p_then_ok parser_strict_ok [OF parse_string_strict]
      parser_strict_ok [OF ProtocolLevel_parse_strict] parser_strict_ok [OF connect_bits_strict]
      parser_strict_ok [OF parse_u16_strict] parser_strict_ok [OF props_parse_strict]
      parser_strict_ok [OF Will_parse_strict] parser_strict_ok [OF parse_binary_data_strict])

lemma connect_will_enc:
  assumes "opt_ok (will_ok W) x"
  shows "p_then (x \<noteq> None) (Will_parse W (case x of None \<Rightarrow> AtMostOnce | Some w \<Rightarrow> will_qos w)
      (case x of None \<Rightarrow> False | Some w \<Rightarrow> will_retain w)) (enc_opt (enc_will W) x @ r) =
    POk (map_option (will_canon W) x) r"
  by (rule p_then_enc) (use assms in \<open>auto simp: opt_ok_def Will_parse_enc\<close>)

lemma connect_string_enc:
  "opt_ok str_ok x \<Longrightarrow> p_then (x \<noteq> None) (parse_string W) (enc_opt enc_data x @ r) = POk x r"
  using p_then_enc [of x "parse_string W" enc_data r "\<lambda>y. y"]
  by (simp add: opt_ok_def str.parse_enc option.map_ident split: option.splits)

lemma connect_data_enc:
  "opt_ok data_ok x \<Longrightarrow> p_then (x \<noteq> None) (parse_binary_data W) (enc_opt enc_data x @ r) = POk x r"
  using p_then_enc [of x "parse_binary_data W" enc_data r "\<lambda>y. y"]
  by (simp add: opt_ok_def bin_data.parse_enc option.map_ident split: option.splits)

lemma MConnect_parse_enc:
  assumes "connect_ok W c"
  shows "MConnect_parse W (enc_connect W c @ r) = POk (connect_canon W c) r"
proof -
  note ok = assms [unfolded connect_ok_def]
  have "MConnect_parse W (enc_connect W c @ r) =
    POk \<lparr>con_client_identifier = con_client_identifier c, con_username = con_username c,
      con_password = con_password c, con_clean_start = con_clean_start c,
      con_will = map_option (will_canon W) (con_will c),
      con_properties = props_canon W (con_properties c), con_keep_alive = con_keep_alive c\<rparr> r"
    using ok connect_will_enc [of "con_will c"] connect_string_enc [of "con_username c"]
      connect_data_enc [of "con_password c" r]
    by (simp add: MConnect_parse_def enc_connect_def p_bind_def p_verify_def p_return_def str.parse_enc
        ProtocolLevel_parse_Cons connect_flags_parse u16.parse_enc props.parse_enc)
  then show ?thesis by (simp add: connect_canon_def)
qed

lemma MConnect_write_enc:
  assumes "connect_ok W c"
  shows "writes (MConnect_write W c) (enc_connect W c)"
proof -
  note ok = assms [unfolded connect_ok_def]
  have "writes (w_seq [write_string protocol_name, ProtocolLevel_write V5, write_byte (connect_flags c),
       w_u16 (con_keep_alive c), props_write W (con_properties c), write_string (con_client_identifier c)])
     (enc_data protocol_name @ [5] @ [connect_flags c] @ enc_u16 (con_keep_alive c) @
     enc_props W (con_properties c) @ enc_data (con_client_identifier c))"
    using ok
    by (intro writes_Cons writes_one)
      (auto simp: ProtocolLevel_write_def intro: props.write_enc str.write_enc writes_byte writes_w_u16)
  moreover have "writes (w_seq (case con_will c of None \<Rightarrow> [] | Some w \<Rightarrow> [Will_write W w]))
      (enc_opt (enc_will W) (con_will c))"
    using ok by (intro writes_opt [of "will_ok W"] Will_write_enc) simp_all
  moreover have "writes (w_seq (case con_username c of None \<Rightarrow> [] | Some w \<Rightarrow> [write_string w]))
      (enc_opt enc_data (con_username c))"
    using ok by (intro writes_opt [of str_ok] str.write_enc) simp_all
  moreover have "writes (w_seq (case con_password c of None \<Rightarrow> [] | Some w \<Rightarrow> [write_binary_data w]))
      (enc_opt enc_data (con_password c))"
    using ok by (intro writes_opt [of data_ok] bin_data.write_enc) simp_all
  ultimately have "writes (MConnect_write W c)
     ((enc_data protocol_name @ [5] @ [connect_flags c] @ enc_u16 (con_keep_alive c) @
     enc_props W (con_properties c) @ enc_data (con_client_identifier c)) @
     enc_opt (enc_will W) (con_will c) @ enc_opt enc_data (con_username c) @ enc_opt enc_data (con_password c))"
    unfolding MConnect_write_def by (intro writes_append)
  then show ?thesis by (simp add: enc_connect_def)
qed

lemma MConnect_size_enc:
  assumes "connect_ok W c"
  shows "sizes (MConnect_binary_size W c) (enc_connect W c)"
proof -
  note ok = assms [unfolded connect_ok_def]
  have "sizes (MConnect_binary_size W c)
     (enc_data protocol_name @ [5] @ [connect_flags c] @ enc_u16 (con_keep_alive c) @
     enc_props W (con_properties c) @ enc_data (con_client_identifier c) @
     enc_opt (enc_will W) (con_will c) @ enc_opt enc_data (con_username c) @ enc_opt enc_data (con_password c))"
    unfolding MConnect_binary_size_def
    by (intro sizes_sum_Cons sizes_one sizes_opt [of "will_ok W"] sizes_opt [of str_ok] sizes_opt [of data_ok])
      (use ok in \<open>auto simp: sizes_def [of "Some _"] protocol_name_def
        intro: props.size_enc str.size_enc bin_data.size_enc Will_size_enc\<close>)
  then show ?thesis by (simp add: enc_connect_def)
qed

lemma p_then_sound:
  assumes "p_then b p i = POk x r" and "\<And>y r. p i = POk y r \<Longrightarrow> P y \<and> length (e y) + length r \<le> length i"
  shows "opt_ok P x \<and> length (enc_opt e x) + length r \<le> length i"
  using assms by (auto simp: p_then_def p_defs opt_ok_def enc_opt_def split: if_splits presult.splits)

lemma MConnect_parse_sound:
  assumes "MConnect_parse W i = POk c r"
  shows "connect_ok W c \<and> length (enc_connect W c) + length r \<le> length i"
proof -
  obtain i1 i2 i3 i4 i5 i6 i7 i8 f where
    1: "parse_string W i = POk protocol_name i1" and
    2: "ProtocolLevel_parse W i1 = POk V5 i2" and
    3: "p_bits W (connect_bits W) i2 = POk f i3" and
    4: "parse_u16 W i3 = POk (con_keep_alive c) i4" and
    5: "props_parse W ConnectProperties i4 = POk (con_properties c) i5" and
    6: "parse_string W i5 = POk (con_client_identifier c) i6" and
    7: "p_then (will_flag f) (Will_parse W (will_qos_flag f) (will_retain_flag f)) i6 = POk (con_will c) i7" and
    8: "p_then (user_name_flag f) (parse_string W) i7 = POk (con_username c) i8" and
    9: "p_then (password_flag f) (parse_binary_data W) i8 = POk (con_password c) r"
    using assms
    by (auto simp: MConnect_parse_def p_bind_def p_verify_def p_return_def split: presult.splits if_splits)
  have "length i2 < length i1" by (rule parser_strict_length [OF ProtocolLevel_parse_strict 2])
  moreover have "length i3 < length i2" by (rule parser_strict_length [OF connect_bits_strict 3])
  moreover have "opt_ok (will_ok W) (con_will c) \<and>
      length (enc_opt (enc_will W) (con_will c)) + length i7 \<le> length i6"
    by (rule p_then_sound [OF 7]) (auto dest: Will_parse_sound)
  moreover have "opt_ok str_ok (con_username c) \<and>
      length (enc_opt enc_data (con_username c)) + length i8 \<le> length i7"
    by (rule p_then_sound [OF 8 str.parse_sound])
  moreover have "opt_ok data_ok (con_password c) \<and>
      length (enc_opt enc_data (con_password c)) + length r \<le> length i8"
    by (rule p_then_sound [OF 9 bin_data.parse_sound])
  ultimately show ?thesis
    using str.parse_sound [OF 1] u16.parse_sound [OF 4] props_parse_sound [OF 5] str.parse_sound [OF 6]
    by (simp add: connect_ok_def enc_connect_def del: length_enc_data)
qed

lemma Will_eq_canon: "will_ok W w \<Longrightarrow> Will_eq W w (will_canon W w) = Some True"
  by (auto simp: Will_eq_def will_canon_def will_ok_def dest: props_eq_ok)

lemma MConnect_eq_canon:
  assumes "connect_ok W c"
  shows "MConnect_eq W c (connect_canon W c) = Some True"
proof -
  have "props_eq W (con_properties c) (props_canon W (con_properties c)) = Some True"
    using assms by (auto simp: connect_ok_def dest: props_eq_ok)
  with assms show ?thesis
    by (cases "con_will c") (auto simp: MConnect_eq_def connect_canon_def connect_ok_def opt_ok_def Will_eq_canon)
qed

subsection \<open>CONNACK\<close>

lemma connack_bits_Cons:
  "p_bits W (b_bind (win_bits_take W 1) (\<lambda>b. b_bind (win_bits_pattern W 0 7) (\<lambda>_. b_return (b = 1))))
     (b # r) = (if bits_of b 1 7 = 0 then POk (bits_of b 0 1 = 1) r else PErr Backtrack)"
  by (simp add: b_defs bits_pattern bits_take_Cons bits_end)

lemma connack_bits_Nil:
  "p_bits W (b_bind (win_bits_take W 1) (\<lambda>b. b_bind (win_bits_pattern W 0 7) (\<lambda>_. b_return (b = 1))))
     [] = PErr Backtrack"
  by (simp add: b_defs bits_take_Nil)

lemma connack_bits_strict:
  "parser_strict (p_bits W (b_bind (win_bits_take W 1) (\<lambda>b. b_bind (win_bits_pattern W 0 7) (\<lambda>_. b_return (b = 1)))))"
  (is "parser_strict ?p")
proof (rule parser_byI)
  show "strict_suffix r i" if "?p i = POk x r" for i x r
    using that by (cases i) (auto simp: connack_bits_Cons connack_bits_Nil strict_suffix_def suffix_def
        simp del: One_nat_def split: if_splits)
  show "e = Backtrack \<or> e = Cut" if "?p i = PErr e" for i e
    using that by (cases i) (auto simp: connack_bits_Cons connack_bits_Nil simp del: One_nat_def split: if_splits)
qed

lemma MConnack_parse_ok: "parser_ok (MConnack_parse W)"
  unfolding MConnack_parse_def
  by (intro parser_intros parser_strict_ok [OF connack_bits_strict] parser_strict_ok [OF reason_parse_strict]
      parser_strict_ok [OF props_parse_strict])

lemma connack_flag:
  "bits_of (push_bit 7 (bool_u8 b)) 1 7 = 0" "bits_of (push_bit 7 (bool_u8 b)) 0 1 = 1 \<longleftrightarrow> b"
  by (cases b; simp add: bits_of_def bool_u8_def)+

lemma MConnack_parse_enc:
  "connack_ok W c \<Longrightarrow> MConnack_parse W (enc_connack W c @ r) = POk (connack_canon W c) r"
  by (simp add: MConnack_parse_def p_bind_def p_return_def enc_connack_def connack_bits_Cons connack_flag
      connack_ok_def connack_canon_def reason_parse_enc props.parse_enc del: One_nat_def)

lemma MConnack_write_enc: "connack_ok W c \<Longrightarrow> writes (MConnack_write W c) (enc_connack W c)"
  unfolding MConnack_write_def enc_connack_def connack_ok_def
  by (intro writes_Cons writes_one) (auto intro: writes_byte writes_reason props.write_enc)

lemma MConnack_size_enc: "connack_ok W c \<Longrightarrow> sizes (MConnack_binary_size W c) (enc_connack W c)"
  unfolding MConnack_binary_size_def enc_connack_def connack_ok_def
  by (intro sizes_sum_Cons sizes_one) (auto simp: sizes_def [of "Some 1"] intro: reason.size_enc props.size_enc)

lemma MConnack_parse_sound:
  assumes "MConnack_parse W i = POk c r"
  shows "connack_ok W c \<and> length (enc_connack W c) + length r \<le> length i"
proof -
  obtain i1 i2 where
    1: "p_bits W (b_bind (win_bits_take W 1) (\<lambda>b. b_bind (win_bits_pattern W 0 7) (\<lambda>_. b_return (b = 1)))) i
      = POk (connack_session_present c) i1" and
    2: "reason_parse W ConnackReasonCode i1 = POk (connack_reason_code c) i2" and
    3: "props_parse W ConnackProperties i2 = POk (connack_properties c) r"
    using assms by (auto simp: MConnack_parse_def p_bind_def p_return_def split: presult.splits)
  have "length i1 < length i" by (rule parser_strict_length [OF connack_bits_strict 1])
  with reason_parse_POk [OF 2] props_parse_sound [OF 3] show ?thesis
    by (simp add: connack_ok_def enc_connack_def reason_ok_def)
qed

lemma MConnack_eq_canon: "connack_ok W c \<Longrightarrow> MConnack_eq W c (connack_canon W c) = Some True"
  by (auto simp: MConnack_eq_def connack_canon_def connack_ok_def dest: props_eq_ok)

subsection \<open>DISCONNECT\<close>

lemma MDisconnect_parse_ok: "parser_ok (MDisconnect_parse W)"
  unfolding MDisconnect_parse_def
  by (intro parser_intros parser_strict_ok [OF reason_parse_strict] parser_strict_ok [OF props_parse_strict])

lemma is_short_packet_iff:
  "disconnect_ok W d \<Longrightarrow> is_short_packet W d =
    Some (dis_reason_code d = NormalDisconnection \<and> dis_properties d = props_new DisconnectProperties)"
  by (auto simp: is_short_packet_def disconnect_ok_def props_eq_new props_ok_length)

lemma props_canon_new: "props_canon W (props_new ks) = props_new ks"
  by (induction ks) (simp_all add: props_new_def)

lemma MDisconnect_parse_enc:
  assumes "disconnect_ok W d"
  shows "MDisconnect_parse W (enc_disconnect W d) = POk (disconnect_canon W d) []"
proof (cases "dis_reason_code d = NormalDisconnection \<and> dis_properties d = props_new DisconnectProperties")
  case True
  then show ?thesis
    by (cases d) (simp add: MDisconnect_parse_def p_defs enc_disconnect_def disconnect_canon_def props_canon_new)
next
  case False
  then have "enc_disconnect W d = CODE (dis_reason_code d) # enc_props W (dis_properties d) @ []"
    by (auto simp: enc_disconnect_def)
  then show ?thesis
    using assms reason_parse_enc [of DisconnectReasonCode "dis_reason_code d"]
      props.parse_enc [of DisconnectProperties "dis_properties d" "[]"]
    by (simp add: MDisconnect_parse_def p_defs disconnect_canon_def disconnect_ok_def)
qed

lemma MDisconnect_write_enc:
  assumes "disconnect_ok W d"
  shows "writes (MDisconnect_write W d) (enc_disconnect W d)"
proof -
  have "writes (w_seq [reason_write (dis_reason_code d), props_write W (dis_properties d)])
      ([CODE (dis_reason_code d)] @ enc_props W (dis_properties d))"
    using assms unfolding disconnect_ok_def
    by (intro writes_Cons writes_one) (auto intro: writes_reason props.write_enc)
  then show ?thesis
    using is_short_packet_iff [OF assms]
    by (auto simp: MDisconnect_write_def enc_disconnect_def writes_Nil simp del: w_seq.simps split: bool.split)
qed

lemma MDisconnect_size_enc:
  assumes "disconnect_ok W d"
  shows "sizes (MDisconnect_binary_size W d) (enc_disconnect W d)"
proof -
  have "sizes (s_add (reason_binary_size (dis_reason_code d)) (props_binary_size W (dis_properties d)))
      ([CODE (dis_reason_code d)] @ enc_props W (dis_properties d))"
    using assms unfolding disconnect_ok_def
    by (intro sizes_add) (auto intro: reason.size_enc props.size_enc)
  then show ?thesis
    using is_short_packet_iff [OF assms]
    by (auto simp: MDisconnect_binary_size_def enc_disconnect_def sizes_Nil split: bool.split)
qed

lemma MDisconnect_parse_sound:
  assumes "fits i" and "MDisconnect_parse W i = POk d r"
  shows "disconnect_ok W d \<and> fits (enc_disconnect W d)"
proof -
  obtain i2 where
    c: "i = [] \<and> dis_reason_code d = NormalDisconnection \<and> i2 = [] \<or>
      reason_parse W DisconnectReasonCode i = POk (dis_reason_code d) i2" and
    ps: "i2 = [] \<and> dis_properties d = props_new DisconnectProperties \<or>
      props_parse W DisconnectProperties i2 = POk (dis_properties d) r"
    using assms(2)
    by (simp add: MDisconnect_parse_def p_defs split: presult.splits if_splits)
      (metis MDisconnect.select_convs)+
  have "dis_reason_code d \<in> set DisconnectReasonCode" "i = [] \<or> Suc (length i2) \<le> length i"
    using c by (auto dest: reason_parse_POk)
  moreover have "props_ok W DisconnectProperties (dis_properties d)"
    "length (enc_props W (dis_properties d)) \<le> max 1 (length i2)"
    using ps props_parse_sound [of DisconnectProperties i2 "dis_properties d" r] by auto
  moreover have "i = [] \<longrightarrow> i2 = []" using c by (auto dest: reason_parse_POk)
  ultimately show ?thesis
    using assms(1) by (auto simp: disconnect_ok_def reason_ok_def enc_disconnect_def fits_def)
qed

lemma MDisconnect_eq_canon: "disconnect_ok W d \<Longrightarrow> MDisconnect_eq W d (disconnect_canon W d) = Some True"
  by (auto simp: MDisconnect_eq_def disconnect_canon_def disconnect_ok_def dest: props_eq_ok)

subsection \<open>AUTH\<close>

lemma MAuth_parse_ok: "parser_ok (MAuth_parse W)"
  unfolding MAuth_parse_def
  by (intro parser_intros parser_strict_ok [OF reason_parse_strict] parser_strict_ok [OF props_parse_strict])

lemma MAuth_parse_enc: "auth_ok W a \<Longrightarrow> MAuth_parse W (enc_auth W a @ r) = POk (auth_canon W a) r"
  by (simp add: MAuth_parse_def p_bind_def p_return_def enc_auth_def auth_ok_def auth_canon_def
      reason_parse_enc props.parse_enc)

lemma MAuth_write_enc: "auth_ok W a \<Longrightarrow> writes (MAuth_write W a) (enc_auth W a)"
  unfolding MAuth_write_def enc_auth_def auth_ok_def
  by (intro writes_Cons writes_one) (auto intro: writes_reason props.write_enc)

lemma MAuth_size_enc: "auth_ok W a \<Longrightarrow> sizes (MAuth_binary_size W a) (enc_auth W a)"
  unfolding MAuth_binary_size_def enc_auth_def auth_ok_def
  by (intro sizes_add) (auto intro: reason.size_enc props.size_enc)

lemma MAuth_parse_sound:
  assumes "MAuth_parse W i = POk a r"
  shows "auth_ok W a \<and> length (enc_auth W a) + length r \<le> length i"
proof -
  obtain i2 where "reason_parse W AuthReasonCode i = POk (auth_reason a) i2"
    "props_parse W AuthProperties i2 = POk (auth_properties a) r"
    using assms by (auto simp: MAuth_parse_def p_bind_def p_return_def split: presult.splits)
  with reason_parse_POk [of AuthReasonCode i "auth_reason a" i2]
    props_parse_sound [of AuthProperties i2 "auth_properties a" r]
  show ?thesis by (auto simp: auth_ok_def enc_auth_def reason_ok_def)
qed

lemma MAuth_eq_canon: "auth_ok W a \<Longrightarrow> MAuth_eq W a (auth_canon W a) = Some True"
  by (auto simp: MAuth_eq_def auth_canon_def auth_ok_def dest: props_eq_ok)

end

section \<open>The codecs\<close>

sublocale winnow_spec \<subseteq> will:
  codec "Will_parse W q b" "Will_write W" "Will_binary_size W" "enc_will W"
    "\<lambda>w. will_ok W w \<and> will_qos w = q \<and> will_retain w = b" "will_canon W" for q b
proof
  show "Will_parse W q b (enc_will W w @ r) = POk (will_canon W w) r"
    if "will_ok W w \<and> will_qos w = q \<and> will_retain w = b" for w r
    using that Will_parse_enc [of w r] by auto
qed (auto simp: Will_write_enc Will_size_enc)

sublocale winnow_spec \<subseteq> connect:
  checked_codec "MConnect_parse W" "MConnect_write W" "MConnect_binary_size W" "enc_connect W"
    "connect_ok W" "connect_canon W"
  by unfold_locales (simp_all add: MConnect_parse_enc MConnect_write_enc MConnect_size_enc MConnect_parse_sound)

sublocale winnow_spec \<subseteq> connack:
  checked_codec "MConnack_parse W" "MConnack_write W" "MConnack_binary_size W" "enc_connack W"
    "connack_ok W" "connack_canon W"
  by unfold_locales (simp_all add: MConnack_parse_enc MConnack_write_enc MConnack_size_enc MConnack_parse_sound)

sublocale winnow_spec \<subseteq> disconnect:
  checked_body_codec "MDisconnect_parse W" "MDisconnect_write W" "MDisconnect_binary_size W"
    "enc_disconnect W" "disconnect_ok W" "disconnect_canon W"
  by unfold_locales
    (simp_all add: MDisconnect_parse_enc MDisconnect_write_enc MDisconnect_size_enc MDisconnect_parse_sound)

sublocale winnow_spec \<subseteq> auth:
  checked_codec "MAuth_parse W" "MAuth_write W" "MAuth_binary_size W" "enc_auth W" "auth_ok W" "auth_canon W"
  by unfold_locales (simp_all add: MAuth_parse_enc MAuth_write_enc MAuth_size_enc MAuth_parse_sound)

sublocale winnow_spec \<subseteq> pingreq:
  checked_body_codec "MPingreq_parse W" MPingreq_write MPingreq_binary_size "\<lambda>_. []" "\<lambda>_. True" "\<lambda>p. p"
  by unfold_locales
    (simp_all add: MPingreq_parse_def p_map_def eof MPingreq_write_def writes_def MPingreq_binary_size_def
      sizes_def fits_def, metis MPingreq.exhaust)

sublocale winnow_spec \<subseteq> pingresp:
  checked_body_codec "MPingresp_parse W" MPingresp_write MPingresp_binary_size "\<lambda>_. []" "\<lambda>_. True" "\<lambda>p. p"
  by unfold_locales
    (simp_all add: MPingresp_parse_def p_map_def eof MPingresp_write_def writes_def MPingresp_binary_size_def
      sizes_def fits_def, metis MPingresp.exhaust)

end
