(* ===== verification/Publish.thy ===== *)
theory Publish
  imports Connection
begin

text \<open>\<open>v5/packets/publish.rs\<close>.\<close>

definition PublishProperties :: decl where
  "PublishProperties = [
     PayloadFormatIndicator_K, MessageExpiryInterval_K, TopicAlias_K, ResponseTopic_K,
     CorrelationData_K, UserProperties_K, SubscriptionIdentifier_K, ContentType_K]"

record MPublish =
  pub_duplicate :: bool
  pub_quality_of_service :: QualityOfService
  pub_retain :: bool
  pub_topic_name :: rstr
  pub_packet_identifier :: "PacketIdentifier option"
  pub_properties :: props
  pub_payload :: bytes

text \<open>\<open>chars().all(|c| c != '#' && c != '*')\<close>, on the scalar values of the string.\<close>

definition sanity_check_topic_name :: "rstr \<Rightarrow> bool" where
  "sanity_check_topic_name topic_name =
     list_all (\<lambda>c. c \<noteq> 0x23 \<and> c \<noteq> 0x2A) (the (utf8_chars topic_name))"

definition MPublish_parse :: "winnow \<Rightarrow> bool \<Rightarrow> QualityOfService \<Rightarrow> bool \<Rightarrow> MPublish parser" where
  "MPublish_parse W duplicate quality_of_service retain =
     p_bind (parse_string W) (\<lambda>topic_name.
     if \<not> sanity_check_topic_name topic_name then p_fail Backtrack
     else
       p_bind (if quality_of_service \<noteq> AtMostOnce then p_map Some (PacketIdentifier_parse W)
               else p_return None) (\<lambda>packet_identifier.
       p_bind (props_parse W PublishProperties) (\<lambda>properties.
       p_bind p_finish (\<lambda>payload.
       p_return \<lparr>pub_duplicate = duplicate, pub_quality_of_service = quality_of_service,
         pub_retain = retain, pub_topic_name = topic_name, pub_packet_identifier = packet_identifier,
         pub_properties = properties, pub_payload = payload\<rparr>))))"

definition MPublish_binary_size :: "winnow \<Rightarrow> MPublish \<Rightarrow> u32 option" where
  "MPublish_binary_size W p =
     s_sum [string_binary_size (pub_topic_name p),
       (case pub_packet_identifier p of None \<Rightarrow> Some 0 | Some pi \<Rightarrow> PacketIdentifier_binary_size pi),
       props_binary_size W (pub_properties p), Some (word_of_nat (length (pub_payload p)))]"

definition MPublish_write :: "winnow \<Rightarrow> MPublish \<Rightarrow> writer" where
  "MPublish_write W p =
     w_seq ([write_string (pub_topic_name p)]
       @ (if pub_quality_of_service p = AtMostOnce \<and> pub_packet_identifier p \<noteq> None
          then [w_fail Invariant] else [])
       @ (case pub_packet_identifier p of None \<Rightarrow> [] | Some pi \<Rightarrow> [PacketIdentifier_write pi])
       @ [props_write W (pub_properties p), write_slice (pub_payload p)])"

definition MPublish_eq :: "winnow \<Rightarrow> MPublish \<Rightarrow> MPublish \<Rightarrow> bool option" where
  "MPublish_eq W a b =
     (if pub_duplicate a = pub_duplicate b \<and> pub_quality_of_service a = pub_quality_of_service b \<and>
         pub_retain a = pub_retain b \<and> pub_topic_name a = pub_topic_name b \<and>
         pub_packet_identifier a = pub_packet_identifier b
      then (case props_eq W (pub_properties a) (pub_properties b) of
              None \<Rightarrow> None
            | Some e \<Rightarrow> Some (e \<and> pub_payload a = pub_payload b))
      else Some False)"

lemmas publish_defs [defs] =
  sanity_check_topic_name_def MPublish_parse_def MPublish_binary_size_def MPublish_write_def
  MPublish_eq_def

section \<open>Layout\<close>

definition enc_publish :: "winnow \<Rightarrow> MPublish \<Rightarrow> bytes" where
  "enc_publish W p =
     enc_data (pub_topic_name p) @ enc_opt enc_u16 (pub_packet_identifier p) @
     enc_props W (pub_properties p) @ pub_payload p"

text \<open>The packet has an identifier exactly when its level of service needs one.\<close>

definition publish_ok :: "winnow \<Rightarrow> MPublish \<Rightarrow> bool" where
  "publish_ok W p \<longleftrightarrow>
     str_ok (pub_topic_name p) \<and> sanity_check_topic_name (pub_topic_name p) \<and>
     (pub_packet_identifier p = None \<longleftrightarrow> pub_quality_of_service p = AtMostOnce) \<and>
     opt_ok (\<lambda>pi. pi \<noteq> 0) (pub_packet_identifier p) \<and> props_ok W PublishProperties (pub_properties p)"

definition publish_canon :: "winnow \<Rightarrow> MPublish \<Rightarrow> MPublish" where
  "publish_canon W p = p\<lparr>pub_properties := props_canon W (pub_properties p)\<rparr>"

section \<open>Lemmas\<close>

lemma publish_decl_distinct [simp]: "distinct PublishProperties"
  by (simp add: PublishProperties_def)

text \<open>On a string, the check looks for two bytes.\<close>

lemma sanity_check_bytes:
  assumes "utf8_valid s"
  shows "sanity_check_topic_name s \<longleftrightarrow> 0x23 \<notin> set s \<and> 0x2A \<notin> set s"
proof -
  obtain cs where cs: "utf8_chars s = Some cs" using assms by (auto simp: utf8_valid_def)
  have "0x23 \<in> set cs \<longleftrightarrow> 0x23 \<in> set s" "0x2A \<in> set cs \<longleftrightarrow> 0x2A \<in> set s"
    using utf8_chars_ascii_mem [OF cs, of "0x23"] utf8_chars_ascii_mem [OF cs, of "0x2A"] by simp_all
  then show ?thesis by (auto simp: sanity_check_topic_name_def cs list_all_iff)
qed

context winnow_spec begin

lemma MPublish_parse_ok: "parser_ok (MPublish_parse W d q b)"
  unfolding MPublish_parse_def PacketIdentifier_parse_def
  by (intro parser_intros parser_strict_ok [OF parse_string_strict] parser_strict_ok [OF props_parse_strict]
      parser_strict_ok [OF parse_u16_nonzero_strict])

lemma MPublish_parse_enc:
  assumes "publish_ok W p"
  shows "MPublish_parse W (pub_duplicate p) (pub_quality_of_service p) (pub_retain p) (enc_publish W p) =
    POk (publish_canon W p) []"
proof -
  note ok = assms [unfolded publish_ok_def]
  have "(if pub_quality_of_service p \<noteq> AtMostOnce then p_map Some (PacketIdentifier_parse W)
      else p_return None) (enc_opt enc_u16 (pub_packet_identifier p) @ r) = POk (pub_packet_identifier p) r" for r
    using ok by (cases "pub_packet_identifier p")
      (simp_all add: p_return_def enc_opt_def p_map_def packet_id.parse_enc opt_ok_def)
  then show ?thesis
    using ok by (simp add: MPublish_parse_def enc_publish_def p_bind_def str.parse_enc props.parse_enc
        p_finish_def p_return_def publish_canon_def)
qed

lemma MPublish_write_enc:
  assumes "publish_ok W p"
  shows "writes (MPublish_write W p) (enc_publish W p)"
proof -
  note ok = assms [unfolded publish_ok_def]
  have "writes (w_seq (case pub_packet_identifier p of None \<Rightarrow> [] | Some pi \<Rightarrow> [PacketIdentifier_write pi]))
      (enc_opt enc_u16 (pub_packet_identifier p))"
    using ok by (intro writes_opt [of "\<lambda>pi. pi \<noteq> 0"] packet_id.write_enc) simp_all
  moreover have "writes (w_seq [props_write W (pub_properties p), write_slice (pub_payload p)])
      (enc_props W (pub_properties p) @ pub_payload p)"
    using ok by (intro writes_Cons writes_one) (auto intro: props.write_enc writes_slice)
  moreover have "writes (w_seq [write_string (pub_topic_name p)]) (enc_data (pub_topic_name p))"
    using ok by (intro writes_one str.write_enc) simp
  moreover have "MPublish_write W p = w_seq ([write_string (pub_topic_name p)]
       @ (case pub_packet_identifier p of None \<Rightarrow> [] | Some pi \<Rightarrow> [PacketIdentifier_write pi])
       @ [props_write W (pub_properties p), write_slice (pub_payload p)])"
    using ok by (auto simp: MPublish_write_def simp del: w_seq.simps)
  ultimately show ?thesis unfolding enc_publish_def by (simp only:) (intro writes_append)
qed

lemma MPublish_size_enc: "publish_ok W p \<Longrightarrow> sizes (MPublish_binary_size W p) (enc_publish W p)"
  unfolding MPublish_binary_size_def enc_publish_def publish_ok_def
  by (intro sizes_sum_Cons sizes_one sizes_opt [of "\<lambda>pi. pi \<noteq> 0"])
    (auto simp: sizes_def [of "Some _"] intro: str.size_enc packet_id.size_enc props.size_enc)

lemma MPublish_parse_sound:
  assumes "MPublish_parse W d q b i = POk p r"
  shows "publish_ok W p \<and> pub_duplicate p = d \<and> pub_quality_of_service p = q \<and> pub_retain p = b \<and>
    length (enc_publish W p) + length r \<le> length i"
proof -
  obtain i1 i2 i3 where
    1: "parse_string W i = POk (pub_topic_name p) i1" and
    2: "(if q \<noteq> AtMostOnce then p_map Some (PacketIdentifier_parse W) else p_return None) i1 =
      POk (pub_packet_identifier p) i2" and
    3: "props_parse W PublishProperties i2 = POk (pub_properties p) i3" and
    4: "pub_payload p = i3" "r = []" "sanity_check_topic_name (pub_topic_name p)"
      "pub_duplicate p = d" "pub_quality_of_service p = q" "pub_retain p = b"
    using assms
    by (auto simp: MPublish_parse_def p_bind_def p_return_def p_fail_def p_finish_def
        split: presult.splits if_splits)
  have "opt_ok (\<lambda>pi. pi \<noteq> 0) (pub_packet_identifier p) \<and>
      length (enc_opt enc_u16 (pub_packet_identifier p)) + length i2 \<le> length i1 \<and>
      (pub_packet_identifier p = None \<longleftrightarrow> q = AtMostOnce)"
    using 2 by (auto simp: p_map_POk opt_ok_def enc_opt_def p_return_def dest!: packet_id.parse_sound
        split: if_splits)
  then show ?thesis
    using str.parse_sound [OF 1] props_parse_sound [OF 3] 4
    by (simp add: publish_ok_def enc_publish_def del: length_enc_data)
qed

lemma MPublish_eq_canon: "publish_ok W p \<Longrightarrow> MPublish_eq W p (publish_canon W p) = Some True"
  by (auto simp: MPublish_eq_def publish_canon_def publish_ok_def dest: props_eq_ok)

end

section \<open>The codec\<close>

sublocale winnow_spec \<subseteq> publish:
  checked_body_codec "MPublish_parse W d q b" "MPublish_write W" "MPublish_binary_size W" "enc_publish W"
    "\<lambda>p. publish_ok W p \<and> pub_duplicate p = d \<and> pub_quality_of_service p = q \<and> pub_retain p = b"
    "publish_canon W" for d q b
proof
  fix p i r
  assume "publish_ok W p \<and> pub_duplicate p = d \<and> pub_quality_of_service p = q \<and> pub_retain p = b"
  then show "MPublish_parse W d q b (enc_publish W p) = POk (publish_canon W p) []"
    using MPublish_parse_enc [of p] by auto
next
  fix p i r
  assume "fits i" and "MPublish_parse W d q b i = POk p r"
  then show "(publish_ok W p \<and> pub_duplicate p = d \<and> pub_quality_of_service p = q \<and> pub_retain p = b) \<and>
      fits (enc_publish W p)"
    using MPublish_parse_sound [of d q b i p r] fits_le [of i "enc_publish W p"] by auto
qed (auto simp: MPublish_write_enc MPublish_size_enc)

context winnow_spec begin

text \<open>What is accepted: topic, identifier, properties, and the rest as the payload.\<close>

lemma identifier_POk:
  "PacketIdentifier_parse W i = POk u r \<longleftrightarrow> i = enc_u16 u @ r \<and> u \<noteq> 0"
proof
  assume p: "PacketIdentifier_parse W i = POk u r"
  then show "i = enc_u16 u @ r \<and> u \<noteq> 0"
    by (cases rule: be_u16_cases [of i])
      (auto simp: PacketIdentifier_parse_def parse_u16_nonzero_def p_try_map_def enc_u16_word_cat split: if_splits)
qed (simp add: packet_id.parse_enc)

lemma opt_identifier_POk:
  "(if q \<noteq> AtMostOnce then p_map Some (PacketIdentifier_parse W) else p_return None) i = POk x r \<longleftrightarrow>
    i = enc_opt enc_u16 x @ r \<and> (x = None) = (q = AtMostOnce) \<and> x \<noteq> Some 0"
  by (cases x) (auto simp: p_return_def p_map_POk identifier_POk enc_opt_def)

lemma MPublish_parse_exact:
  "MPublish_parse W d q b i = POk p r \<longleftrightarrow>
    (\<exists>rest. i = enc_data (pub_topic_name p) @ enc_opt enc_u16 (pub_packet_identifier p) @ rest \<and>
       props_parse W PublishProperties rest = POk (pub_properties p) (pub_payload p)) \<and>
    str_ok (pub_topic_name p) \<and> sanity_check_topic_name (pub_topic_name p) \<and>
    (pub_packet_identifier p = None) = (q = AtMostOnce) \<and> pub_packet_identifier p \<noteq> Some 0 \<and>
    pub_duplicate p = d \<and> pub_quality_of_service p = q \<and> pub_retain p = b \<and> r = []"
  (is "?L \<longleftrightarrow> ?R")
proof
  assume ?L
  then obtain i1 i2 where "parse_string W i = POk (pub_topic_name p) i1"
    and "(if q \<noteq> AtMostOnce then p_map Some (PacketIdentifier_parse W) else p_return None) i1 =
      POk (pub_packet_identifier p) i2"
    and "props_parse W PublishProperties i2 = POk (pub_properties p) (pub_payload p)"
    and "r = []" "sanity_check_topic_name (pub_topic_name p)"
      "pub_duplicate p = d" "pub_quality_of_service p = q" "pub_retain p = b"
    by (auto simp: MPublish_parse_def p_bind_def p_return_def p_fail_def p_finish_def
        split: presult.splits if_splits)
  then show ?R unfolding opt_identifier_POk by (auto dest!: parse_string_POk)
next
  assume r: ?R
  then obtain rest where i: "i = enc_data (pub_topic_name p) @ enc_opt enc_u16 (pub_packet_identifier p) @ rest"
    and ps: "props_parse W PublishProperties rest = POk (pub_properties p) (pub_payload p)" by blast
  have "(if q \<noteq> AtMostOnce then p_map Some (PacketIdentifier_parse W) else p_return None)
      (enc_opt enc_u16 (pub_packet_identifier p) @ rest) = POk (pub_packet_identifier p) rest"
    using r by (simp add: opt_identifier_POk)
  with r ps show ?L
    by (cases p) (simp add: i MPublish_parse_def p_bind_def parse_string_enc p_finish_def p_return_def)
qed

end

section \<open>Properties\<close>

text \<open>
  C21. The body of a PUBLISH is accepted exactly if it is a topic name with its length
  in front, well-formed UTF-8 without the bytes of \<open>#\<close> and \<open>*\<close> (the check means to refuse
  wildcards, which are \<open>#\<close> and \<open>+\<close>); then the two bytes of a packet identifier that is not 0,
  exactly if the quality of service is not 0; then a section of properties of a PUBLISH. The payload is all
  that is left behind the properties, and nothing of the packet is left unread.
\<close>

theorem publish_parse_wellformed:
  assumes "winnow_spec W"
  shows "(MPublish_parse W d q b i = POk p r) =
    ((\<exists>rest. i = enc_data (pub_topic_name p) @ enc_opt enc_u16 (pub_packet_identifier p) @ rest \<and>
        props_parse W PublishProperties rest = POk (pub_properties p) (pub_payload p)) \<and>
     length (pub_topic_name p) \<le> 65535 \<and> utf8_valid (pub_topic_name p) \<and>
     0x23 \<notin> set (pub_topic_name p) \<and> 0x2A \<notin> set (pub_topic_name p) \<and>
     (pub_packet_identifier p = None) = (q = AtMostOnce) \<and> pub_packet_identifier p \<noteq> Some 0 \<and>
     pub_duplicate p = d \<and> pub_quality_of_service p = q \<and> pub_retain p = b \<and> r = [])"
  unfolding winnow_spec.MPublish_parse_exact [OF assms]
  using sanity_check_bytes [of "pub_topic_name p"] by (auto simp: str_ok_def)

lemma publish_parse_wellformed_witness:
  "\<exists>p. MPublish_parse winnow_ref False AtLeastOnce False [0, 1, 0x2B, 0, 7, 0, 9, 8] = POk p [] \<and>
    pub_topic_name p = [0x2B] \<and> pub_packet_identifier p = Some 7 \<and> pub_payload p = [9, 8]"
proof -
  define p where "p = \<lparr>pub_duplicate = False, pub_quality_of_service = AtLeastOnce, pub_retain = False,
    pub_topic_name = [0x2B], pub_packet_identifier = Some 7,
    pub_properties = [None, None, None, None, None, None, None, None], pub_payload = [9, 8]\<rparr>"
  have e: "[0, 1, 0x2B, 0, 7, 0, 9, 8] =
      enc_data (pub_topic_name p) @ enc_opt enc_u16 (pub_packet_identifier p) @ [0, 9, 8]"
    unfolding p_def by code_simp
  have ps: "props_parse winnow_ref PublishProperties [0, 9, 8] = POk (pub_properties p) (pub_payload p)"
    unfolding p_def by code_simp
  have "utf8_valid (pub_topic_name p)" unfolding p_def by code_simp
  then have "MPublish_parse winnow_ref False AtLeastOnce False [0, 1, 0x2B, 0, 7, 0, 9, 8] = POk p []"
    unfolding publish_parse_wellformed [OF winnow_ref_spec]
    by (intro conjI exI [of _ "[0, 9, 8]"] e ps) (simp_all add: p_def)
  then show ?thesis by (auto simp: p_def)
qed

text \<open>
  Writing a PUBLISH that has an identifier at quality of service 0 is refused, after the
  topic has been written. One that lacks the identifier at quality of service 1 or 2 is written
  without it: the reader takes the length of the properties and the byte behind it for the
  identifier.
\<close>

lemma publish_write_identifier:
  assumes "length (pub_topic_name p) \<le> 65535"
  shows "MPublish_write W (p\<lparr>pub_quality_of_service := AtMostOnce, pub_packet_identifier := Some i\<rparr>) buf =
      (WErr Invariant, buf @ enc_data (pub_topic_name p)) \<and>
    MPublish_write W (p\<lparr>pub_quality_of_service := AtLeastOnce, pub_packet_identifier := None\<rparr>) buf =
      MPublish_write W (p\<lparr>pub_quality_of_service := AtMostOnce, pub_packet_identifier := None\<rparr>) buf"
proof -
  have "write_string (pub_topic_name p) buf = (WOk, buf @ enc_data (pub_topic_name p))"
    using assms by (intro writesD writes_data) (simp add: data_ok_def)
  then show ?thesis by (simp add: MPublish_write_def w_fail_def)
qed

end
