(* ===== verification/Subscribe.thy ===== *)
theory Subscribe
  imports Publish
begin

text \<open>
  \<open>v5/packets/subscribe.rs\<close> and \<open>unsubscribe.rs\<close>: lists of subscriptions and of topic
  filters, kept as the checked slice of the input and re-parsed by iterators.
\<close>

section \<open>Slices that an iterator parses again\<close>

text \<open>
  \<open>None\<close> is the panic of the iterator's \<open>expect\<close>, or the end of the fuel, of which there is
  one unit per byte.
\<close>

fun slice_items :: "'a parser \<Rightarrow> nat \<Rightarrow> bytes \<Rightarrow> 'a list option" where
  "slice_items f n [] = Some []"
| "slice_items f 0 (b # bs) = None"
| "slice_items f (Suc n) (b # bs) =
     (case f (b # bs) of
        POk x r \<Rightarrow> map_option (Cons x) (slice_items f n r)
      | PErr e \<Rightarrow> None)"

definition slice_iter :: "'a parser \<Rightarrow> bytes \<Rightarrow> 'a list option" where
  "slice_iter f start = slice_items f (length start) start"

text \<open>\<open>self.iter().eq(other.iter())\<close> and \<open>for x in self.iter()\<close>.\<close>

definition slice_eq :: "'a parser \<Rightarrow> bytes \<Rightarrow> bytes \<Rightarrow> bool option" where
  "slice_eq f a b =
     (case slice_iter f a of
        None \<Rightarrow> None
      | Some xs \<Rightarrow> (case slice_iter f b of None \<Rightarrow> None | Some ys \<Rightarrow> Some (xs = ys)))"

definition slice_write :: "'a parser \<Rightarrow> ('a \<Rightarrow> writer) \<Rightarrow> bytes \<Rightarrow> writer" where
  "slice_write f w start =
     (case slice_iter f start of None \<Rightarrow> w_panic | Some xs \<Rightarrow> w_seq (map w xs))"

section \<open>Subscriptions\<close>

definition SubscribeProperties :: decl where
  "SubscribeProperties = [SubscriptionIdentifier_K, UserProperties_K]"

datatype RetainHandling =
    SendRetainedMessagesAlways
  | SendRetainedMessagesOnNewSubscribe
  | DoNotSendRetainedMessages

fun retain_handling_to_u8 :: "RetainHandling \<Rightarrow> u8" where
  "retain_handling_to_u8 SendRetainedMessagesAlways = 0"
| "retain_handling_to_u8 SendRetainedMessagesOnNewSubscribe = 1"
| "retain_handling_to_u8 DoNotSendRetainedMessages = 2"

definition retain_handling_try_from :: "u8 \<Rightarrow> RetainHandling option" where
  "retain_handling_try_from b =
     find (\<lambda>h. retain_handling_to_u8 h = b)
       [SendRetainedMessagesAlways, SendRetainedMessagesOnNewSubscribe, DoNotSendRetainedMessages]"

record SubscriptionOptions =
  so_quality_of_service :: QualityOfService
  so_no_local :: bool
  so_retain_as_published :: bool
  so_retain_handling :: RetainHandling

definition options_bits :: "winnow \<Rightarrow> SubscriptionOptions bit_parser" where
  "options_bits W =
     b_bind (win_bits_pattern W 0 2) (\<lambda>_.
     b_bind (b_try_map retain_handling_try_from (win_bits_take W 2)) (\<lambda>retain_handling.
     b_bind (win_bits_bool W) (\<lambda>retain_as_published.
     b_bind (win_bits_bool W) (\<lambda>no_local.
     b_bind (b_try_map qos_try_from (win_bits_take W 2)) (\<lambda>quality_of_service.
     b_return \<lparr>so_quality_of_service = quality_of_service, so_no_local = no_local,
       so_retain_as_published = retain_as_published, so_retain_handling = retain_handling\<rparr>)))))"

definition SubscriptionOptions_parse :: "winnow \<Rightarrow> SubscriptionOptions parser" where
  "SubscriptionOptions_parse W = p_bits W (options_bits W)"

definition options_byte :: "SubscriptionOptions \<Rightarrow> u8" where
  "options_byte so =
     (let qos = qos_to_u8 (so_quality_of_service so);
          no_local = push_bit 2 (bool_u8 (so_no_local so));
          retain_as_published = push_bit 3 (bool_u8 (so_retain_as_published so));
          retain_handling = push_bit 4 (retain_handling_to_u8 (so_retain_handling so))
      in qos OR no_local OR retain_as_published OR retain_handling)"

definition SubscriptionOptions_write :: "SubscriptionOptions \<Rightarrow> writer" where
  "SubscriptionOptions_write so = write_byte (options_byte so)"

record Subscription =
  topic_filter :: rstr
  options :: SubscriptionOptions

definition Subscription_parse :: "winnow \<Rightarrow> Subscription parser" where
  "Subscription_parse W =
     p_bind (parse_string W) (\<lambda>tf.
     p_bind (SubscriptionOptions_parse W) (\<lambda>so.
     p_return \<lparr>topic_filter = tf, options = so\<rparr>))"

definition Subscription_write :: "Subscription \<Rightarrow> writer" where
  "Subscription_write s = w_seq [write_string (topic_filter s), SubscriptionOptions_write (options s)]"

definition Subscriptions_parse :: "winnow \<Rightarrow> bytes parser" where
  "Subscriptions_parse W =
     p_take (win_repeat_till W 1 (p_map (\<lambda>_. ()) (Subscription_parse W)) (win_eof W))"

definition Subscriptions_binary_size :: "bytes \<Rightarrow> u32 option" where
  "Subscriptions_binary_size start = Some (word_of_nat (length start))"

definition Subscriptions_write :: "winnow \<Rightarrow> bytes \<Rightarrow> writer" where
  "Subscriptions_write W start = slice_write (Subscription_parse W) Subscription_write start"

abbreviation Subscriptions_iter :: "winnow \<Rightarrow> bytes \<Rightarrow> Subscription list option" where
  "Subscriptions_iter W \<equiv> slice_iter (Subscription_parse W)"

abbreviation Subscriptions_eq :: "winnow \<Rightarrow> bytes \<Rightarrow> bytes \<Rightarrow> bool option" where
  "Subscriptions_eq W \<equiv> slice_eq (Subscription_parse W)"

section \<open>SUBSCRIBE\<close>

record MSubscribe =
  sub_packet_identifier :: PacketIdentifier
  sub_properties :: props
  sub_subscriptions :: bytes

definition MSubscribe_parse :: "winnow \<Rightarrow> MSubscribe parser" where
  "MSubscribe_parse W =
     p_bind (PacketIdentifier_parse W) (\<lambda>packet_identifier.
     p_bind (props_parse W SubscribeProperties) (\<lambda>properties.
     p_bind (Subscriptions_parse W) (\<lambda>subscriptions.
     p_return \<lparr>sub_packet_identifier = packet_identifier, sub_properties = properties,
       sub_subscriptions = subscriptions\<rparr>)))"

definition MSubscribe_binary_size :: "winnow \<Rightarrow> MSubscribe \<Rightarrow> u32 option" where
  "MSubscribe_binary_size W m =
     s_sum [PacketIdentifier_binary_size (sub_packet_identifier m), props_binary_size W (sub_properties m),
       Subscriptions_binary_size (sub_subscriptions m)]"

definition MSubscribe_write :: "winnow \<Rightarrow> MSubscribe \<Rightarrow> writer" where
  "MSubscribe_write W m =
     w_seq [PacketIdentifier_write (sub_packet_identifier m), props_write W (sub_properties m),
       Subscriptions_write W (sub_subscriptions m)]"

definition MSubscribe_eq :: "winnow \<Rightarrow> MSubscribe \<Rightarrow> MSubscribe \<Rightarrow> bool option" where
  "MSubscribe_eq W a b =
     (if sub_packet_identifier a = sub_packet_identifier b
      then (case props_eq W (sub_properties a) (sub_properties b) of
              None \<Rightarrow> None
            | Some False \<Rightarrow> Some False
            | Some True \<Rightarrow> Subscriptions_eq W (sub_subscriptions a) (sub_subscriptions b))
      else Some False)"

section \<open>UNSUBSCRIBE\<close>

definition UnsubscribeProperties :: decl where
  "UnsubscribeProperties = [SubscriptionIdentifier_K, UserProperties_K]"

record Unsubscription =
  un_topic_filter :: rstr

definition Unsubscription_parse :: "winnow \<Rightarrow> Unsubscription parser" where
  "Unsubscription_parse W =
     p_bind (parse_string W) (\<lambda>tf. p_return \<lparr>un_topic_filter = tf\<rparr>)"

definition Unsubscription_write :: "Unsubscription \<Rightarrow> writer" where
  "Unsubscription_write u = write_string (un_topic_filter u)"

definition Unsubscriptions_parse :: "winnow \<Rightarrow> bytes parser" where
  "Unsubscriptions_parse W =
     p_take (win_repeat_till W 1 (p_map (\<lambda>_. ()) (Unsubscription_parse W)) (win_eof W))"

definition Unsubscriptions_binary_size :: "bytes \<Rightarrow> u32 option" where
  "Unsubscriptions_binary_size start = Some (word_of_nat (length start))"

definition Unsubscriptions_write :: "winnow \<Rightarrow> bytes \<Rightarrow> writer" where
  "Unsubscriptions_write W start = slice_write (Unsubscription_parse W) Unsubscription_write start"

abbreviation Unsubscriptions_iter :: "winnow \<Rightarrow> bytes \<Rightarrow> Unsubscription list option" where
  "Unsubscriptions_iter W \<equiv> slice_iter (Unsubscription_parse W)"

abbreviation Unsubscriptions_eq :: "winnow \<Rightarrow> bytes \<Rightarrow> bytes \<Rightarrow> bool option" where
  "Unsubscriptions_eq W \<equiv> slice_eq (Unsubscription_parse W)"

record MUnsubscribe =
  unsub_packet_identifier :: PacketIdentifier
  unsub_properties :: props
  unsub_unsubscriptions :: bytes

definition MUnsubscribe_parse :: "winnow \<Rightarrow> MUnsubscribe parser" where
  "MUnsubscribe_parse W =
     p_bind (PacketIdentifier_parse W) (\<lambda>packet_identifier.
     p_bind (props_parse W UnsubscribeProperties) (\<lambda>properties.
     p_bind (Unsubscriptions_parse W) (\<lambda>unsubscriptions.
     p_return \<lparr>unsub_packet_identifier = packet_identifier, unsub_properties = properties,
       unsub_unsubscriptions = unsubscriptions\<rparr>)))"

definition MUnsubscribe_binary_size :: "winnow \<Rightarrow> MUnsubscribe \<Rightarrow> u32 option" where
  "MUnsubscribe_binary_size W m =
     s_sum [PacketIdentifier_binary_size (unsub_packet_identifier m),
       props_binary_size W (unsub_properties m),
       Unsubscriptions_binary_size (unsub_unsubscriptions m)]"

definition MUnsubscribe_write :: "winnow \<Rightarrow> MUnsubscribe \<Rightarrow> writer" where
  "MUnsubscribe_write W m =
     w_seq [PacketIdentifier_write (unsub_packet_identifier m), props_write W (unsub_properties m),
       Unsubscriptions_write W (unsub_unsubscriptions m)]"

definition MUnsubscribe_eq :: "winnow \<Rightarrow> MUnsubscribe \<Rightarrow> MUnsubscribe \<Rightarrow> bool option" where
  "MUnsubscribe_eq W a b =
     (if unsub_packet_identifier a = unsub_packet_identifier b
      then (case props_eq W (unsub_properties a) (unsub_properties b) of
              None \<Rightarrow> None
            | Some False \<Rightarrow> Some False
            | Some True \<Rightarrow>
                Unsubscriptions_eq W (unsub_unsubscriptions a) (unsub_unsubscriptions b))
      else Some False)"

lemmas subscribe_defs [defs] =
  slice_iter_def slice_eq_def slice_write_def retain_handling_try_from_def options_bits_def
  SubscriptionOptions_parse_def options_byte_def SubscriptionOptions_write_def Subscription_parse_def
  Subscription_write_def Subscriptions_parse_def Subscriptions_binary_size_def Subscriptions_write_def
  MSubscribe_parse_def MSubscribe_binary_size_def MSubscribe_write_def MSubscribe_eq_def
  Unsubscription_parse_def Unsubscription_write_def Unsubscriptions_parse_def
  Unsubscriptions_binary_size_def Unsubscriptions_write_def MUnsubscribe_parse_def
  MUnsubscribe_binary_size_def MUnsubscribe_write_def MUnsubscribe_eq_def

section \<open>Layouts\<close>

definition enc_sub :: "Subscription \<Rightarrow> bytes" where
  "enc_sub s = enc_data (topic_filter s) @ [options_byte (options s)]"

text \<open>A slice is valid when its iterator reads at least one item and does not panic.\<close>

definition slice_ok :: "'a parser \<Rightarrow> bytes \<Rightarrow> bool" where
  "slice_ok f start \<longleftrightarrow> (case slice_iter f start of None \<Rightarrow> False | Some xs \<Rightarrow> xs \<noteq> [])"

definition enc_subscribe :: "winnow \<Rightarrow> MSubscribe \<Rightarrow> bytes" where
  "enc_subscribe W m =
     enc_u16 (sub_packet_identifier m) @ enc_props W (sub_properties m) @ sub_subscriptions m"

definition subscribe_ok :: "winnow \<Rightarrow> MSubscribe \<Rightarrow> bool" where
  "subscribe_ok W m \<longleftrightarrow>
     sub_packet_identifier m \<noteq> 0 \<and> props_ok W SubscribeProperties (sub_properties m) \<and>
     slice_ok (Subscription_parse W) (sub_subscriptions m)"

definition subscribe_canon :: "winnow \<Rightarrow> MSubscribe \<Rightarrow> MSubscribe" where
  "subscribe_canon W m = m\<lparr>sub_properties := props_canon W (sub_properties m)\<rparr>"

definition enc_unsubscribe :: "winnow \<Rightarrow> MUnsubscribe \<Rightarrow> bytes" where
  "enc_unsubscribe W m =
     enc_u16 (unsub_packet_identifier m) @ enc_props W (unsub_properties m) @ unsub_unsubscriptions m"

definition unsubscribe_ok :: "winnow \<Rightarrow> MUnsubscribe \<Rightarrow> bool" where
  "unsubscribe_ok W m \<longleftrightarrow>
     unsub_packet_identifier m \<noteq> 0 \<and> props_ok W UnsubscribeProperties (unsub_properties m) \<and>
     slice_ok (Unsubscription_parse W) (unsub_unsubscriptions m)"

definition unsubscribe_canon :: "winnow \<Rightarrow> MUnsubscribe \<Rightarrow> MUnsubscribe" where
  "unsubscribe_canon W m = m\<lparr>unsub_properties := props_canon W (unsub_properties m)\<rparr>"

section \<open>Lemmas\<close>

lemma subscribe_decls_distinct [simp]: "distinct SubscribeProperties" "distinct UnsubscribeProperties"
  by (simp_all add: SubscribeProperties_def UnsubscribeProperties_def)

lemma retain_handling_try_from_to [simp]: "retain_handling_try_from (retain_handling_to_u8 h) = Some h"
  by (cases h) (simp_all add: retain_handling_try_from_def)

lemma retain_handling_try_from_Some:
  "retain_handling_try_from b = Some h \<Longrightarrow> retain_handling_to_u8 h = b"
  by (auto simp: retain_handling_try_from_def split: if_splits)

subsection \<open>Slices\<close>

text \<open>
  What a slice needs of its items: they are laid out without slack, so that a checked slice is
  the concatenation of the layouts of its items.
\<close>

locale slice_codec = winnow_spec W for W +
  fixes item_parse :: "'a parser" and item_write :: "'a \<Rightarrow> writer"
    and item_enc :: "'a \<Rightarrow> bytes" and item_ok :: "'a \<Rightarrow> bool"
  assumes item_strict: "parser_strict item_parse"
    and item_exact: "item_parse i = POk x r \<Longrightarrow> i = item_enc x @ r \<and> item_ok x"
    and item_parse_enc: "item_ok x \<Longrightarrow> item_parse (item_enc x @ r) = POk x r"
    and item_write_enc: "item_ok x \<Longrightarrow> writes (item_write x) (item_enc x)"
begin

lemma slice_items_pieces: "length i \<le> n \<Longrightarrow> slice_items item_parse n i = Some xs \<longleftrightarrow> pieces item_parse xs i"
proof (induction n arbitrary: i xs)
  case 0
  then show ?case by (auto intro: pieces.Nil elim: pieces.cases)
next
  case (Suc n)
  show ?case
  proof (cases i)
    case Nil
    then show ?thesis by (auto intro: pieces.Nil elim: pieces.cases)
  next
    case (Cons b bs)
    show ?thesis
    proof (cases "item_parse i")
      case (POk x r)
      have "length r \<le> n" using parser_strict_length [OF item_strict POk] Suc.prems by simp
      note IH = Suc.IH [OF this]
      have "slice_items item_parse (Suc n) i = Some xs \<longleftrightarrow>
          (\<exists>ys. xs = x # ys \<and> slice_items item_parse n r = Some ys)"
        using POk Cons by auto
      also have "\<dots> \<longleftrightarrow> pieces item_parse xs i"
        using POk Cons IH by (auto intro: pieces.Cons elim: pieces.cases)
      finally show ?thesis .
    next
      case (PErr e)
      then show ?thesis using Cons by (auto elim: pieces.cases)
    qed
  qed
qed

lemma slice_iter_pieces: "slice_iter item_parse start = Some xs \<longleftrightarrow> pieces item_parse xs start"
  by (simp add: slice_iter_def slice_items_pieces)

lemma pieces_concat: "pieces item_parse xs i \<Longrightarrow> i = concat (map item_enc xs) \<and> (\<forall>x\<in>set xs. item_ok x)"
  by (induction rule: pieces.induct) (auto dest: item_exact)

lemma slice_okE:
  assumes "slice_ok item_parse start"
  obtains xs where "slice_iter item_parse start = Some xs" "xs \<noteq> []"
    "start = concat (map item_enc xs)" "\<forall>x\<in>set xs. item_ok x"
proof -
  obtain xs where xs: "slice_iter item_parse start = Some xs" "xs \<noteq> []"
    using assms by (auto simp: slice_ok_def split: option.splits)
  with pieces_concat [of xs start] that show ?thesis by (simp add: slice_iter_pieces)
qed

lemma unit_strict: "parser_strict (p_map (\<lambda>_. ()) item_parse)"
  by (rule parser_map [OF item_strict])

lemma slice_repeat:
  assumes "slice_ok item_parse start"
  shows "win_repeat_till W 1 (p_map (\<lambda>_. ()) item_parse) (win_eof W) start = POk () []"
proof -
  obtain xs where xs: "xs \<noteq> []" "start = concat (map item_enc xs)" "\<forall>x\<in>set xs. item_ok x"
    using assms by (rule slice_okE)
  then have "1 \<le> length (map item_enc xs)" by (cases xs) simp_all
  with xs(3) show ?thesis
    unfolding xs(2)
    by (intro repeat_till_concat unit_strict) (auto simp: p_map_def item_parse_enc)
qed

lemma slice_take_ok: "parser_ok (p_take (win_repeat_till W 1 (p_map (\<lambda>_. ()) item_parse) (win_eof W)))"
  by (intro parser_intros unit_strict)

lemma slice_parse_enc:
  "slice_ok item_parse start \<Longrightarrow>
    p_take (win_repeat_till W 1 (p_map (\<lambda>_. ()) item_parse) (win_eof W)) start = POk start []"
  using slice_repeat [of start] by (simp add: p_take_def)

lemma slice_parse_sound:
  assumes "p_take (win_repeat_till W 1 (p_map (\<lambda>_. ()) item_parse) (win_eof W)) i = POk start r"
  shows "slice_ok item_parse start \<and> i = start \<and> r = []"
proof -
  have rep: "win_repeat_till W 1 (p_map (\<lambda>_. ()) item_parse) (win_eof W) i = POk () r"
    and start: "start = take (length i - length r) i"
    using assms by (auto simp: p_take_def split: presult.splits)
  from rep repeat_till_eof_result [OF unit_strict, of 1 i] have "r = []" by auto
  moreover from repeat_till_pieces [OF item_strict rep] obtain xs where
    "slice_iter item_parse i = Some xs" "1 \<le> length xs" by (auto simp: slice_iter_pieces)
  ultimately show ?thesis using start by (auto simp: slice_ok_def)
qed

lemma slice_write_enc:
  assumes "slice_ok item_parse start"
  shows "writes (slice_write item_parse item_write start) start"
proof -
  obtain xs where xs: "slice_iter item_parse start = Some xs" "start = concat (map item_enc xs)"
    "\<forall>x\<in>set xs. item_ok x" using assms by (rule slice_okE)
  have "writes (w_seq (map item_write xs)) (concat (map item_enc xs))"
    using xs(3) by (intro writes_map item_write_enc) simp
  with xs show ?thesis by (simp add: slice_write_def)
qed

lemma pieces_enc: "\<forall>x\<in>set xs. item_ok x \<Longrightarrow> pieces item_parse xs (concat (map item_enc xs))"
proof (induction xs)
  case (Cons x xs)
  then have p: "item_parse (item_enc x @ concat (map item_enc xs)) = POk x (concat (map item_enc xs))"
    by (simp add: item_parse_enc)
  then have "item_enc x @ concat (map item_enc xs) \<noteq> []"
    using parser_strict_length [OF item_strict p] by auto
  with p Cons show ?case by (auto intro: pieces.Cons)
qed (simp add: pieces.Nil)

lemma slice_ok_concat:
  "xs \<noteq> [] \<Longrightarrow> \<forall>x\<in>set xs. item_ok x \<Longrightarrow> slice_ok item_parse (concat (map item_enc xs))"
  using pieces_enc [of xs] slice_iter_pieces [of "concat (map item_enc xs)" xs]
  by (simp add: slice_ok_def)

lemma slice_eq_refl: "slice_ok item_parse start \<Longrightarrow> slice_eq item_parse start start = Some True"
  by (auto simp: slice_eq_def elim: slice_okE)

end

subsection \<open>Subscriptions\<close>

lemma bits_of_1: "bits_of b off 1 = bool_u8 (bits_of b off 1 \<noteq> 0)"
  by (simp add: bits_of_def bool_u8_def mod2_eq_if)

lemma byte_options:
  "b = push_bit 6 (bits_of b 0 2) OR (bits_of b 6 2 OR push_bit 2 (bits_of b 5 1) OR
    push_bit 3 (bits_of b 4 1) OR push_bit 4 (bits_of b 2 2))"
proof (rule bit_word_eqI)
  fix n
  assume "n < LENGTH(8)"
  then have "n \<in> {0, 1, 2, 3, 4, 5, 6, 7}" by auto
  then show "bit b n \<longleftrightarrow> bit (push_bit 6 (bits_of b 0 2) OR (bits_of b 6 2 OR push_bit 2 (bits_of b 5 1) OR
    push_bit 3 (bits_of b 4 1) OR push_bit 4 (bits_of b 2 2))) n"
    by (elim insertE emptyE) (simp_all add: bits_of_def bit_simps even_or_iff even_push_bit_iff even_take_bit_eq,
      simp_all add: bit_iff_odd_drop_bit)
qed

context winnow_spec begin

lemma options_parse_Cons:
  "SubscriptionOptions_parse W (b # r) =
    (if bits_of b 0 2 \<noteq> 0 then PErr Backtrack
     else
       case retain_handling_try_from (bits_of b 2 2) of
         None \<Rightarrow> PErr Backtrack
       | Some h \<Rightarrow>
           (case qos_try_from (bits_of b 6 2) of
              None \<Rightarrow> PErr Backtrack
            | Some q \<Rightarrow> POk \<lparr>so_quality_of_service = q, so_no_local = bits_of b 5 1 \<noteq> 0,
                so_retain_as_published = bits_of b 4 1 \<noteq> 0, so_retain_handling = h\<rparr> r))"
  by (cases "retain_handling_try_from (bits_of b 2 2)"; cases "qos_try_from (bits_of b 6 2)")
    (simp_all add: SubscriptionOptions_parse_def options_bits_def b_defs bits_bool bits_pattern
      bits_take_Cons bits_end numeral_eq_Suc)

lemma options_parse_Nil: "SubscriptionOptions_parse W [] = PErr Backtrack"
  by (simp add: SubscriptionOptions_parse_def options_bits_def b_defs bits_pattern bits_take_Nil)

lemma options_parse_strict: "parser_strict (SubscriptionOptions_parse W)"
proof (rule parser_byI)
  show "strict_suffix r i" if "SubscriptionOptions_parse W i = POk x r" for i x r
    using that by (cases i) (auto simp: options_parse_Cons options_parse_Nil strict_suffix_def suffix_def
        split: option.splits if_splits)
  show "e = Backtrack \<or> e = Cut" if "SubscriptionOptions_parse W i = PErr e" for i e
    using that by (cases i) (auto simp: options_parse_Cons options_parse_Nil split: option.splits if_splits)
qed

lemma options_parse_enc: "SubscriptionOptions_parse W (options_byte so # r) = POk so r"
proof -
  obtain q n rap h where so: "so = \<lparr>so_quality_of_service = q, so_no_local = n,
    so_retain_as_published = rap, so_retain_handling = h\<rparr>" by (cases so)
  show ?thesis
    unfolding so by (cases q; cases n; cases rap; cases h)
      (simp_all add: options_parse_Cons options_byte_def bool_u8_def bits_of_def qos_try_from_def
        retain_handling_try_from_def)
qed

lemma options_parse_exact:
  assumes "SubscriptionOptions_parse W i = POk so r"
  shows "i = options_byte so # r"
proof (cases i)
  case (Cons b i')
  with assms obtain h q where *: "bits_of b 0 2 = 0" "retain_handling_to_u8 h = bits_of b 2 2"
    "qos_to_u8 q = bits_of b 6 2" "i' = r"
    "so = \<lparr>so_quality_of_service = q, so_no_local = bits_of b 5 1 \<noteq> 0,
       so_retain_as_published = bits_of b 4 1 \<noteq> 0, so_retain_handling = h\<rparr>"
    by (auto simp: options_parse_Cons dest: retain_handling_try_from_Some qos_try_from_Some
        split: option.splits if_splits)
  have "options_byte so = bits_of b 6 2 OR push_bit 2 (bits_of b 5 1) OR
      push_bit 3 (bits_of b 4 1) OR push_bit 4 (bits_of b 2 2)"
    using * bits_of_1 [of b 5] bits_of_1 [of b 4] by (simp add: options_byte_def Let_def)
  also have "\<dots> = b" using byte_options [of b] *(1) by simp
  finally show ?thesis using Cons * by simp
qed (use assms options_parse_Nil in simp)

end

lemma writes_options: "writes (SubscriptionOptions_write so) [options_byte so]"
  by (simp add: SubscriptionOptions_write_def writes_byte)

sublocale winnow_spec \<subseteq> subs:
  slice_codec W "Subscription_parse W" Subscription_write enc_sub "\<lambda>s. str_ok (topic_filter s)"
proof
  fix i r :: bytes and s :: Subscription
  show "parser_strict (Subscription_parse W)"
    unfolding Subscription_parse_def
    by (intro parser_intros parser_strict_ok [OF options_parse_strict])
  show "i = enc_sub s @ r \<and> str_ok (topic_filter s)" if "Subscription_parse W i = POk s r"
    using that by (auto simp: Subscription_parse_def p_bind_def p_return_def enc_sub_def
        dest!: parse_string_POk options_parse_exact split: presult.splits)
  show "Subscription_parse W (enc_sub s @ r) = POk s r" if "str_ok (topic_filter s)"
    using that by (simp add: Subscription_parse_def p_bind_def p_return_def enc_sub_def str.parse_enc
        options_parse_enc)
  show "writes (Subscription_write s) (enc_sub s)" if "str_ok (topic_filter s)"
    unfolding Subscription_write_def enc_sub_def
    by (intro writes_Cons writes_one str.write_enc writes_options that)
qed

sublocale winnow_spec \<subseteq> unsubs:
  slice_codec W "Unsubscription_parse W" Unsubscription_write "\<lambda>u. enc_data (un_topic_filter u)"
    "\<lambda>u. str_ok (un_topic_filter u)"
proof
  fix i r :: bytes and u :: Unsubscription
  show "parser_strict (Unsubscription_parse W)"
    unfolding Unsubscription_parse_def by (intro parser_intros)
  show "i = enc_data (un_topic_filter u) @ r \<and> str_ok (un_topic_filter u)"
    if "Unsubscription_parse W i = POk u r"
    using that by (auto simp: Unsubscription_parse_def p_bind_def p_return_def
        dest!: parse_string_POk split: presult.splits)
  show "Unsubscription_parse W (enc_data (un_topic_filter u) @ r) = POk u r" if "str_ok (un_topic_filter u)"
    using that by (simp add: Unsubscription_parse_def p_bind_def p_return_def str.parse_enc)
  show "writes (Unsubscription_write u) (enc_data (un_topic_filter u))" if "str_ok (un_topic_filter u)"
    unfolding Unsubscription_write_def by (intro str.write_enc that)
qed

section \<open>The packets\<close>

context winnow_spec begin

subsection \<open>SUBSCRIBE\<close>

lemma MSubscribe_parse_ok: "parser_ok (MSubscribe_parse W)"
  unfolding MSubscribe_parse_def Subscriptions_parse_def PacketIdentifier_parse_def
  by (intro parser_intros parser_strict_ok [OF parse_u16_nonzero_strict]
      parser_strict_ok [OF props_parse_strict] subs.item_strict)

lemma MSubscribe_parse_enc:
  assumes "subscribe_ok W m"
  shows "MSubscribe_parse W (enc_subscribe W m) = POk (subscribe_canon W m) []"
  using assms subs.slice_parse_enc [of "sub_subscriptions m"]
  by (simp add: MSubscribe_parse_def Subscriptions_parse_def p_bind_def p_return_def enc_subscribe_def subscribe_ok_def
      subscribe_canon_def packet_id.parse_enc props.parse_enc)

lemma MSubscribe_write_enc: "subscribe_ok W m \<Longrightarrow> writes (MSubscribe_write W m) (enc_subscribe W m)"
  unfolding MSubscribe_write_def enc_subscribe_def subscribe_ok_def Subscriptions_write_def
  by (intro writes_Cons writes_one)
    (auto intro: packet_id.write_enc props.write_enc subs.slice_write_enc)

lemma MSubscribe_size_enc: "subscribe_ok W m \<Longrightarrow> sizes (MSubscribe_binary_size W m) (enc_subscribe W m)"
  unfolding MSubscribe_binary_size_def enc_subscribe_def subscribe_ok_def Subscriptions_binary_size_def
  by (intro sizes_sum_Cons sizes_one)
    (auto simp: sizes_def [of "Some _"] intro: packet_id.size_enc props.size_enc)

lemma MSubscribe_parse_sound:
  assumes "MSubscribe_parse W i = POk m r"
  shows "subscribe_ok W m \<and> length (enc_subscribe W m) + length r \<le> length i"
proof -
  obtain i1 i2 where
    1: "PacketIdentifier_parse W i = POk (sub_packet_identifier m) i1" and
    2: "props_parse W SubscribeProperties i1 = POk (sub_properties m) i2" and
    3: "Subscriptions_parse W i2 = POk (sub_subscriptions m) r"
    using assms by (auto simp: MSubscribe_parse_def p_bind_def p_return_def split: presult.splits)
  show ?thesis
    using packet_id.parse_sound [OF 1] props_parse_sound [OF 2]
      subs.slice_parse_sound [OF 3 [unfolded Subscriptions_parse_def]]
    by (auto simp: subscribe_ok_def enc_subscribe_def)
qed

lemma MSubscribe_eq_canon: "subscribe_ok W m \<Longrightarrow> MSubscribe_eq W m (subscribe_canon W m) = Some True"
  using subs.slice_eq_refl [of "sub_subscriptions m"]
  by (auto simp: MSubscribe_eq_def subscribe_canon_def subscribe_ok_def dest!: props_eq_ok)

subsection \<open>UNSUBSCRIBE\<close>

lemma MUnsubscribe_parse_ok: "parser_ok (MUnsubscribe_parse W)"
  unfolding MUnsubscribe_parse_def Unsubscriptions_parse_def PacketIdentifier_parse_def
  by (intro parser_intros parser_strict_ok [OF parse_u16_nonzero_strict]
      parser_strict_ok [OF props_parse_strict] unsubs.item_strict)

lemma MUnsubscribe_parse_enc:
  assumes "unsubscribe_ok W m"
  shows "MUnsubscribe_parse W (enc_unsubscribe W m) = POk (unsubscribe_canon W m) []"
  using assms unsubs.slice_parse_enc [of "unsub_unsubscriptions m"]
  by (simp add: MUnsubscribe_parse_def Unsubscriptions_parse_def p_bind_def p_return_def enc_unsubscribe_def unsubscribe_ok_def
      unsubscribe_canon_def packet_id.parse_enc props.parse_enc)

lemma MUnsubscribe_write_enc: "unsubscribe_ok W m \<Longrightarrow> writes (MUnsubscribe_write W m) (enc_unsubscribe W m)"
  unfolding MUnsubscribe_write_def enc_unsubscribe_def unsubscribe_ok_def Unsubscriptions_write_def
  by (intro writes_Cons writes_one)
    (auto intro: packet_id.write_enc props.write_enc unsubs.slice_write_enc)

lemma MUnsubscribe_size_enc: "unsubscribe_ok W m \<Longrightarrow> sizes (MUnsubscribe_binary_size W m) (enc_unsubscribe W m)"
  unfolding MUnsubscribe_binary_size_def enc_unsubscribe_def unsubscribe_ok_def Unsubscriptions_binary_size_def
  by (intro sizes_sum_Cons sizes_one)
    (auto simp: sizes_def [of "Some _"] intro: packet_id.size_enc props.size_enc)

lemma MUnsubscribe_parse_sound:
  assumes "MUnsubscribe_parse W i = POk m r"
  shows "unsubscribe_ok W m \<and> length (enc_unsubscribe W m) + length r \<le> length i"
proof -
  obtain i1 i2 where
    1: "PacketIdentifier_parse W i = POk (unsub_packet_identifier m) i1" and
    2: "props_parse W UnsubscribeProperties i1 = POk (unsub_properties m) i2" and
    3: "Unsubscriptions_parse W i2 = POk (unsub_unsubscriptions m) r"
    using assms by (auto simp: MUnsubscribe_parse_def p_bind_def p_return_def split: presult.splits)
  show ?thesis
    using packet_id.parse_sound [OF 1] props_parse_sound [OF 2]
      unsubs.slice_parse_sound [OF 3 [unfolded Unsubscriptions_parse_def]]
    by (auto simp: unsubscribe_ok_def enc_unsubscribe_def)
qed

lemma MUnsubscribe_eq_canon: "unsubscribe_ok W m \<Longrightarrow> MUnsubscribe_eq W m (unsubscribe_canon W m) = Some True"
  using unsubs.slice_eq_refl [of "unsub_unsubscriptions m"]
  by (auto simp: MUnsubscribe_eq_def unsubscribe_canon_def unsubscribe_ok_def dest!: props_eq_ok)

end

sublocale winnow_spec \<subseteq> subscribe:
  checked_body_codec "MSubscribe_parse W" "MSubscribe_write W" "MSubscribe_binary_size W" "enc_subscribe W" "subscribe_ok W" "subscribe_canon W"
proof
  show "subscribe_ok W m \<and> fits (enc_subscribe W m)" if "fits i" and "MSubscribe_parse W i = POk m r" for i m r
    using MSubscribe_parse_sound [OF that(2)] fits_le [OF that(1), of "enc_subscribe W m"] by simp
qed (simp_all add: MSubscribe_parse_enc MSubscribe_write_enc MSubscribe_size_enc)

sublocale winnow_spec \<subseteq> unsubscribe:
  checked_body_codec "MUnsubscribe_parse W" "MUnsubscribe_write W" "MUnsubscribe_binary_size W" "enc_unsubscribe W" "unsubscribe_ok W" "unsubscribe_canon W"
proof
  show "unsubscribe_ok W m \<and> fits (enc_unsubscribe W m)" if "fits i" and "MUnsubscribe_parse W i = POk m r" for i m r
    using MUnsubscribe_parse_sound [OF that(2)] fits_le [OF that(1), of "enc_unsubscribe W m"] by simp
qed (simp_all add: MUnsubscribe_parse_enc MUnsubscribe_write_enc MUnsubscribe_size_enc)

context winnow_spec begin

lemma MSubscribe_parse_shape:
  assumes "MSubscribe_parse W i = POk m r"
  shows "\<exists>ss. Subscriptions_iter W (sub_subscriptions m) = Some ss \<and> ss \<noteq> [] \<and>
    sub_subscriptions m = concat (map enc_sub ss) \<and> (\<forall>s\<in>set ss. str_ok (topic_filter s)) \<and>
    Subscriptions_write W (sub_subscriptions m) buf = (WOk, buf @ sub_subscriptions m) \<and>
    sub_packet_identifier m \<noteq> 0 \<and> r = [] \<and> suffix (sub_subscriptions m) i"
proof -
  obtain i1 i2 where
    1: "PacketIdentifier_parse W i = POk (sub_packet_identifier m) i1" and
    2: "props_parse W SubscribeProperties i1 = POk (sub_properties m) i2" and
    3: "Subscriptions_parse W i2 = POk (sub_subscriptions m) r"
    using assms by (auto simp: MSubscribe_parse_def p_bind_def p_return_def split: presult.splits)
  have s: "slice_ok (Subscription_parse W) (sub_subscriptions m)" "i2 = sub_subscriptions m" "r = []"
    using subs.slice_parse_sound [OF 3 [unfolded Subscriptions_parse_def]] by simp_all
  obtain ss where "Subscriptions_iter W (sub_subscriptions m) = Some ss" "ss \<noteq> []"
    "sub_subscriptions m = concat (map enc_sub ss)" "\<forall>s\<in>set ss. str_ok (topic_filter s)"
    using s(1) by (rule subs.slice_okE)
  moreover have "Subscriptions_write W (sub_subscriptions m) buf = (WOk, buf @ sub_subscriptions m)"
    unfolding Subscriptions_write_def by (rule writesD [OF subs.slice_write_enc [OF s(1)]])
  moreover have "sub_packet_identifier m \<noteq> 0" using packet_id.parse_sound [OF 1] by simp
  moreover have "suffix i1 i"
    using parser_by_POk [OF parser_strict_ok [OF parse_u16_nonzero_strict] 1 [unfolded PacketIdentifier_parse_def]] .
  then have "suffix (sub_subscriptions m) i"
    using parser_by_POk [OF parser_strict_ok [OF props_parse_strict] 2] s(2) by (metis suffix_order.trans)
  ultimately show ?thesis using s(3) by blast
qed

end

section \<open>Properties\<close>

text \<open>
  A SUBSCRIBE that was parsed carries at least one subscription: the slice it keeps is
  non-empty, iterating over it never panics and gives subscriptions whose encodings are, one after
  the other, exactly the bytes of the slice; \<open>binary_size\<close> is the number of these bytes.
\<close>

lemma subscribe_parse_wellformed:
  assumes "winnow_spec W" and "MSubscribe_parse W i = POk m r"
  shows "\<exists>ss. Subscriptions_iter W (sub_subscriptions m) = Some ss \<and> ss \<noteq> [] \<and>
    sub_subscriptions m = concat (map enc_sub ss) \<and> (\<forall>s\<in>set ss. str_ok (topic_filter s)) \<and>
    Subscriptions_write W (sub_subscriptions m) buf = (WOk, buf @ sub_subscriptions m) \<and>
    sub_packet_identifier m \<noteq> 0 \<and> r = [] \<and> suffix (sub_subscriptions m) i"
  by (rule winnow_spec.MSubscribe_parse_shape [OF assms])

end
