(* ===== verification/Mqtt_Packet.thy ===== *)
theory Mqtt_Packet
  imports Subscribe
begin

text \<open>
  \<open>v5/packets/mod.rs\<close>: the packet enum, the parser of a whole packet (fixed header, remaining
  length, body) and its writer.
\<close>

section \<open>The packets\<close>

datatype MqttPacket =
    Auth MAuth
  | Connack MConnack
  | Connect MConnect
  | Disconnect MDisconnect
  | Pingreq MPingreq
  | Pingresp MPingresp
  | Puback MPuback
  | Pubcomp MPubcomp
  | Publish MPublish
  | Pubrec MPubrec
  | Pubrel MPubrel
  | Suback MSuback
  | Subscribe MSubscribe
  | Unsuback MUnsuback
  | Unsubscribe MUnsubscribe

datatype MqttPacketKind =
    Kind_Auth
  | Kind_Connack
  | Kind_Connect
  | Kind_Disconnect
  | Kind_Pingreq
  | Kind_Pingresp
  | Kind_Puback
  | Kind_Pubcomp
  | Kind_Publish
  | Kind_Pubrec
  | Kind_Pubrel
  | Kind_Suback
  | Kind_Subscribe
  | Kind_Unsuback
  | Kind_Unsubscribe

fun get_kind :: "MqttPacket \<Rightarrow> MqttPacketKind" where
  "get_kind (Auth p) = Kind_Auth"
| "get_kind (Connack p) = Kind_Connack"
| "get_kind (Connect p) = Kind_Connect"
| "get_kind (Disconnect p) = Kind_Disconnect"
| "get_kind (Pingreq p) = Kind_Pingreq"
| "get_kind (Pingresp p) = Kind_Pingresp"
| "get_kind (Puback p) = Kind_Puback"
| "get_kind (Pubcomp p) = Kind_Pubcomp"
| "get_kind (Publish p) = Kind_Publish"
| "get_kind (Pubrec p) = Kind_Pubrec"
| "get_kind (Pubrel p) = Kind_Pubrel"
| "get_kind (Suback p) = Kind_Suback"
| "get_kind (Subscribe p) = Kind_Subscribe"
| "get_kind (Unsuback p) = Kind_Unsuback"
| "get_kind (Unsubscribe p) = Kind_Unsubscribe"

section \<open>Parsing\<close>

fun parse_packet :: "winnow \<Rightarrow> PacketType \<Rightarrow> MqttPacket parser" where
  "parse_packet W PT_Connect = p_map Connect (MConnect_parse W)"
| "parse_packet W PT_Connack = p_map Connack (MConnack_parse W)"
| "parse_packet W (PT_Publish dup qos retain) = p_map Publish (MPublish_parse W dup qos retain)"
| "parse_packet W PT_Puback = p_map Puback (MPuback_parse W)"
| "parse_packet W PT_Pubrec = p_map Pubrec (MPubrec_parse W)"
| "parse_packet W PT_Pubrel = p_map Pubrel (MPubrel_parse W)"
| "parse_packet W PT_Pubcomp = p_map Pubcomp (MPubcomp_parse W)"
| "parse_packet W PT_Subscribe = p_map Subscribe (MSubscribe_parse W)"
| "parse_packet W PT_Suback = p_map Suback (MSuback_parse W)"
| "parse_packet W PT_Unsubscribe = p_map Unsubscribe (MUnsubscribe_parse W)"
| "parse_packet W PT_Unsuback = p_map Unsuback (MUnsuback_parse W)"
| "parse_packet W PT_Pingreq = p_map Pingreq (MPingreq_parse W)"
| "parse_packet W PT_Pingresp = p_map Pingresp (MPingresp_parse W)"
| "parse_packet W PT_Disconnect = p_map Disconnect (MDisconnect_parse W)"
| "parse_packet W PT_Auth = p_map Auth (MAuth_parse W)"

definition MqttPacket_parse :: "winnow \<Rightarrow> MqttPacket parser" where
  "MqttPacket_parse W =
     p_bind (MFixedHeader_parse W) (\<lambda>fixed_header.
     length_and_then W (p_map unat (parse_variable_u32 W False)) (parse_packet W (packet_type fixed_header)))"

text \<open>\<open>parse_complete\<close> drops what is behind the packet.\<close>

definition parse_complete :: "winnow \<Rightarrow> bytes \<Rightarrow> err_mode + MqttPacket" where
  "parse_complete W input =
     (case MqttPacket_parse W input of POk p r \<Rightarrow> Inr p | PErr e \<Rightarrow> Inl e)"

section \<open>Sizes and writing\<close>

text \<open>The \<open>binary_size\<close> and the \<open>write\<close> of the packet inside.\<close>

fun packet_size :: "winnow \<Rightarrow> MqttPacket \<Rightarrow> u32 option" where
  "packet_size W (Auth p) = MAuth_binary_size W p"
| "packet_size W (Connack p) = MConnack_binary_size W p"
| "packet_size W (Connect p) = MConnect_binary_size W p"
| "packet_size W (Disconnect p) = MDisconnect_binary_size W p"
| "packet_size W (Pingreq p) = MPingreq_binary_size p"
| "packet_size W (Pingresp p) = MPingresp_binary_size p"
| "packet_size W (Puback p) = MPuback_binary_size W p"
| "packet_size W (Pubcomp p) = MPubcomp_binary_size W p"
| "packet_size W (Publish p) = MPublish_binary_size W p"
| "packet_size W (Pubrec p) = MPubrec_binary_size W p"
| "packet_size W (Pubrel p) = MPubrel_binary_size W p"
| "packet_size W (Suback p) = MSuback_binary_size W p"
| "packet_size W (Subscribe p) = MSubscribe_binary_size W p"
| "packet_size W (Unsuback p) = MUnsuback_binary_size W p"
| "packet_size W (Unsubscribe p) = MUnsubscribe_binary_size W p"

fun packet_write :: "winnow \<Rightarrow> MqttPacket \<Rightarrow> writer" where
  "packet_write W (Auth p) = MAuth_write W p"
| "packet_write W (Connack p) = MConnack_write W p"
| "packet_write W (Connect p) = MConnect_write W p"
| "packet_write W (Disconnect p) = MDisconnect_write W p"
| "packet_write W (Pingreq p) = MPingreq_write p"
| "packet_write W (Pingresp p) = MPingresp_write p"
| "packet_write W (Puback p) = MPuback_write W p"
| "packet_write W (Pubcomp p) = MPubcomp_write W p"
| "packet_write W (Publish p) = MPublish_write W p"
| "packet_write W (Pubrec p) = MPubrec_write W p"
| "packet_write W (Pubrel p) = MPubrel_write W p"
| "packet_write W (Suback p) = MSuback_write W p"
| "packet_write W (Subscribe p) = MSubscribe_write W p"
| "packet_write W (Unsuback p) = MUnsuback_write W p"
| "packet_write W (Unsubscribe p) = MUnsubscribe_write W p"

text \<open>The packet type that \<open>write\<close> puts into the fixed header.\<close>

fun header_of :: "MqttPacket \<Rightarrow> PacketType" where
  "header_of (Auth p) = PT_Auth"
| "header_of (Connack p) = PT_Connack"
| "header_of (Connect p) = PT_Connect"
| "header_of (Disconnect p) = PT_Disconnect"
| "header_of (Pingreq p) = PT_Pingreq"
| "header_of (Pingresp p) = PT_Pingresp"
| "header_of (Puback p) = PT_Puback"
| "header_of (Pubcomp p) = PT_Pubcomp"
| "header_of (Publish p) = PT_Publish (pub_duplicate p) (pub_quality_of_service p) (pub_retain p)"
| "header_of (Pubrec p) = PT_Pubrec"
| "header_of (Pubrel p) = PT_Pubrel"
| "header_of (Suback p) = PT_Suback"
| "header_of (Subscribe p) = PT_Subscribe"
| "header_of (Unsuback p) = PT_Unsuback"
| "header_of (Unsubscribe p) = PT_Unsubscribe"

definition MqttPacket_binary_size :: "winnow \<Rightarrow> MqttPacket \<Rightarrow> u32 option" where
  "MqttPacket_binary_size W p =
     (case packet_size W p of
        None \<Rightarrow> None
      | Some n \<Rightarrow> s_sum [MFixedHeader_binary_size, variable_u32_binary_size n, Some n])"

definition MqttPacket_write :: "winnow \<Rightarrow> MqttPacket \<Rightarrow> writer" where
  "MqttPacket_write W p =
     w_seq [MFixedHeader_write \<lparr>packet_type = header_of p\<rparr>,
       (case packet_size W p of None \<Rightarrow> w_panic | Some n \<Rightarrow> write_variable_u32 n),
       packet_write W p]"

text \<open>The derived \<open>PartialEq\<close>.\<close>

fun packet_eq :: "winnow \<Rightarrow> MqttPacket \<Rightarrow> MqttPacket \<Rightarrow> bool option" where
  "packet_eq W (Auth p) y = (case y of Auth q \<Rightarrow> MAuth_eq W p q | _ \<Rightarrow> Some False)"
| "packet_eq W (Connack p) y = (case y of Connack q \<Rightarrow> MConnack_eq W p q | _ \<Rightarrow> Some False)"
| "packet_eq W (Connect p) y = (case y of Connect q \<Rightarrow> MConnect_eq W p q | _ \<Rightarrow> Some False)"
| "packet_eq W (Disconnect p) y = (case y of Disconnect q \<Rightarrow> MDisconnect_eq W p q | _ \<Rightarrow> Some False)"
| "packet_eq W (Pingreq p) y = (case y of Pingreq q \<Rightarrow> Some True | _ \<Rightarrow> Some False)"
| "packet_eq W (Pingresp p) y = (case y of Pingresp q \<Rightarrow> Some True | _ \<Rightarrow> Some False)"
| "packet_eq W (Puback p) y = (case y of Puback q \<Rightarrow> ack_eq W p q | _ \<Rightarrow> Some False)"
| "packet_eq W (Pubcomp p) y = (case y of Pubcomp q \<Rightarrow> ack_eq W p q | _ \<Rightarrow> Some False)"
| "packet_eq W (Publish p) y = (case y of Publish q \<Rightarrow> MPublish_eq W p q | _ \<Rightarrow> Some False)"
| "packet_eq W (Pubrec p) y = (case y of Pubrec q \<Rightarrow> ack_eq W p q | _ \<Rightarrow> Some False)"
| "packet_eq W (Pubrel p) y = (case y of Pubrel q \<Rightarrow> ack_eq W p q | _ \<Rightarrow> Some False)"
| "packet_eq W (Suback p) y = (case y of Suback q \<Rightarrow> suback_eq W p q | _ \<Rightarrow> Some False)"
| "packet_eq W (Subscribe p) y = (case y of Subscribe q \<Rightarrow> MSubscribe_eq W p q | _ \<Rightarrow> Some False)"
| "packet_eq W (Unsuback p) y = (case y of Unsuback q \<Rightarrow> suback_eq W p q | _ \<Rightarrow> Some False)"
| "packet_eq W (Unsubscribe p) y = (case y of Unsubscribe q \<Rightarrow> MUnsubscribe_eq W p q | _ \<Rightarrow> Some False)"

lemmas packet_defs [defs] =
  MqttPacket_parse_def parse_complete_def MqttPacket_binary_size_def MqttPacket_write_def

section \<open>Layout\<close>

fun enc_body :: "winnow \<Rightarrow> MqttPacket \<Rightarrow> bytes" where
  "enc_body W (Auth p) = enc_auth W p"
| "enc_body W (Connack p) = enc_connack W p"
| "enc_body W (Connect p) = enc_connect W p"
| "enc_body W (Disconnect p) = enc_disconnect W p"
| "enc_body W (Pingreq p) = []"
| "enc_body W (Pingresp p) = []"
| "enc_body W (Puback p) = enc_ack W p"
| "enc_body W (Pubcomp p) = enc_ack W p"
| "enc_body W (Publish p) = enc_publish W p"
| "enc_body W (Pubrec p) = enc_ack W p"
| "enc_body W (Pubrel p) = enc_ack W p"
| "enc_body W (Suback p) = enc_suback W p"
| "enc_body W (Subscribe p) = enc_subscribe W p"
| "enc_body W (Unsuback p) = enc_suback W p"
| "enc_body W (Unsubscribe p) = enc_unsubscribe W p"

fun body_ok :: "winnow \<Rightarrow> MqttPacket \<Rightarrow> bool" where
  "body_ok W (Auth p) = auth_ok W p"
| "body_ok W (Connack p) = connack_ok W p"
| "body_ok W (Connect p) = connect_ok W p"
| "body_ok W (Disconnect p) = disconnect_ok W p"
| "body_ok W (Pingreq p) = True"
| "body_ok W (Pingresp p) = True"
| "body_ok W (Puback p) = ack_ok W PubackReasonCode PubackProperties p"
| "body_ok W (Pubcomp p) = ack_ok W PubcompReasonCode PubcompProperties p"
| "body_ok W (Publish p) = publish_ok W p"
| "body_ok W (Pubrec p) = ack_ok W PubrecReasonCode PubrecProperties p"
| "body_ok W (Pubrel p) = ack_ok W PubrelReasonCode PubrelProperties p"
| "body_ok W (Suback p) = suback_ok W SubackReasonCode SubackProperties p"
| "body_ok W (Subscribe p) = subscribe_ok W p"
| "body_ok W (Unsuback p) = suback_ok W UnsubackReasonCode UnsubackProperties p"
| "body_ok W (Unsubscribe p) = unsubscribe_ok W p"

fun packet_canon :: "winnow \<Rightarrow> MqttPacket \<Rightarrow> MqttPacket" where
  "packet_canon W (Auth p) = Auth (auth_canon W p)"
| "packet_canon W (Connack p) = Connack (connack_canon W p)"
| "packet_canon W (Connect p) = Connect (connect_canon W p)"
| "packet_canon W (Disconnect p) = Disconnect (disconnect_canon W p)"
| "packet_canon W (Pingreq p) = Pingreq p"
| "packet_canon W (Pingresp p) = Pingresp p"
| "packet_canon W (Puback p) = Puback (ack_canon W p)"
| "packet_canon W (Pubcomp p) = Pubcomp (ack_canon W p)"
| "packet_canon W (Publish p) = Publish (publish_canon W p)"
| "packet_canon W (Pubrec p) = Pubrec (ack_canon W p)"
| "packet_canon W (Pubrel p) = Pubrel (ack_canon W p)"
| "packet_canon W (Suback p) = Suback (suback_canon W p)"
| "packet_canon W (Subscribe p) = Subscribe (subscribe_canon W p)"
| "packet_canon W (Unsuback p) = Unsuback (suback_canon W p)"
| "packet_canon W (Unsubscribe p) = Unsubscribe (unsubscribe_canon W p)"

text \<open>A packet that can be written: its parts can, and its body fits into a remaining length.\<close>

definition packet_ok :: "winnow \<Rightarrow> MqttPacket \<Rightarrow> bool" where
  "packet_ok W p \<longleftrightarrow> body_ok W p \<and> fits (enc_body W p)"

definition enc_packet :: "winnow \<Rightarrow> MqttPacket \<Rightarrow> bytes" where
  "enc_packet W p =
     [header_byte (header_of p)] @ enc_var (word_of_nat (length (enc_body W p))) @ enc_body W p"

section \<open>Lemmas\<close>

context winnow_spec begin

lemma parse_packet_ok: "parser_ok (parse_packet W pt)"
  by (cases pt)
    (auto intro!: parser_map MConnect_parse_ok MConnack_parse_ok MPublish_parse_ok MSubscribe_parse_ok
      MUnsubscribe_parse_ok MDisconnect_parse_ok MAuth_parse_ok ack_parse_ok suback_parse_ok eof_ok
      simp: MPuback_parse_def MPubrec_parse_def MPubrel_parse_def MPubcomp_parse_def MSuback_parse_def
        MUnsuback_parse_def MPingreq_parse_def MPingresp_parse_def)

lemma MqttPacket_parse_strict: "parser_strict (MqttPacket_parse W)"
  unfolding MqttPacket_parse_def
  by (intro parser_intros parser_strict_ok [OF length_and_then_strict] parse_packet_ok)

lemma parse_packet_enc:
  "body_ok W p \<Longrightarrow> parse_packet W (header_of p) (enc_body W p) = POk (packet_canon W p) []"
  by (cases p)
    (simp_all add: p_map_def connect.body.body_parse_enc connack.body.body_parse_enc
      publish.body_parse_enc puback.body_parse_enc pubrec.body_parse_enc pubrel.body_parse_enc
      pubcomp.body_parse_enc subscribe.body_parse_enc unsubscribe.body_parse_enc suback.body_parse_enc
      unsuback.body_parse_enc disconnect.body_parse_enc auth.body.body_parse_enc
      MPingreq_parse_def MPingresp_parse_def eof,
      metis MPingreq.exhaust, metis MPingresp.exhaust)

lemma packet_write_enc: "body_ok W p \<Longrightarrow> writes (packet_write W p) (enc_body W p)"
  by (cases p)
    (auto intro: connect.write_enc connack.write_enc MPublish_write_enc puback.body_write_enc
      pubrec.body_write_enc pubrel.body_write_enc pubcomp.body_write_enc subscribe.body_write_enc
      unsubscribe.body_write_enc suback.body_write_enc unsuback.body_write_enc
      disconnect.body_write_enc auth.write_enc pingreq.body_write_enc pingresp.body_write_enc)

lemma packet_size_enc: "body_ok W p \<Longrightarrow> sizes (packet_size W p) (enc_body W p)"
  by (cases p)
    (auto intro: connect.size_enc connack.size_enc MPublish_size_enc puback.body_size_enc
      pubrec.body_size_enc pubrel.body_size_enc pubcomp.body_size_enc subscribe.body_size_enc
      unsubscribe.body_size_enc suback.body_size_enc unsuback.body_size_enc
      disconnect.body_size_enc auth.size_enc pingreq.body_size_enc pingresp.body_size_enc)

lemma packet_eq_canon: "body_ok W p \<Longrightarrow> packet_eq W p (packet_canon W p) = Some True"
  by (cases p)
    (auto simp: MConnect_eq_canon MConnack_eq_canon MPublish_eq_canon MSubscribe_eq_canon
      MUnsubscribe_eq_canon MDisconnect_eq_canon MAuth_eq_canon dest: ack_eq_canon suback_eq_canon)

text \<open>What the parsers of the bodies accept.\<close>

lemma parse_packet_sound:
  assumes "fits i" and "parse_packet W pt i = POk p r"
  shows "packet_ok W p \<and> header_of p = pt"
proof (cases pt)
  case (PT_Publish dup qos retain)
  then show ?thesis
    using assms(2) publish.body_parse_sound [OF assms(1), of dup qos retain]
    by (auto simp: p_map_POk packet_ok_def)
qed (use assms(2) in \<open>auto simp: p_map_POk packet_ok_def fits_def [of "[]"]
    dest!: connect.body.body_parse_sound [OF assms(1)] connack.body.body_parse_sound [OF assms(1)]
      puback.body_parse_sound [OF assms(1)] pubrec.body_parse_sound [OF assms(1)]
      pubrel.body_parse_sound [OF assms(1)] pubcomp.body_parse_sound [OF assms(1)]
      subscribe.body_parse_sound [OF assms(1)] unsubscribe.body_parse_sound [OF assms(1)]
      suback.body_parse_sound [OF assms(1)] unsuback.body_parse_sound [OF assms(1)]
      disconnect.body_parse_sound [OF assms(1)] auth.body.body_parse_sound [OF assms(1)]\<close>)

text \<open>A header, the length of a body and the body are written and read in one piece.\<close>

lemma MqttPacket_parse_body:
  assumes "length body \<le> 268435455"
  shows "MqttPacket_parse W ([header_byte pt] @ enc_var (word_of_nat (length body)) @ body @ r) =
    (case parse_packet W pt body of POk p r' \<Rightarrow> POk p r | PErr e \<Rightarrow> PErr e)"
proof -
  have "p_map unat (parse_variable_u32 W False) (enc_var (word_of_nat (length body)) @ body @ r) =
      POk (length body) (body @ r)"
    using assms by (simp add: p_map_def var_u32.parse_enc var_len_le unat_var_len)
  then have "length_and_then W (p_map unat (parse_variable_u32 W False)) (parse_packet W pt)
      (enc_var (word_of_nat (length body)) @ body @ r) =
    (case parse_packet W pt body of POk p r' \<Rightarrow> POk p r | PErr e \<Rightarrow> PErr e)"
    by (simp add: length_and_then_POk [where n = "length body"])
  then show ?thesis
    using header.parse_enc [of "\<lparr>packet_type = pt\<rparr>"]
    by (simp add: MqttPacket_parse_def p_bind_def)
qed

lemma MqttPacket_write_body:
  assumes "writes (packet_write W p) body" and "sizes (packet_size W p) body"
    and "length body \<le> 268435455"
  shows "writes (MqttPacket_write W p)
    ([header_byte (header_of p)] @ enc_var (word_of_nat (length body)) @ body)"
proof -
  have "packet_size W p = Some (word_of_nat (length body))" using assms(2) by (simp add: sizes_def)
  moreover have "writes (MFixedHeader_write \<lparr>packet_type = header_of p\<rparr>) [header_byte (header_of p)]"
    using header.write_enc [of "\<lparr>packet_type = header_of p\<rparr>"] by simp
  ultimately show ?thesis
    using assms(1,3) unfolding MqttPacket_write_def
    by (intro writes_Cons writes_one) (simp_all add: var_u32.write_enc var_len_le)
qed

lemma MqttPacket_parse_enc:
  "packet_ok W p \<Longrightarrow> MqttPacket_parse W (enc_packet W p @ r) = POk (packet_canon W p) r"
  using MqttPacket_parse_body [of "enc_body W p" "header_of p" r]
  by (simp add: enc_packet_def packet_ok_def fits_def parse_packet_enc)

lemma MqttPacket_write_enc:
  "packet_ok W p \<Longrightarrow> writes (MqttPacket_write W p) (enc_packet W p)"
  unfolding enc_packet_def packet_ok_def fits_def
  by (intro MqttPacket_write_body packet_write_enc packet_size_enc) simp_all

lemma MqttPacket_size_enc:
  assumes "packet_ok W p"
  shows "sizes (MqttPacket_binary_size W p) (enc_packet W p)"
proof -
  have n: "length (enc_body W p) \<le> 268435455" using assms by (simp add: packet_ok_def fits_def)
  have s: "packet_size W p = Some (word_of_nat (length (enc_body W p)))"
    using packet_size_enc [of p] assms by (simp add: packet_ok_def sizes_def)
  show ?thesis
    unfolding MqttPacket_binary_size_def enc_packet_def s option.case
    by (intro sizes_sum_Cons sizes_one)
      (simp_all add: var_u32.size_enc var_len_le n sizes_def [of "Some _"] sizes_def [of MFixedHeader_binary_size]
        MFixedHeader_binary_size_def)
qed

lemma MqttPacket_parse_sound:
  assumes "MqttPacket_parse W i = POk p r"
  shows "packet_ok W p"
proof -
  obtain h i1 n i2 r' where "MFixedHeader_parse W i = POk h i1"
    and n: "parse_variable_u32 W False i1 = POk n i2" "unat n \<le> length i2"
    and p: "parse_packet W (packet_type h) (take (unat n) i2) = POk p r'"
    using assms
    by (auto simp: MqttPacket_parse_def length_and_then_def p_bind_def p_inner_def length_take p_map_def
        split: presult.splits if_splits)
  have "fits (take (unat n) i2)"
    using parse_var_sound [OF n(1)] n(2) by (simp add: fits_def VARIABLE_INTEGER_MAX_def word_le_nat_alt)
  from parse_packet_sound [OF this p] show ?thesis by simp
qed

end

section \<open>The codec\<close>

sublocale winnow_spec \<subseteq> packet:
  codec "MqttPacket_parse W" "MqttPacket_write W" "MqttPacket_binary_size W" "enc_packet W"
    "packet_ok W" "packet_canon W"
  by unfold_locales (simp_all add: MqttPacket_parse_enc MqttPacket_write_enc MqttPacket_size_enc)

context winnow_spec begin

lemmas MqttPacket_roundtrip = packet.roundtrip

lemma MqttPacket_parse_header:
  assumes "MqttPacket_parse W i = POk p r"
  shows "i \<noteq> [] \<and> hd i = header_byte (header_of p)"
proof -
  obtain h i1 n i2 r' where h: "MFixedHeader_parse W i = POk h i1"
    and n: "parse_variable_u32 W False i1 = POk n i2" "unat n \<le> length i2"
    and p: "parse_packet W (packet_type h) (take (unat n) i2) = POk p r'"
    using assms
    by (auto simp: MqttPacket_parse_def length_and_then_def p_bind_def p_inner_def length_take p_map_def
        split: presult.splits if_splits)
  have "fits (take (unat n) i2)"
    using parse_var_sound [OF n(1)] n(2) by (simp add: fits_def VARIABLE_INTEGER_MAX_def word_le_nat_alt)
  from parse_packet_sound [OF this p] h show ?thesis by (simp add: MFixedHeader_parse_POk)
qed

end

section \<open>Properties\<close>

definition example_puback :: MqttPacket where
  "example_puback =
     Puback \<lparr>ack_packet_identifier = 10, ack_reason = Success,
       ack_properties = [Some (ReasonString [0x6F, 0x6B]), None]\<rparr>"

text \<open>
  C1. Writing a packet of any type that satisfies \<open>packet_ok\<close> and parsing what was written
  gives the packet back, whatever follows it in the input; the result is equal to the packet in the
  sense of the derived \<open>PartialEq\<close>, and \<open>binary_size\<close> announces exactly the number of bytes
  written. \<open>packet_ok\<close> asks that every string is valid UTF-8 and no string or binary datum is
  longer than 65535 bytes; that the packet identifier is not zero and that a PUBLISH has one exactly
  if its quality of service is not 0; that the topic name of a PUBLISH has no \<open>#\<close> and no \<open>*\<close>;
  that reason codes and properties are among those of the packet type, the properties with their
  sections shorter than 268435456 bytes; that the list of a SUBSCRIBE or UNSUBSCRIBE is not empty and
  parses; and that the body has at most 268435455 bytes. Every packet that was parsed satisfies it; of
  the others some are refused by the writers, and some are written in a form that is not read back,
  such as a PUBLISH of quality of service 1 without identifier.
\<close>

theorem packet_roundtrip:
  assumes "winnow_spec W" and "packet_ok W p"
  shows "\<exists>bs. MqttPacket_write W p buf = (WOk, buf @ bs) \<and>
    MqttPacket_parse W (bs @ r) = POk (packet_canon W p) r \<and>
    packet_eq W p (packet_canon W p) = Some True \<and>
    MqttPacket_binary_size W p = Some (word_of_nat (length bs))"
  using winnow_spec.MqttPacket_roundtrip [OF assms(1)] winnow_spec.packet_eq_canon [OF assms(1)] assms(2)
  by (simp add: packet_ok_def)

lemma packet_roundtrip_witness:
  "\<exists>bs. MqttPacket_write winnow_ref example_puback [] = (WOk, [] @ bs) \<and>
    MqttPacket_parse winnow_ref (bs @ [0xC0]) = POk (packet_canon winnow_ref example_puback) [0xC0] \<and>
    packet_eq winnow_ref example_puback (packet_canon winnow_ref example_puback) = Some True \<and>
    MqttPacket_binary_size winnow_ref example_puback = Some (word_of_nat (length bs))"
  by (rule packet_roundtrip [OF winnow_ref_spec]) code_simp

text \<open>
  C4. Every packet the parser accepts can be written again: no writer refuses it and none
  panics, and parsing the new bytes gives an equal packet.
\<close>

theorem packet_reencode:
  assumes "winnow_spec W" and "MqttPacket_parse W i = POk p r"
  shows "\<exists>bs. MqttPacket_write W p buf = (WOk, buf @ bs) \<and>
    MqttPacket_parse W (bs @ s) = POk (packet_canon W p) s \<and>
    packet_eq W p (packet_canon W p) = Some True"
  using winnow_spec.MqttPacket_roundtrip [OF assms(1)] winnow_spec.packet_eq_canon [OF assms(1)]
    winnow_spec.MqttPacket_parse_sound [OF assms]
  by (fastforce simp: packet_ok_def)

lemma packet_reencode_witness:
  "MqttPacket_parse winnow_ref [0x40, 2, 0, 10] = POk (Puback \<lparr>ack_packet_identifier = 10,
      ack_reason = Success, ack_properties = [None, None]\<rparr>) [] \<and>
   (\<exists>bs. MqttPacket_write winnow_ref (Puback \<lparr>ack_packet_identifier = 10,
      ack_reason = Success, ack_properties = [None, None]\<rparr>) [] = (WOk, [] @ bs))"
proof
  show p: "MqttPacket_parse winnow_ref [0x40, 2, 0, 10] = POk (Puback \<lparr>ack_packet_identifier = 10,
      ack_reason = Success, ack_properties = [None, None]\<rparr>) []" by code_simp
  from packet_reencode [OF winnow_ref_spec p] show "\<exists>bs. MqttPacket_write winnow_ref
    (Puback \<lparr>ack_packet_identifier = 10, ack_reason = Success, ack_properties = [None, None]\<rparr>) [] =
      (WOk, [] @ bs)" by blast
qed

text \<open>
  C13. On any input the parser of packets either accepts a packet, having consumed at least one
  byte and leaving a suffix of the input, or reports an error; it never asks for more input and
  no loop of it runs forever.
\<close>

theorem packet_parse_total:
  assumes "winnow_spec W"
  shows "(\<exists>p r. MqttPacket_parse W i = POk p r \<and> strict_suffix r i) \<or>
    MqttPacket_parse W i = PErr Backtrack \<or> MqttPacket_parse W i = PErr Cut"
  using winnow_spec.MqttPacket_parse_strict [OF assms]
  by (cases "MqttPacket_parse W i") (auto dest: parser_by_POk parser_by_PErr)

lemma packet_parse_total_witness:
  "(\<exists>p r. MqttPacket_parse winnow_ref [0xC0, 0, 1] = POk p r \<and> strict_suffix r [0xC0, 0, 1]) \<or>
    MqttPacket_parse winnow_ref [0xC0, 0, 1] = PErr Backtrack \<or>
    MqttPacket_parse winnow_ref [0xC0, 0, 1] = PErr Cut"
  by (rule packet_parse_total [OF winnow_ref_spec])

text \<open>
  The first byte of an accepted packet is the fixed header of the variant that is returned,
  with its flag bits: \<open>parse\<close> dispatches to the body parser that belongs to the header.
\<close>

lemma packet_parse_header:
  assumes "winnow_spec W" and "MqttPacket_parse W i = POk p r"
  shows "i \<noteq> [] \<and> hd i = header_byte (header_of p)"
  using winnow_spec.MqttPacket_parse_header [OF assms] .

end
