(* ===== verification/Packet_Id_Store.thy ===== *)
theory Packet_Id_Store
  imports Variable_Header
begin

text \<open>
  \<open>cloudmqtt-core/src/client/packet_identifier_store.rs\<close>: the trait
  \<open>PacketIdentifierStore\<close>, as a record of its operations with their contract as a locale, and
  \<open>UsizePacketIdentifierStore\<close>, which keeps the identifiers 1 to 64 in the bits of a
  \<open>usize\<close> (of 64 bits).
\<close>

section \<open>The trait\<close>

datatype PacketIdentifierUsage = Publish_Usage | NonPublish_Usage

definition usage_is_publish :: "PacketIdentifierUsage \<Rightarrow> bool" where
  "usage_is_publish u \<longleftrightarrow> u = Publish_Usage"

text \<open>A method with \<open>&mut self\<close> returns the new state; \<open>release\<close> may panic.\<close>

record 's pis =
  get_next_free :: "'s \<Rightarrow> PacketIdentifierUsage \<Rightarrow> PacketIdentifier option \<times> 's"
  release :: "'s \<Rightarrow> PacketIdentifier \<Rightarrow> 's outcome"
  release_non_publish_slots :: "'s \<Rightarrow> 's"
  pis_contains :: "'s \<Rightarrow> PacketIdentifier \<Rightarrow> bool"

section \<open>The contract\<close>

text \<open>
  A store stands for the set of identifiers in use and the set of those used by a publish.
\<close>

locale packet_id_store =
  fixes S :: "'s pis" and inv :: "'s \<Rightarrow> bool"
    and used :: "'s \<Rightarrow> PacketIdentifier set" and publishing :: "'s \<Rightarrow> PacketIdentifier set"
  assumes publishing_used: "inv s \<Longrightarrow> publishing s \<subseteq> used s"
    and next_free_Some: "inv s \<Longrightarrow> get_next_free S s u = (Some i, s') \<Longrightarrow>
      inv s' \<and> i \<noteq> 0 \<and> i \<notin> used s \<and> used s' = insert i (used s) \<and>
      publishing s' = (if usage_is_publish u then insert i (publishing s) else publishing s)"
    and next_free_None: "get_next_free S s u = (None, s') \<Longrightarrow> s' = s"
    and release_used: "inv s \<Longrightarrow> i \<in> used s \<Longrightarrow> \<exists>s'. release S s i = Return s' \<and> inv s' \<and>
      used s' = used s - {i} \<and> publishing s' = publishing s - {i}"
    and release_non_publish: "inv s \<Longrightarrow> inv (release_non_publish_slots S s) \<and>
      used (release_non_publish_slots S s) = publishing s \<and>
      publishing (release_non_publish_slots S s) = publishing s"
    and contains_used: "inv s \<Longrightarrow> i \<noteq> 0 \<Longrightarrow> pis_contains S s i \<longleftrightarrow> i \<in> used s"
begin

lemma next_free_fresh:
  assumes "inv s" and "get_next_free S s u = (Some i, s')"
  shows "i \<noteq> 0 \<and> \<not> pis_contains S s i \<and> pis_contains S s' i"
  using next_free_Some [OF assms] contains_used assms(1) by auto

lemma two_next_free:
  assumes "inv s" and "get_next_free S s u = (Some i, s')" and "get_next_free S s' u' = (Some j, s'')"
  shows "i \<noteq> j"
  using next_free_Some [OF assms(1,2)] next_free_Some [of s' u' j s''] assms(3) by auto

lemma acquire_release:
  assumes "inv s" and "get_next_free S s u = (Some i, s')"
  shows "\<exists>s''. release S s' i = Return s'' \<and> inv s'' \<and> used s'' = used s \<and> publishing s'' = publishing s"
proof -
  note n = next_free_Some [OF assms]
  then obtain s'' where "release S s' i = Return s''" "inv s''" "used s'' = used s' - {i}"
    "publishing s'' = publishing s' - {i}" using release_used [of s' i] by auto
  moreover have "i \<notin> publishing s" using n publishing_used [OF assms(1)] by auto
  ultimately show ?thesis using n by auto
qed

lemma release_absent:
  assumes "inv s" and "i \<in> used s" and "release S s i = Return s'"
  shows "inv s' \<and> used s' = used s - {i} \<and> publishing s' = publishing s - {i}"
  using release_used [OF assms(1,2)] assms(3) by auto

end

section \<open>The implementation on \<open>usize\<close>\<close>

record UsizeStore =
  slots :: usize
  is_publish :: usize

definition UsizeStore_new :: UsizeStore where
  "UsizeStore_new = \<lparr>slots = 0, is_publish = 0\<rparr>"

text \<open>\<open>for bit_index in 0..usize::BITS\<close>, over the list of the indices that are left.\<close>

fun next_free_loop :: "UsizeStore \<Rightarrow> PacketIdentifierUsage \<Rightarrow> nat list \<Rightarrow> PacketIdentifier option \<times> UsizeStore" where
  "next_free_loop self usage [] = (None, self)"
| "next_free_loop self usage (bit_index # rest) =
     (let mask = push_bit bit_index 1 in
      if slots self AND mask = 0
      then
        (Some (word_of_nat bit_index + 1),
         self\<lparr>slots := slots self OR mask,
           is_publish := is_publish self OR (mask AND (if usage_is_publish usage then - 1 else 0))\<rparr>)
      else next_free_loop self usage rest)"

definition Usize_get_next_free :: "UsizeStore \<Rightarrow> PacketIdentifierUsage \<Rightarrow> PacketIdentifier option \<times> UsizeStore" where
  "Usize_get_next_free self usage = next_free_loop self usage [0..<64]"

text \<open>The \<open>assert!\<close> compares as \<open>u32\<close>; an identifier is never 0.\<close>

definition Usize_release :: "UsizeStore \<Rightarrow> PacketIdentifier \<Rightarrow> UsizeStore outcome" where
  "Usize_release self i =
     (if (ucast i :: u32) - 1 < 64
      then
        (let mask = push_bit (unat i - 1) 1 in
         Return (self\<lparr>slots := slots self AND NOT mask, is_publish := is_publish self AND NOT mask\<rparr>))
      else Panic)"

definition Usize_release_non_publish_slots :: "UsizeStore \<Rightarrow> UsizeStore" where
  "Usize_release_non_publish_slots self = self\<lparr>slots := slots self AND is_publish self\<rparr>"

definition Usize_contains :: "UsizeStore \<Rightarrow> PacketIdentifier \<Rightarrow> bool" where
  "Usize_contains self i \<longleftrightarrow>
     (if (ucast i :: u32) - 1 \<ge> 64 then False
      else (let mask = push_bit (unat i - 1) 1 in slots self AND mask \<noteq> 0))"

definition Usize_pis :: "UsizeStore pis" where
  "Usize_pis =
     \<lparr>get_next_free = Usize_get_next_free, release = Usize_release,
      release_non_publish_slots = Usize_release_non_publish_slots, pis_contains = Usize_contains\<rparr>"

lemmas store_defs [defs] =
  usage_is_publish_def UsizeStore_new_def Usize_get_next_free_def Usize_release_def
  Usize_release_non_publish_slots_def Usize_contains_def Usize_pis_def

section \<open>The abstraction\<close>

text \<open>The identifiers whose bits are set in a word.\<close>

definition ids_of :: "usize \<Rightarrow> PacketIdentifier set" where
  "ids_of w = {i. i \<noteq> 0 \<and> bit w (unat i - 1)}"

definition Usize_inv :: "UsizeStore \<Rightarrow> bool" where
  "Usize_inv s \<longleftrightarrow> is_publish s AND slots s = is_publish s"

section \<open>Lemmas\<close>

lemma Usize_inv_iff: "Usize_inv s \<longleftrightarrow> (\<forall>n. bit (is_publish s) n \<longrightarrow> bit (slots s) n)"
proof
  assume "Usize_inv s"
  then have "bit (is_publish s AND slots s) n = bit (is_publish s) n" for n
    by (simp add: Usize_inv_def)
  then show "\<forall>n. bit (is_publish s) n \<longrightarrow> bit (slots s) n" by (auto simp: bit_and_iff)
next
  assume "\<forall>n. bit (is_publish s) n \<longrightarrow> bit (slots s) n"
  then show "Usize_inv s" unfolding Usize_inv_def by (intro bit_eqI) (auto simp: bit_and_iff)
qed

lemma and_mask_0: "(w :: usize) AND 2 ^ n = 0 \<longleftrightarrow> \<not> bit w n"
  by (rule and_exp_eq_0_iff_not_bit)

lemma bit_mask: "bit (2 ^ n :: usize) m \<longleftrightarrow> n = m \<and> n < 64"
  by (auto simp: bit_exp_iff)

lemma bit_usize: "bit (w :: usize) n \<Longrightarrow> n < 64"
  using bit_imp_le_length [of w n] by simp

lemma id_of_index:
  assumes "n < 64"
  shows "(word_of_nat n + 1 :: PacketIdentifier) \<noteq> 0" "unat (word_of_nat n + 1 :: PacketIdentifier) = Suc n"
proof -
  show *: "unat (word_of_nat n + 1 :: PacketIdentifier) = Suc n"
    using assms by (simp add: unat_word_ariths unat_of_nat)
  then show "(word_of_nat n + 1 :: PacketIdentifier) \<noteq> 0" by (metis nat.distinct(1) unat_0)
qed

lemma id_eq_index: "(i :: PacketIdentifier) \<noteq> 0 \<Longrightarrow> n < 64 \<Longrightarrow> i = word_of_nat n + 1 \<longleftrightarrow> unat i - 1 = n"
  using id_of_index [of n] by (metis One_nat_def Suc_pred unat_eq_zero diff_Suc_1 word_unat_eq_iff neq0_conv)

lemma u32_index: "(i :: PacketIdentifier) \<noteq> 0 \<Longrightarrow> unat ((ucast i :: u32) - 1) = unat i - 1"
proof -
  assume "i \<noteq> 0"
  then have "0 < unat i" by (simp add: unat_gt_0)
  moreover have u: "unat (ucast i :: u32) = unat i"
    using unat_u16_less [of i] by (simp add: unsigned_ucast_eq take_bit_nat_eq_self)
  ultimately have "(1 :: u32) \<le> ucast i" by (simp add: word_le_nat_alt)
  then show ?thesis using u by (simp add: unat_sub)
qed

lemma id_index_inj:
  "(i :: PacketIdentifier) \<noteq> 0 \<Longrightarrow> j \<noteq> 0 \<Longrightarrow> unat i - 1 = unat j - 1 \<Longrightarrow> i = j"
  by (metis One_nat_def Suc_pred unat_gt_0 word_unat_eq_iff)

lemma ids_of_clear:
  assumes "i \<noteq> 0"
  shows "ids_of (w AND NOT (2 ^ (unat i - 1))) = ids_of w - {i}"
proof -
  have "bit (w AND NOT (2 ^ (unat i - 1))) (unat j - 1) \<longleftrightarrow> bit w (unat j - 1) \<and> j \<noteq> i" if "j \<noteq> 0" for j
    using id_index_inj [OF that assms] bit_usize [of w "unat j - 1"]
    by (auto simp: bit_and_iff bit_not_iff bit_mask)
  then show ?thesis by (auto simp: ids_of_def)
qed

text \<open>The loop takes the first free index.\<close>

lemma next_free_loop_Some:
  assumes "next_free_loop s u is = (Some i, s')" and "\<forall>n\<in>set is. n < 64"
  shows "\<exists>n\<in>set is. \<not> bit (slots s) n \<and> i = word_of_nat n + 1 \<and>
    s' = s\<lparr>slots := slots s OR 2 ^ n,
      is_publish := is_publish s OR (if usage_is_publish u then 2 ^ n else 0)\<rparr>"
  using assms
  by (induction "is") (auto simp: Let_def and_mask_0 split: if_splits)

lemma next_free_loop_None:
  "next_free_loop s u is = (None, s') \<longleftrightarrow> (\<forall>n\<in>set is. bit (slots s) n) \<and> s' = s"
  by (induction "is") (auto simp: Let_def and_mask_0)

text \<open>The first free one: smaller identifiers are all in use.\<close>

lemma next_free_loop_first:
  "next_free_loop s u (xs @ n # ys) = (Some (word_of_nat n + 1), s') \<Longrightarrow>
    \<forall>m\<in>set (xs @ n # ys). m < 64 \<Longrightarrow> distinct (xs @ n # ys) \<Longrightarrow> \<forall>m\<in>set xs. bit (slots s) m"
proof (induction xs)
  case (Cons x xs)
  show ?case
  proof (cases "bit (slots s) x")
    case True
    with Cons show ?thesis by (simp add: Let_def and_mask_0)
  next
    case False
    then have "word_of_nat x + 1 = (word_of_nat n + 1 :: PacketIdentifier)"
      using Cons.prems by (simp add: Let_def and_mask_0)
    moreover have "x < 64" "n < 64" "x \<noteq> n" using Cons.prems by auto
    ultimately show ?thesis using id_of_index [of x] id_of_index [of n] by (metis nat.inject)
  qed
qed simp

section \<open>The implementation satisfies the contract\<close>

lemma usize_get_next_free:
  assumes "Usize_inv s" and "get_next_free Usize_pis s u = (Some i, s')"
  shows "Usize_inv s' \<and> i \<noteq> 0 \<and> i \<notin> ids_of (slots s) \<and> ids_of (slots s') = insert i (ids_of (slots s)) \<and>
    ids_of (is_publish s') = (if usage_is_publish u then insert i (ids_of (is_publish s)) else ids_of (is_publish s))"
proof -
  obtain n where n: "n < 64" "\<not> bit (slots s) n" "i = word_of_nat n + 1"
    "s' = s\<lparr>slots := slots s OR 2 ^ n,
      is_publish := is_publish s OR (if usage_is_publish u then 2 ^ n else 0)\<rparr>"
    using next_free_loop_Some [of s u "[0..<64]" i s'] assms(2)
    by (auto simp: Usize_pis_def Usize_get_next_free_def simp del: upt_rec_numeral)
  have "Usize_inv s'" using assms(1) n by (auto simp: Usize_inv_iff bit_or_iff)
  moreover have "ids_of (slots s') = insert i (ids_of (slots s))"
    using n id_of_index [OF n(1)] id_eq_index [OF _ n(1)]
    by (auto simp: ids_of_def bit_or_iff bit_mask)
  moreover have "ids_of (is_publish s') =
      (if usage_is_publish u then insert i (ids_of (is_publish s)) else ids_of (is_publish s))"
    using n id_of_index [OF n(1)] id_eq_index [OF _ n(1)]
    by (auto simp: ids_of_def bit_or_iff bit_mask)
  moreover have "i \<notin> ids_of (slots s)" using n id_of_index [OF n(1)] by (simp add: ids_of_def)
  ultimately show ?thesis using n id_of_index [OF n(1)] by auto
qed

lemma usize_release:
  assumes "Usize_inv s" and "i \<in> ids_of (slots s)"
  shows "\<exists>s'. release Usize_pis s i = Return s' \<and> Usize_inv s' \<and> ids_of (slots s') = ids_of (slots s) - {i} \<and>
    ids_of (is_publish s') = ids_of (is_publish s) - {i}"
proof -
  have i0: "i \<noteq> 0" and b: "bit (slots s) (unat i - 1)" using assms(2) by (simp_all add: ids_of_def)
  have lt: "unat i - 1 < 64" by (rule bit_usize [OF b])
  then have "(ucast i :: u32) - 1 < 64" using u32_index [OF i0] by (simp add: word_less_nat_alt)
  then have "release Usize_pis s i = Return (s\<lparr>slots := slots s AND NOT (2 ^ (unat i - 1)),
      is_publish := is_publish s AND NOT (2 ^ (unat i - 1))\<rparr>)"
    by (simp add: Usize_pis_def Usize_release_def Let_def)
  then show ?thesis
    using assms(1) ids_of_clear [OF i0] by (auto simp: Usize_inv_iff bit_and_iff)
qed

interpretation usize_store: packet_id_store Usize_pis Usize_inv "\<lambda>s. ids_of (slots s)" "\<lambda>s. ids_of (is_publish s)"
proof
  fix s s' :: UsizeStore and u and i :: PacketIdentifier
  show "ids_of (is_publish s) \<subseteq> ids_of (slots s)" if "Usize_inv s"
    using that by (auto simp: ids_of_def Usize_inv_iff)
  show "s' = s" if "get_next_free Usize_pis s u = (None, s')"
    using that by (simp add: Usize_pis_def Usize_get_next_free_def next_free_loop_None del: upt_rec_numeral)
  show "Usize_inv (release_non_publish_slots Usize_pis s) \<and>
      ids_of (slots (release_non_publish_slots Usize_pis s)) = ids_of (is_publish s) \<and>
      ids_of (is_publish (release_non_publish_slots Usize_pis s)) = ids_of (is_publish s)" if "Usize_inv s"
    using that by (auto simp: Usize_pis_def Usize_release_non_publish_slots_def Usize_inv_iff ids_of_def
        bit_and_iff)
  show "pis_contains Usize_pis s i \<longleftrightarrow> i \<in> ids_of (slots s)" if "Usize_inv s" and "i \<noteq> 0"
    using that u32_index [of i] bit_usize [of "slots s" "unat i - 1"]
    by (auto simp: Usize_pis_def Usize_contains_def Let_def and_mask_0 ids_of_def word_le_nat_alt)
qed (fact usize_get_next_free usize_release)+

section \<open>Every outcome of the implementation\<close>

lemma index_of_id: "(i :: PacketIdentifier) \<noteq> 0 \<Longrightarrow> i \<le> 64 \<Longrightarrow> unat i - 1 < 64"
  by (simp add: word_le_nat_alt unat_gt_0 less_Suc_eq_le flip: Suc_le_eq)

lemma ids_of_le: "i \<in> ids_of w \<Longrightarrow> 0 < i \<and> i \<le> 64"
  using bit_usize [of w "unat i - 1"] by (auto simp: ids_of_def word_le_nat_alt word_greater_zero_iff)

lemma next_free_cases:
  assumes "Usize_inv s"
  shows "case Usize_get_next_free s u of
      (None, s') \<Rightarrow> s' = s \<and> ids_of (slots s) = {1..64}
    | (Some i, s') \<Rightarrow> Usize_inv s' \<and> i \<noteq> 0 \<and> i \<le> 64 \<and> i \<notin> ids_of (slots s) \<and>
        (\<forall>j. 0 < j \<and> j < i \<longrightarrow> j \<in> ids_of (slots s)) \<and>
        ids_of (slots s') = insert i (ids_of (slots s)) \<and>
        ids_of (is_publish s') =
          (if u = Publish_Usage then insert i (ids_of (is_publish s)) else ids_of (is_publish s))"
proof (cases "Usize_get_next_free s u")
  case (Pair r s')
  show ?thesis
  proof (cases r)
    case None
    then have "s' = s" "\<forall>n<64. bit (slots s) n"
      using Pair next_free_loop_None [of s u "[0..<64]" s']
      by (auto simp: Usize_get_next_free_def simp del: upt_rec_numeral)
    moreover have "i \<in> ids_of (slots s)" if "1 \<le> i" "i \<le> 64" for i
    proof -
      have "i \<noteq> 0" using that(1) by auto
      with calculation(2) index_of_id [OF this that(2)] show ?thesis by (simp add: ids_of_def)
    qed
    ultimately have "ids_of (slots s) = {1..64}"
      using ids_of_le [of _ "slots s"] by (auto simp: word_le_nat_alt word_less_nat_alt Suc_le_eq)
    with \<open>s' = s\<close> Pair None show ?thesis by simp
  next
    case (Some i)
    have n: "get_next_free Usize_pis s u = (Some i, s')" using Pair Some by (simp add: Usize_pis_def)
    obtain n where n': "n < 64" "i = word_of_nat n + 1"
      using Pair Some next_free_loop_Some [of s u "[0..<64]" i s']
      by (auto simp: Usize_get_next_free_def simp del: upt_rec_numeral)
    have "[0..<64] = [0..<n] @ n # [Suc n..<64]" using n'(1) by (metis upt_add_eq_append upt_conv_Cons le_add_diff_inverse le0 less_imp_le)
    with Pair Some n' have "next_free_loop s u ([0..<n] @ n # [Suc n..<64]) = (Some (word_of_nat n + 1), s')"
      by (simp add: Usize_get_next_free_def del: upt_rec_numeral)
    then have "\<forall>m\<in>set [0..<n]. bit (slots s) m"
      by (rule next_free_loop_first) (use n'(1) in auto)
    then have "j \<in> ids_of (slots s)" if "0 < j" "j < i" for j
      using that id_of_index [OF n'(1)] n'(2)
      by (auto simp: ids_of_def word_less_nat_alt word_greater_zero_iff)
    moreover have "i \<le> 64" using id_of_index [OF n'(1)] n' by (simp add: word_le_nat_alt)
    ultimately show ?thesis
      using usize_store.next_free_Some [OF assms n] Pair Some by (auto simp: usage_is_publish_def)
  qed
qed

lemma release_cases:
  assumes "Usize_inv s" and "i \<noteq> 0"
  shows "case Usize_release s i of
      Panic \<Rightarrow> 64 < i
    | Return s' \<Rightarrow> i \<le> 64 \<and> Usize_inv s' \<and> ids_of (slots s') = ids_of (slots s) - {i} \<and>
        ids_of (is_publish s') = ids_of (is_publish s) - {i}"
proof -
  have "(ucast i :: u32) - 1 < 64 \<longleftrightarrow> i \<le> 64"
    using u32_index [OF assms(2)] assms(2) by (auto simp: word_less_nat_alt word_le_nat_alt unat_gt_0)
  then show ?thesis
    using assms ids_of_clear [OF assms(2)]
    by (auto simp: Usize_release_def Let_def Usize_inv_iff bit_and_iff)
qed

section \<open>Properties\<close>

definition example_store :: UsizeStore where
  "example_store = \<lparr>slots = 5, is_publish = 4\<rparr>"

text \<open>
  C5. \<open>get_next_free\<close> refines the choice of the smallest identifier not in use: it fails, with
  the store unchanged, exactly when all of 1 to 64 are in use; otherwise the identifier it marks
  is new, at most 64 and smaller than every other free one, and it is a publish's if asked for one.
\<close>

theorem get_next_free_smallest:
  assumes "Usize_inv s"
  shows "case Usize_get_next_free s u of
      (None, s') \<Rightarrow> s' = s \<and> ids_of (slots s) = {1..64}
    | (Some i, s') \<Rightarrow> Usize_inv s' \<and> i \<noteq> 0 \<and> i \<le> 64 \<and> i \<notin> ids_of (slots s) \<and>
        (\<forall>j. 0 < j \<and> j < i \<longrightarrow> j \<in> ids_of (slots s)) \<and>
        ids_of (slots s') = insert i (ids_of (slots s)) \<and>
        ids_of (is_publish s') =
          (if u = Publish_Usage then insert i (ids_of (is_publish s)) else ids_of (is_publish s))"
  using next_free_cases [OF assms, of u] .

lemma get_next_free_smallest_witness:
  "\<exists>s'. Usize_get_next_free example_store Publish_Usage = (Some 2, s') \<and> Usize_inv s' \<and>
    ids_of (slots s') = insert 2 (ids_of (slots example_store)) \<and>
    ids_of (is_publish s') = insert 2 (ids_of (is_publish example_store))"
proof -
  have "Usize_get_next_free example_store Publish_Usage = (Some 2, \<lparr>slots = 7, is_publish = 6\<rparr>)"
    "Usize_inv example_store" by code_simp+
  with get_next_free_smallest [of example_store Publish_Usage] show ?thesis by simp
qed

text \<open>
  Releasing an identifier up to 64 takes it out of the store and changes no other; a larger
  one hits the assertion. What \<open>contains\<close> says afterwards agrees.
\<close>

lemma release_exact:
  assumes "Usize_inv s" and "i \<noteq> 0"
  shows "case Usize_release s i of
      Panic \<Rightarrow> 64 < i
    | Return s' \<Rightarrow> i \<le> 64 \<and> Usize_inv s' \<and> ids_of (slots s') = ids_of (slots s) - {i} \<and>
        ids_of (is_publish s') = ids_of (is_publish s) - {i} \<and>
        (\<forall>j. j \<noteq> 0 \<longrightarrow> Usize_contains s' j = (j \<noteq> i \<and> Usize_contains s j))"
  using release_cases [OF assms] usize_store.contains_used assms(1)
  by (auto simp: Usize_pis_def split: outcome.splits)

text \<open>
  \<open>release_non_publish_slots\<close>, called when a connection ends, keeps exactly the identifiers
  of publishes.
\<close>

lemma release_non_publish_exact:
  assumes "Usize_inv s"
  shows "Usize_inv (Usize_release_non_publish_slots s) \<and>
    ids_of (slots (Usize_release_non_publish_slots s)) = ids_of (is_publish s) \<and>
    ids_of (is_publish (Usize_release_non_publish_slots s)) = ids_of (is_publish s)"
  using usize_store.release_non_publish [OF assms] by (simp add: Usize_pis_def)

end
