(* ===== verification/Client_FSM.thy ===== *)
theory Client_FSM
  imports Mqtt_Packet Packet_Id_Store
begin

text \<open>
  \<open>cloudmqtt-core/src/client/mod.rs\<close>: the client state machine, without I/O. A method with
  \<open>&mut self\<close> returns the new state; a panic (\<open>assert!\<close>, \<open>unwrap\<close>, \<open>expect\<close>,
  \<open>todo!\<close>, \<open>panic!\<close>) is the outcome \<open>Panic\<close>. The store of packet identifiers is a type
  parameter of the code and the record \<open>S\<close> here; \<open>FxHasher\<close>, of another crate, is the
  function \<open>fx\<close> from strings to hashes.
\<close>

section \<open>The state\<close>

type_synonym MqttInstant = u64

text \<open>\<open>u64::abs_diff\<close>\<close>

definition elapsed_seconds :: "MqttInstant \<Rightarrow> MqttInstant \<Rightarrow> u64" where
  "elapsed_seconds self current_time =
     (if self < current_time then current_time - self else self - current_time)"

datatype PingState = WaitingForElapsed | WaitingForPingrespSince MqttInstant

record ConnectedData =
  last_time_sent :: MqttInstant
  ping_state :: PingState

datatype ConnectionState =
    Disconnected
  | ConnectingWithoutAuth (connect_sent: MqttInstant)
  | Connected ConnectedData

definition is_connected :: "ConnectionState \<Rightarrow> bool" where
  "is_connected st = (case st of Connected c \<Rightarrow> True | _ \<Rightarrow> False)"

record ClientData =
  keep_alive :: u16
  client_id_hash :: "u64 option"
  last_time_run :: MqttInstant

record 's fsm =
  data :: ClientData
  connection_state :: ConnectionState
  client_pis :: 's

definition fsm_new :: "'s \<Rightarrow> 's fsm" where
  "fsm_new pis =
     \<lparr>data = \<lparr>keep_alive = 0, client_id_hash = None, last_time_run = 0\<rparr>,
      connection_state = Disconnected, client_pis = pis\<rparr>"

section \<open>Actions\<close>

datatype ReceivePacket =
    NoFurtherAction MqttPacket
  | AcknowledgeNeeded MqttPacket PacketIdentifier

datatype ExpectedAction =
    SendPacket MqttPacket
  | SaveClientIdentifier rstr
  | StorePacket PacketIdentifier
  | ReleasePacket PacketIdentifier
  | ReceivePacket ReceivePacket
  | DisconnectAction

datatype ExternalInfos =
    ConsumePacket MqttPacket
  | PublishPacket MqttPacket
  | NoInfos

type_synonym 's run_result = "(ExpectedAction option \<times> 's fsm) outcome"

section \<open>The steps of the machine\<close>

definition set_last_run :: "MqttInstant \<Rightarrow> 's fsm \<Rightarrow> 's fsm" where
  "set_last_run t m = m\<lparr>data := (data m)\<lparr>last_time_run := t\<rparr>\<rparr>"

definition reset_connection :: "'s pis \<Rightarrow> 's fsm \<Rightarrow> 's fsm" where
  "reset_connection S m =
     m\<lparr>client_pis := release_non_publish_slots S (client_pis m), connection_state := Disconnected\<rparr>"

definition handle_connect :: "(rstr \<Rightarrow> u64) \<Rightarrow> 's fsm \<Rightarrow> MqttInstant \<Rightarrow> MConnect \<Rightarrow> (ExpectedAction \<times> 's fsm) outcome" where
  "handle_connect fx m current_time connect =
     (if connection_state m \<noteq> Disconnected then Panic
      else
        let d = (data m)\<lparr>keep_alive := con_keep_alive connect\<rparr>;
            id_hash = (if con_client_identifier connect = [] then None
                       else Some (fx (con_client_identifier connect)));
            connecting = (\<lambda>d. Return (SendPacket (Connect connect),
              m\<lparr>data := d, connection_state := ConnectingWithoutAuth current_time\<rparr>))
        in case client_id_hash d of
             Some i \<Rightarrow> if id_hash = Some i then connecting d else Panic
           | None \<Rightarrow> connecting (d\<lparr>client_id_hash := id_hash\<rparr>))"

text \<open>One arm per packet type; the others are \<open>panic!("Invalid packet received")\<close>.\<close>

definition connected_consume :: "'s pis \<Rightarrow> 's fsm \<Rightarrow> ConnectedData \<Rightarrow> MqttPacket \<Rightarrow> 's run_result" where
  "connected_consume S m con incoming_packet =
     (case incoming_packet of
        Publish publish \<Rightarrow>
          (case pub_quality_of_service publish of
             AtMostOnce \<Rightarrow> Return (Some (ReceivePacket (NoFurtherAction (Publish publish))), m)
           | AtLeastOnce \<Rightarrow>
               (case pub_packet_identifier publish of
                  None \<Rightarrow> Panic
                | Some i \<Rightarrow> Return (Some (ReceivePacket (AcknowledgeNeeded (Publish publish) i)), m))
           | ExactlyOnce \<Rightarrow> Panic)
      | Disconnect _ \<Rightarrow> Return (Some DisconnectAction, reset_connection S m)
      | Puback puback \<Rightarrow>
          (if pis_contains S (client_pis m) (ack_packet_identifier puback)
           then (case release S (client_pis m) (ack_packet_identifier puback) of
                   Panic \<Rightarrow> Panic
                 | Return pis \<Rightarrow>
                     Return (Some (ReleasePacket (ack_packet_identifier puback)), m\<lparr>client_pis := pis\<rparr>))
           else Panic)
      | Pingresp _ \<Rightarrow>
          (case ping_state con of
             WaitingForPingrespSince since \<Rightarrow>
               Return (None, m\<lparr>connection_state := Connected (con\<lparr>ping_state := WaitingForElapsed\<rparr>)\<rparr>)
           | WaitingForElapsed \<Rightarrow> Panic)
      | Suback suback \<Rightarrow>
          (if pis_contains S (client_pis m) (suback_packet_identifier suback)
           then (case release S (client_pis m) (suback_packet_identifier suback) of
                   Panic \<Rightarrow> Panic
                 | Return pis \<Rightarrow> Return (None, m\<lparr>client_pis := pis\<rparr>))
           else Panic)
      | _ \<Rightarrow> Panic)"

definition handle_connected :: "'s pis \<Rightarrow> 's fsm \<Rightarrow> ConnectedData \<Rightarrow> MqttInstant \<Rightarrow> ExternalInfos \<Rightarrow> 's run_result" where
  "handle_connected S m con current_time external_infos =
     (case external_infos of
        ConsumePacket incoming_packet \<Rightarrow> connected_consume S m con incoming_packet
      | PublishPacket outgoing_publish \<Rightarrow>
          Return (Some (SendPacket outgoing_publish),
            m\<lparr>connection_state := Connected (con\<lparr>last_time_sent := current_time\<rparr>)\<rparr>)
      | NoInfos \<Rightarrow>
          (if 0 < keep_alive (data m)
           then
             (case ping_state con of
                WaitingForElapsed \<Rightarrow>
                  (if elapsed_seconds (last_time_sent con) current_time \<ge> ucast (keep_alive (data m))
                   then Return (Some (SendPacket (Pingreq MPingreq)),
                     m\<lparr>connection_state := Connected (con\<lparr>ping_state := WaitingForPingrespSince current_time,
                       last_time_sent := current_time\<rparr>)\<rparr>)
                   else Return (None, m))
              | WaitingForPingrespSince since \<Rightarrow> Return (None, m))
           else Return (None, m)))"

definition handle_connecting_without_auth ::
  "(rstr \<Rightarrow> u64) \<Rightarrow> 's fsm \<Rightarrow> MqttInstant \<Rightarrow> ExternalInfos \<Rightarrow> 's run_result" where
  "handle_connecting_without_auth fx m sent external_infos =
     (case external_infos of
        ConsumePacket to_consume_packet \<Rightarrow>
          (case to_consume_packet of
             Connack connack \<Rightarrow>
               if connack_reason_code connack \<noteq> Success then Panic
               else
                 (let ks = connack_properties connack;
                      d = (case props_get ConnackProperties ks ServerKeepAlive_K of
                             Some (ServerKeepAlive k) \<Rightarrow> (data m)\<lparr>keep_alive := k\<rparr>
                           | _ \<Rightarrow> data m);
                      potential_client_id =
                        (case props_get ConnackProperties ks AssignedClientIdentifier_K of
                           Some (AssignedClientIdentifier c) \<Rightarrow> Some c
                         | _ \<Rightarrow> None);
                      d' = (case potential_client_id of
                              Some c \<Rightarrow> d\<lparr>client_id_hash := Some (fx c)\<rparr>
                            | None \<Rightarrow> d)
                  in Return (map_option SaveClientIdentifier potential_client_id,
                       m\<lparr>data := d', connection_state :=
                         Connected \<lparr>last_time_sent = sent, ping_state = WaitingForElapsed\<rparr>\<rparr>))
           | _ \<Rightarrow> Panic)
      | PublishPacket _ \<Rightarrow> Panic
      | NoInfos \<Rightarrow> Return (None, m))"

definition inner_run :: "'s pis \<Rightarrow> (rstr \<Rightarrow> u64) \<Rightarrow> 's fsm \<Rightarrow> MqttInstant \<Rightarrow> ExternalInfos \<Rightarrow> 's run_result" where
  "inner_run S fx m current_time external_infos =
     (let res =
        (case connection_state m of
           Disconnected \<Rightarrow> Return (None, set_last_run current_time m)
         | ConnectingWithoutAuth sent \<Rightarrow> handle_connecting_without_auth fx m sent external_infos
         | Connected con \<Rightarrow> handle_connected S m con current_time external_infos)
      in case res of
           Panic \<Rightarrow> Panic
         | Return (action, m') \<Rightarrow> Return (action, set_last_run current_time m'))"

text \<open>\<open>MqttClientConsumer::run\<close> and \<open>MqttClientFSM::run\<close>\<close>

definition consume_run :: "'s pis \<Rightarrow> (rstr \<Rightarrow> u64) \<Rightarrow> 's fsm \<Rightarrow> MqttPacket \<Rightarrow> MqttInstant \<Rightarrow> 's run_result" where
  "consume_run S fx m packet current_time = inner_run S fx m current_time (ConsumePacket packet)"

definition fsm_run :: "'s pis \<Rightarrow> (rstr \<Rightarrow> u64) \<Rightarrow> 's fsm \<Rightarrow> MqttInstant \<Rightarrow> 's run_result" where
  "fsm_run S fx m current_time = inner_run S fx m current_time NoInfos"

section \<open>The helpers that borrow the machine\<close>

datatype PublishingState = Store | Send | Done

record MqttClientPublisher =
  publisher_packet :: "MPublish option"
  publisher_state :: PublishingState

definition publish :: "MPublish \<Rightarrow> MqttClientPublisher" where
  "publish packet =
     \<lparr>publisher_packet = Some packet,
      publisher_state = (if pub_quality_of_service packet = AtMostOnce then Send else Store)\<rparr>"

definition publisher_run :: "'s pis \<Rightarrow> (rstr \<Rightarrow> u64) \<Rightarrow> 's fsm \<Rightarrow> MqttClientPublisher \<Rightarrow> MqttInstant \<Rightarrow>
    (ExpectedAction option \<times> 's fsm \<times> MqttClientPublisher) outcome" where
  "publisher_run S fx m self current_time =
     (case publisher_state self of
        Store \<Rightarrow>
          (case publisher_packet self of
             Some packet \<Rightarrow>
               (if pub_quality_of_service packet \<noteq> AtMostOnce
                then
                  (case get_next_free S (client_pis m) Publish_Usage of
                     (None, pis) \<Rightarrow> Panic
                   | (Some i, pis) \<Rightarrow>
                       Return (Some (StorePacket i), m\<lparr>client_pis := pis\<rparr>,
                         \<lparr>publisher_packet = Some (packet\<lparr>pub_packet_identifier := Some i\<rparr>),
                          publisher_state = Send\<rparr>))
                else Return (None, m, self))
           | None \<Rightarrow> Return (None, m, self))
      | Send \<Rightarrow>
          (case publisher_packet self of
             None \<Rightarrow> Panic
           | Some packet \<Rightarrow>
               (case inner_run S fx m current_time (PublishPacket (Publish packet)) of
                  Panic \<Rightarrow> Panic
                | Return (action, m') \<Rightarrow>
                    Return (action, m', \<lparr>publisher_packet = None, publisher_state = Done\<rparr>)))
      | Done \<Rightarrow> Return (None, m, self))"

datatype DisconnectState = DisconnectPacket MqttPacket | DisconnectConnection | Disconnect_Done

definition disconnect :: "MDisconnect \<Rightarrow> DisconnectState" where
  "disconnect d = DisconnectPacket (Disconnect d)"

definition disconnecter_run :: "'s pis \<Rightarrow> 's fsm \<Rightarrow> DisconnectState \<Rightarrow> ExpectedAction option \<times> 's fsm \<times> DisconnectState" where
  "disconnecter_run S m state =
     (case state of
        DisconnectPacket packet \<Rightarrow> (Some (SendPacket packet), m, DisconnectConnection)
      | DisconnectConnection \<Rightarrow> (Some DisconnectAction, reset_connection S m, Disconnect_Done)
      | Disconnect_Done \<Rightarrow> (None, m, Disconnect_Done))"

section \<open>The other operations\<close>

definition subscribe :: "'s pis \<Rightarrow> (rstr \<Rightarrow> u64) \<Rightarrow> 's fsm \<Rightarrow> MqttInstant \<Rightarrow> MSubscribe \<Rightarrow>
    (ExpectedAction \<times> 's fsm) outcome" where
  "subscribe S fx m current_time packet =
     (case get_next_free S (client_pis m) NonPublish_Usage of
        (None, pis) \<Rightarrow> Panic
      | (Some i, pis) \<Rightarrow>
          (case inner_run S fx (m\<lparr>client_pis := pis\<rparr>) current_time
             (PublishPacket (Subscribe (packet\<lparr>sub_packet_identifier := i\<rparr>))) of
             Return (Some action, m') \<Rightarrow> Return (action, m')
           | _ \<Rightarrow> Panic))"

definition acknowledge :: "'s pis \<Rightarrow> (rstr \<Rightarrow> u64) \<Rightarrow> 's fsm \<Rightarrow> MqttInstant \<Rightarrow> PacketIdentifier \<Rightarrow>
    (ExpectedAction \<times> 's fsm) outcome" where
  "acknowledge S fx m current_time packet_identifier =
     (case inner_run S fx m current_time
        (PublishPacket (Puback \<lparr>ack_packet_identifier = packet_identifier, ack_reason = Success,
          ack_properties = props_new PubackProperties\<rparr>)) of
        Return (Some action, m') \<Rightarrow> Return (action, m')
      | _ \<Rightarrow> Panic)"

definition connection_lost :: "'s pis \<Rightarrow> 's fsm \<Rightarrow> MqttInstant \<Rightarrow> 's fsm" where
  "connection_lost S m current_time = reset_connection S (set_last_run current_time m)"

lemmas fsm_defs [defs] =
  elapsed_seconds_def is_connected_def fsm_new_def set_last_run_def reset_connection_def
  handle_connect_def connected_consume_def handle_connected_def handle_connecting_without_auth_def
  inner_run_def consume_run_def fsm_run_def publish_def publisher_run_def disconnect_def
  disconnecter_run_def subscribe_def acknowledge_def connection_lost_def

section \<open>Runs\<close>

text \<open>A \<open>NonZeroU16\<close> is never 0.\<close>

fun ids_nonzero :: "MqttPacket \<Rightarrow> bool" where
  "ids_nonzero (Puback a) \<longleftrightarrow> ack_packet_identifier a \<noteq> 0"
| "ids_nonzero (Suback a) \<longleftrightarrow> suback_packet_identifier a \<noteq> 0"
| "ids_nonzero p = True"

text \<open>A publisher or disconnecter may be run any number of times before it is dropped.\<close>

inductive publisher_steps :: "'s pis \<Rightarrow> (rstr \<Rightarrow> u64) \<Rightarrow> 's fsm \<Rightarrow> MqttClientPublisher \<Rightarrow>
    's fsm \<Rightarrow> MqttClientPublisher \<Rightarrow> bool" for S fx where
  drop: "publisher_steps S fx m b m b"
| run: "publisher_run S fx m b t = Return (a, m', b') \<Longrightarrow> publisher_steps S fx m' b' m'' b'' \<Longrightarrow>
    publisher_steps S fx m b m'' b''"

inductive disconnecter_steps :: "'s pis \<Rightarrow> 's fsm \<Rightarrow> DisconnectState \<Rightarrow> 's fsm \<Rightarrow> DisconnectState \<Rightarrow> bool"
  for S where
  drop: "disconnecter_steps S m d m d"
| run: "disconnecter_run S m d = (a, m', d') \<Longrightarrow> disconnecter_steps S m' d' m'' d'' \<Longrightarrow>
    disconnecter_steps S m d m'' d''"

text \<open>The calls a program can make, those that do not panic.\<close>

inductive fsm_step :: "'s pis \<Rightarrow> (rstr \<Rightarrow> u64) \<Rightarrow> 's fsm \<Rightarrow> 's fsm \<Rightarrow> bool" for S fx where
  connect: "handle_connect fx m t c = Return (a, m') \<Longrightarrow> fsm_step S fx m m'"
| consume: "consume_run S fx m p t = Return (ao, m') \<Longrightarrow> ids_nonzero p \<Longrightarrow> fsm_step S fx m m'"
| run: "fsm_run S fx m t = Return (ao, m') \<Longrightarrow> fsm_step S fx m m'"
| publish: "publisher_steps S fx m (publish q) m' b \<Longrightarrow> fsm_step S fx m m'"
| subscribe: "subscribe S fx m t sub = Return (a, m') \<Longrightarrow> fsm_step S fx m m'"
| acknowledge: "acknowledge S fx m t i = Return (a, m') \<Longrightarrow> fsm_step S fx m m'"
| disconnect: "disconnecter_steps S m (disconnect d) m' ds \<Longrightarrow> fsm_step S fx m m'"
| connection_lost: "fsm_step S fx m (connection_lost S m t)"

inductive reachable :: "'s pis \<Rightarrow> (rstr \<Rightarrow> u64) \<Rightarrow> 's \<Rightarrow> 's fsm \<Rightarrow> bool" for S fx pis where
  init: "reachable S fx pis (fsm_new pis)"
| step: "reachable S fx pis m \<Longrightarrow> fsm_step S fx m m' \<Longrightarrow> reachable S fx pis m'"

inductive_cases fsm_stepE: "fsm_step S fx m m'"

section \<open>Invariants, for any store\<close>

text \<open>
  No ping is outstanding without a keep-alive, and outside a connection only publishes hold
  packet identifiers.
\<close>

definition ping_inv :: "'s fsm \<Rightarrow> bool" where
  "ping_inv m \<longleftrightarrow>
     (\<forall>c. connection_state m = Connected c \<longrightarrow> ping_state c \<noteq> WaitingForElapsed \<longrightarrow>
        0 < keep_alive (data m))"

lemma set_last_run_simps [simp]:
  "connection_state (set_last_run t m) = connection_state m"
  "client_pis (set_last_run t m) = client_pis m"
  "keep_alive (data (set_last_run t m)) = keep_alive (data m)"
  "client_id_hash (data (set_last_run t m)) = client_id_hash (data m)"
  by (simp_all add: set_last_run_def)

lemma reset_connection_simps [simp]:
  "connection_state (reset_connection S m) = Disconnected"
  "client_pis (reset_connection S m) = release_non_publish_slots S (client_pis m)"
  "data (reset_connection S m) = data m"
  by (simp_all add: reset_connection_def)

lemma is_connected_simps [simp]:
  "is_connected (Connected c)" "\<not> is_connected Disconnected" "\<not> is_connected (ConnectingWithoutAuth t)"
  by (simp_all add: is_connected_def)

context packet_id_store begin

definition fsm_inv :: "'s fsm \<Rightarrow> bool" where
  "fsm_inv m \<longleftrightarrow> inv (client_pis m) \<and> ping_inv m \<and>
     (\<not> is_connected (connection_state m) \<longrightarrow> used (client_pis m) = publishing (client_pis m))"

lemma fsm_inv_last_run [simp]: "fsm_inv (set_last_run t m) = fsm_inv m"
  by (simp add: fsm_inv_def ping_inv_def)

lemma reset_connection_inv: "inv (client_pis m) \<Longrightarrow> fsm_inv (reset_connection S m)"
  using release_non_publish [of "client_pis m"] by (simp add: fsm_inv_def ping_inv_def)

lemma handle_connect_inv:
  assumes "handle_connect fx m t c = Return (a, m')" and "fsm_inv m"
  shows "fsm_inv m'"
  using assms by (auto simp: handle_connect_def Let_def fsm_inv_def ping_inv_def split: if_splits option.splits)

lemma release_inv:
  assumes "fsm_inv m" and "connection_state m = Connected con" and "i \<noteq> 0"
    and "pis_contains S (client_pis m) i" and "release S (client_pis m) i = Return pis"
  shows "fsm_inv (m\<lparr>client_pis := pis\<rparr>)"
  using assms release_absent [of "client_pis m" i pis] contains_used [of "client_pis m" i]
  by (auto simp: fsm_inv_def ping_inv_def)

lemma connected_consume_inv:
  assumes "connected_consume S m con p = Return (a, m')" and "fsm_inv m"
    and "connection_state m = Connected con" and "ids_nonzero p"
  shows "fsm_inv m'"
proof (cases p)
  case (Puback x)
  then show ?thesis
    using assms release_inv [OF assms(2,3), of "ack_packet_identifier x"]
    by (auto simp: connected_consume_def split: if_splits outcome.splits)
next
  case (Suback x)
  then show ?thesis
    using assms release_inv [OF assms(2,3), of "suback_packet_identifier x"]
    by (auto simp: connected_consume_def split: if_splits outcome.splits)
next
  case (Disconnect x)
  then show ?thesis
    using assms reset_connection_inv [of m] by (auto simp: connected_consume_def fsm_inv_def)
next
  case (Pingresp x)
  then show ?thesis
    using assms by (auto simp: connected_consume_def fsm_inv_def ping_inv_def split: PingState.splits)
next
  case (Publish x)
  then show ?thesis
    using assms by (auto simp: connected_consume_def split: QualityOfService.splits option.splits)
qed (use assms(1) in \<open>simp_all add: connected_consume_def\<close>)

lemma handle_connected_inv:
  assumes "handle_connected S m con t i = Return (a, m')" and "fsm_inv m"
    and "connection_state m = Connected con" and "\<And>p. i = ConsumePacket p \<Longrightarrow> ids_nonzero p"
  shows "fsm_inv m'"
proof (cases i)
  case (ConsumePacket p)
  with assms connected_consume_inv [of m con p a m'] show ?thesis by (simp add: handle_connected_def)
qed (use assms in \<open>auto simp: handle_connected_def fsm_inv_def ping_inv_def
    split: if_splits PingState.splits\<close>)

lemma connecting_inv:
  assumes "handle_connecting_without_auth fx m sent i = Return (a, m')" and "fsm_inv m"
    and "connection_state m = ConnectingWithoutAuth sent"
  shows "fsm_inv m'"
  using assms
  by (auto simp: handle_connecting_without_auth_def Let_def fsm_inv_def ping_inv_def
      split: ExternalInfos.splits MqttPacket.splits if_splits)

lemma inner_run_inv:
  assumes "inner_run S fx m t i = Return (a, m')" and "fsm_inv m"
    and "\<And>p. i = ConsumePacket p \<Longrightarrow> ids_nonzero p"
  shows "fsm_inv m'"
  using assms
  by (auto simp: inner_run_def Let_def split: ConnectionState.splits outcome.splits
      dest: connecting_inv handle_connected_inv)

lemma next_free_inv:
  assumes "fsm_inv m" and "get_next_free S (client_pis m) u = (Some i, pis)"
    and "u = Publish_Usage \<or> is_connected (connection_state m)"
  shows "fsm_inv (m\<lparr>client_pis := pis\<rparr>)"
  using assms next_free_Some [of "client_pis m" u i pis]
  by (auto simp: fsm_inv_def ping_inv_def usage_is_publish_def)

lemma publisher_run_inv:
  assumes "publisher_run S fx m b t = Return (a, m', b')" and "fsm_inv m"
  shows "fsm_inv m'"
  using assms
  by (auto simp: publisher_run_def split: PublishingState.splits option.splits prod.splits outcome.splits
      if_splits dest: inner_run_inv next_free_inv)

lemma publisher_steps_inv: "publisher_steps S fx m b m' b' \<Longrightarrow> fsm_inv m \<Longrightarrow> fsm_inv m'"
  by (induction rule: publisher_steps.induct) (auto dest: publisher_run_inv)

lemma disconnecter_steps_inv: "disconnecter_steps S m d m' d' \<Longrightarrow> fsm_inv m \<Longrightarrow> fsm_inv m'"
proof (induction rule: disconnecter_steps.induct)
  case (run m d a m' d' m'' d'')
  then have "fsm_inv m'"
    using reset_connection_inv [of m]
    by (auto simp: disconnecter_run_def fsm_inv_def split: DisconnectState.splits)
  with run show ?case by simp
qed

text \<open>A publish or a subscription needs a connection, or the machine panics.\<close>

lemma inner_run_publish:
  "inner_run S fx m t (PublishPacket p) =
    (case connection_state m of
       Disconnected \<Rightarrow> Return (None, set_last_run t m)
     | ConnectingWithoutAuth sent \<Rightarrow> Panic
     | Connected con \<Rightarrow> Return (Some (SendPacket p),
         set_last_run t (m\<lparr>connection_state := Connected (con\<lparr>last_time_sent := t\<rparr>)\<rparr>)))"
  by (simp add: inner_run_def handle_connecting_without_auth_def handle_connected_def set_last_run_def
      split: ConnectionState.split)

lemma subscribe_inv:
  assumes "subscribe S fx m t q = Return (a, m')" and "fsm_inv m"
  shows "fsm_inv m'"
proof -
  obtain i pis where n: "get_next_free S (client_pis m) NonPublish_Usage = (Some i, pis)"
    and r: "inner_run S fx (m\<lparr>client_pis := pis\<rparr>) t
      (PublishPacket (Subscribe (q\<lparr>sub_packet_identifier := i\<rparr>))) = Return (Some a, m')"
    using assms(1) by (auto simp: subscribe_def split: prod.splits option.splits outcome.splits)
  from r have "is_connected (connection_state m)"
    by (auto simp: inner_run_publish split: ConnectionState.splits)
  with next_free_inv [OF assms(2) n] inner_run_inv [OF r] show ?thesis by simp
qed

lemma fsm_step_inv:
  assumes "fsm_step S fx m m'" and "fsm_inv m"
  shows "fsm_inv m'"
  using assms
proof cases
  case (consume p t ao)
  then show ?thesis using inner_run_inv [of fx m t "ConsumePacket p" ao m'] assms(2)
    by (simp add: consume_run_def)
next
  case (run t ao)
  then show ?thesis using inner_run_inv [of fx m t NoInfos ao m'] assms(2) by (simp add: fsm_run_def)
next
  case (acknowledge t i a)
  then show ?thesis
    using assms(2) by (auto simp: acknowledge_def split: outcome.splits option.splits prod.splits dest: inner_run_inv)
next
  case (connection_lost t)
  then show ?thesis
    using assms(2) reset_connection_inv [of "set_last_run t m"] by (simp add: connection_lost_def fsm_inv_def)
qed (use assms(2) in \<open>auto dest: handle_connect_inv publisher_steps_inv subscribe_inv disconnecter_steps_inv\<close>)

lemma reachable_inv:
  assumes "reachable S fx pis m" and "inv pis" and "used pis = {}"
  shows "fsm_inv m"
  using assms(1)
proof (induction rule: reachable.induct)
  case init
  then show ?case
    using assms(2,3) publishing_used [OF assms(2)] by (simp add: fsm_inv_def fsm_new_def ping_inv_def)
next
  case (step m m')
  then show ?case by (blast intro: fsm_step_inv)
qed

subsection \<open>Exchanges with the server\<close>

lemma consume_puback:
  assumes "inv (client_pis m)" and "connection_state m = Connected con" and "ack_packet_identifier a \<noteq> 0"
    and "ack_packet_identifier a \<in> used (client_pis m)"
  shows "\<exists>m'. consume_run S fx m (Puback a) t = Return (Some (ReleasePacket (ack_packet_identifier a)), m') \<and>
    used (client_pis m') = used (client_pis m) - {ack_packet_identifier a} \<and>
    connection_state m' = connection_state m"
proof -
  obtain pis where "release S (client_pis m) (ack_packet_identifier a) = Return pis"
    "used pis = used (client_pis m) - {ack_packet_identifier a}"
    using release_used [OF assms(1,4)] by blast
  then show ?thesis
    using assms contains_used [OF assms(1,3)]
    by (simp add: consume_run_def inner_run_def handle_connected_def connected_consume_def)
qed

lemma consume_suback:
  assumes "inv (client_pis m)" and "connection_state m = Connected con" and "suback_packet_identifier a \<noteq> 0"
    and "suback_packet_identifier a \<in> used (client_pis m)"
  shows "\<exists>m'. consume_run S fx m (Suback a) t = Return (None, m') \<and>
    used (client_pis m') = used (client_pis m) - {suback_packet_identifier a} \<and>
    connection_state m' = connection_state m"
proof -
  obtain pis where "release S (client_pis m) (suback_packet_identifier a) = Return pis"
    "used pis = used (client_pis m) - {suback_packet_identifier a}"
    using release_used [OF assms(1,4)] by blast
  then show ?thesis
    using assms contains_used [OF assms(1,3)]
    by (simp add: consume_run_def inner_run_def handle_connected_def connected_consume_def)
qed

text \<open>A publish with acknowledgement, from the call to the release of its identifier.\<close>

lemma publish_exchange:
  assumes "inv (client_pis m)" and "connection_state m = Connected con"
    and "pub_quality_of_service p \<noteq> AtMostOnce"
    and "get_next_free S (client_pis m) Publish_Usage = (Some i, pis)"
  shows "\<exists>m1 b1 m2 b2.
    publisher_run S fx m (publish p) t1 = Return (Some (StorePacket i), m1, b1) \<and>
    publisher_run S fx m1 b1 t2 =
      Return (Some (SendPacket (Publish (p\<lparr>pub_packet_identifier := Some i\<rparr>))), m2, b2) \<and>
    publisher_run S fx m2 b2 t3 = Return (None, m2, b2) \<and>
    i \<notin> used (client_pis m) \<and> used (client_pis m2) = insert i (used (client_pis m)) \<and>
    (\<forall>a. ack_packet_identifier a = i \<longrightarrow>
      (\<exists>m3. consume_run S fx m2 (Puback a) t4 = Return (Some (ReleasePacket i), m3) \<and>
        used (client_pis m3) = used (client_pis m)))"
proof -
  note n = next_free_Some [OF assms(1,4)]
  define q where "q = p\<lparr>pub_packet_identifier := Some i\<rparr>"
  define m1 where "m1 = m\<lparr>client_pis := pis\<rparr>"
  define m2 where "m2 = set_last_run t2 (m1\<lparr>connection_state := Connected (con\<lparr>last_time_sent := t2\<rparr>)\<rparr>)"
  define b1 where "b1 = \<lparr>publisher_packet = Some q, publisher_state = Send\<rparr>"
  define b2 :: MqttClientPublisher where "b2 = \<lparr>publisher_packet = None, publisher_state = Done\<rparr>"
  have "publisher_run S fx m (publish p) t1 = Return (Some (StorePacket i), m1, b1)"
    using assms(3,4) by (simp add: publish_def publisher_run_def m1_def b1_def q_def)
  moreover have "publisher_run S fx m1 b1 t2 = Return (Some (SendPacket (Publish q)), m2, b2)"
    using assms(2) by (simp add: publisher_run_def b1_def inner_run_publish m1_def m2_def b2_def)
  moreover have "publisher_run S fx m2 b2 t3 = Return (None, m2, b2)"
    by (simp add: publisher_run_def b2_def)
  moreover have u: "used (client_pis m2) = insert i (used (client_pis m))" "inv (client_pis m2)"
    using n by (simp_all add: m2_def m1_def)
  moreover have "\<exists>m3. consume_run S fx m2 (Puback a) t4 = Return (Some (ReleasePacket i), m3) \<and>
      used (client_pis m3) = used (client_pis m)" if "ack_packet_identifier a = i" for a
    using consume_puback [OF u(2), of "con\<lparr>last_time_sent := t2\<rparr>" a fx t4] that n u(1)
    by (auto simp: m2_def)
  ultimately show ?thesis using n unfolding q_def by blast
qed

lemma subscribe_exchange:
  assumes "inv (client_pis m)" and "connection_state m = Connected con"
    and "get_next_free S (client_pis m) NonPublish_Usage = (Some i, pis)"
  shows "\<exists>m1. subscribe S fx m t1 q =
      Return (SendPacket (Subscribe (q\<lparr>sub_packet_identifier := i\<rparr>)), m1) \<and>
    i \<notin> used (client_pis m) \<and> used (client_pis m1) = insert i (used (client_pis m)) \<and>
    (\<forall>a. suback_packet_identifier a = i \<longrightarrow>
      (\<exists>m2. consume_run S fx m1 (Suback a) t2 = Return (None, m2) \<and>
        used (client_pis m2) = used (client_pis m)))"
proof -
  note n = next_free_Some [OF assms(1,3)]
  define m1 where "m1 = set_last_run t1 (m\<lparr>client_pis := pis,
    connection_state := Connected (con\<lparr>last_time_sent := t1\<rparr>)\<rparr>)"
  have "subscribe S fx m t1 q = Return (SendPacket (Subscribe (q\<lparr>sub_packet_identifier := i\<rparr>)), m1)"
    using assms(2,3) by (simp add: subscribe_def inner_run_publish m1_def)
  moreover have u: "used (client_pis m1) = insert i (used (client_pis m))" "inv (client_pis m1)"
    using n by (simp_all add: m1_def)
  moreover have "\<exists>m2. consume_run S fx m1 (Suback a) t2 = Return (None, m2) \<and>
      used (client_pis m2) = used (client_pis m)" if "suback_packet_identifier a = i" for a
    using consume_suback [OF u(2), of "con\<lparr>last_time_sent := t1\<rparr>" a fx t2] that n u(1)
    by (auto simp: m1_def)
  ultimately show ?thesis using n by blast
qed

text \<open>Without a connection a publish takes an identifier and goes nowhere.\<close>

lemma publish_disconnected:
  assumes "inv (client_pis m)" and "connection_state m = Disconnected"
    and "pub_quality_of_service p \<noteq> AtMostOnce"
    and "get_next_free S (client_pis m) Publish_Usage = (Some i, pis)"
  shows "\<exists>m1 b1 m2 b2.
    publisher_run S fx m (publish p) t1 = Return (Some (StorePacket i), m1, b1) \<and>
    publisher_run S fx m1 b1 t2 = Return (None, m2, b2) \<and> publisher_state b2 = Done \<and>
    used (client_pis m2) = insert i (used (client_pis m)) \<and> i \<notin> used (client_pis m) \<and>
    i \<in> used (client_pis (connection_lost S m2 t3))"
proof -
  note n = next_free_Some [OF assms(1,4)]
  define m1 where "m1 = m\<lparr>client_pis := pis\<rparr>"
  define b1 where "b1 = \<lparr>publisher_packet = Some (p\<lparr>pub_packet_identifier := Some i\<rparr>), publisher_state = Send\<rparr>"
  define b2 :: MqttClientPublisher where "b2 = \<lparr>publisher_packet = None, publisher_state = Done\<rparr>"
  have "publisher_run S fx m (publish p) t1 = Return (Some (StorePacket i), m1, b1)"
    using assms(3,4) by (simp add: publish_def publisher_run_def m1_def b1_def)
  moreover have "publisher_run S fx m1 b1 t2 = Return (None, set_last_run t2 m1, b2)"
    using assms(2) by (simp add: publisher_run_def b1_def inner_run_publish m1_def b2_def)
  moreover have "i \<in> used (client_pis (connection_lost S (set_last_run t2 m1) t3))"
    using n release_non_publish [of pis] by (simp add: connection_lost_def m1_def usage_is_publish_def)
  ultimately show ?thesis using n by (force simp: m1_def b2_def)
qed

end

end
