(* ===== verification/Client_Exchanges.thy ===== *)
theory Client_Exchanges
  imports Client_FSM
begin

text \<open>
  What the client state machine of theory Client_FSM does for its user: connecting, keep-alive,
  publishing and subscribing with acknowledgement, receiving and disconnecting, and which packets
  it panics on. Stated for the store \<open>UsizePacketIdentifierStore\<close>; the lemmas hold for every
  store that satisfies the contract.
\<close>

section \<open>Connecting\<close>

text \<open>What the properties of a CONNACK say.\<close>

definition server_keep_alive :: "MConnack \<Rightarrow> u16 option" where
  "server_keep_alive a =
     (case props_get ConnackProperties (connack_properties a) ServerKeepAlive_K of
        Some (ServerKeepAlive k) \<Rightarrow> Some k | _ \<Rightarrow> None)"

definition assigned_client_id :: "MConnack \<Rightarrow> rstr option" where
  "assigned_client_id a =
     (case props_get ConnackProperties (connack_properties a) AssignedClientIdentifier_K of
        Some (AssignedClientIdentifier c) \<Rightarrow> Some c | _ \<Rightarrow> None)"

text \<open>
  What the machine expects of the server: the packets it does not panic on.
\<close>

fun is_connack_success :: "MqttPacket \<Rightarrow> bool" where
  "is_connack_success (Connack a) \<longleftrightarrow> connack_reason_code a = Success"
| "is_connack_success p = False"

fun expected_packet :: "ConnectedData \<Rightarrow> PacketIdentifier set \<Rightarrow> MqttPacket \<Rightarrow> bool" where
  "expected_packet con used (Publish p) \<longleftrightarrow>
     pub_quality_of_service p = AtMostOnce \<or>
     pub_quality_of_service p = AtLeastOnce \<and> pub_packet_identifier p \<noteq> None"
| "expected_packet con used (Puback a) \<longleftrightarrow> ack_packet_identifier a \<in> used"
| "expected_packet con used (Suback a) \<longleftrightarrow> suback_packet_identifier a \<in> used"
| "expected_packet con used (Pingresp p) \<longleftrightarrow> ping_state con \<noteq> WaitingForElapsed"
| "expected_packet con used (Disconnect d) = True"
| "expected_packet con used p = False"

text \<open>A CONNACK in the two steps.\<close>

lemma consume_connack:
  assumes "connection_state m = ConnectingWithoutAuth sent" and "connack_reason_code a = Success"
  shows "consume_run S fx m (Connack a) t =
    Return (map_option SaveClientIdentifier (assigned_client_id a),
      set_last_run t (m\<lparr>data := (data m)\<lparr>
          keep_alive := (case server_keep_alive a of Some k \<Rightarrow> k | None \<Rightarrow> keep_alive (data m)),
          client_id_hash := (case assigned_client_id a of Some c \<Rightarrow> Some (fx c) | None \<Rightarrow> client_id_hash (data m))\<rparr>,
        connection_state := Connected \<lparr>last_time_sent = sent, ping_state = WaitingForElapsed\<rparr>\<rparr>))"
  using assms
  by (simp add: consume_run_def inner_run_def handle_connecting_without_auth_def Let_def
      server_keep_alive_def assigned_client_id_def split: option.split property.split)

lemma handle_connect_Return:
  assumes "connection_state m = Disconnected"
    and "client_id_hash (data m) = None \<or>
      (con_client_identifier c \<noteq> [] \<and> client_id_hash (data m) = Some (fx (con_client_identifier c)))"
  shows "handle_connect fx m t c = Return (SendPacket (Connect c),
    m\<lparr>data := (data m)\<lparr>keep_alive := con_keep_alive c,
        client_id_hash := (if con_client_identifier c = [] then None else Some (fx (con_client_identifier c)))\<rparr>,
      connection_state := ConnectingWithoutAuth t\<rparr>)"
  using assms by (auto simp: handle_connect_def Let_def)

lemma handle_connect_Panic:
  "handle_connect fx m t c = Panic \<longleftrightarrow>
    connection_state m \<noteq> Disconnected \<or>
    (\<exists>h. client_id_hash (data m) = Some h \<and>
      (con_client_identifier c = [] \<or> h \<noteq> fx (con_client_identifier c)))"
  by (auto simp: handle_connect_def Let_def split: option.split)

lemma consume_run_cases:
  "consume_run S fx m p t =
    (case connection_state m of
       Disconnected \<Rightarrow> Return (None, set_last_run t m)
     | ConnectingWithoutAuth sent \<Rightarrow>
         (case handle_connecting_without_auth fx m sent (ConsumePacket p) of
            Panic \<Rightarrow> Panic | Return (a, m') \<Rightarrow> Return (a, set_last_run t m'))
     | Connected con \<Rightarrow>
         (case connected_consume S m con p of
            Panic \<Rightarrow> Panic | Return (a, m') \<Rightarrow> Return (a, set_last_run t m')))"
  by (simp add: consume_run_def inner_run_def handle_connected_def set_last_run_def split: ConnectionState.split)

lemma connecting_pis:
  "handle_connecting_without_auth fx m sent i = Return (a, m') \<Longrightarrow> client_pis m' = client_pis m"
  by (auto simp: handle_connecting_without_auth_def Let_def
      split: ExternalInfos.splits MqttPacket.splits if_splits)

lemma connecting_Panic:
  "handle_connecting_without_auth fx m sent (ConsumePacket p) = Panic \<longleftrightarrow> \<not> is_connack_success p"
  by (cases p) (simp_all add: handle_connecting_without_auth_def Let_def)

section \<open>Identifiers of publishes\<close>

context packet_id_store
begin

lemma next_free_publishing:
  assumes "inv pis" and "get_next_free S pis u = (Some i, pis')" and "j \<in> publishing pis"
  shows "j \<in> publishing pis'"
  using next_free_Some [OF assms(1,2)] assms(3) by auto

text \<open>Which of the operations keep the identifiers of publishes.\<close>

lemma release_publishing:
  assumes "inv pis" and "i \<noteq> 0" and "pis_contains S pis i" and "release S pis i = Return pis'"
    and "j \<in> publishing pis"
  shows "j \<in> publishing pis' \<or> i = j"
proof -
  have "i \<in> used pis" using contains_used [OF assms(1,2)] assms(3) by simp
  from release_absent [OF assms(1) this assms(4)] assms(5) show ?thesis by simp
qed

lemma release_contained:
  assumes "inv pis" and "i \<noteq> 0"
  shows "pis_contains S pis i \<and> release S pis i \<noteq> Panic \<longleftrightarrow> i \<in> used pis"
  using contains_used [OF assms] release_used [OF assms(1), of i] by (metis outcome.distinct(1))

lemma connected_consume_publishing:
  assumes "connected_consume S m con p = Return (ao, m')" and "inv (client_pis m)" and "ids_nonzero p"
    and "j \<in> publishing (client_pis m)"
  shows "j \<in> publishing (client_pis m') \<or>
    (\<exists>a. p = Puback a \<and> ack_packet_identifier a = j) \<or> (\<exists>a. p = Suback a \<and> suback_packet_identifier a = j)"
proof (cases p)
  case (Puback a)
  then show ?thesis
    using assms(1,3,4) release_publishing [OF assms(2), of "ack_packet_identifier a" _ j]
    by (simp add: connected_consume_def split: outcome.splits if_splits) force
next
  case (Suback a)
  then show ?thesis
    using assms(1,3,4) release_publishing [OF assms(2), of "suback_packet_identifier a" _ j]
    by (simp add: connected_consume_def split: outcome.splits if_splits) force
qed (use assms(1,4) release_non_publish [OF assms(2)] in \<open>auto simp: connected_consume_def
    split: QualityOfService.splits option.splits PingState.splits\<close>)

lemma consume_publishing:
  assumes "consume_run S fx m p t = Return (ao, m')" and "fsm_inv m" and "ids_nonzero p"
    and "j \<in> publishing (client_pis m)"
  shows "j \<in> publishing (client_pis m') \<or>
    (\<exists>a. p = Puback a \<and> ack_packet_identifier a = j) \<or> (\<exists>a. p = Suback a \<and> suback_packet_identifier a = j)"
proof (cases "connection_state m")
  case (Connected con)
  then obtain n where "connected_consume S m con p = Return (ao, n)" "m' = set_last_run t n"
    using assms(1) by (auto simp: consume_run_cases split: outcome.splits)
  with connected_consume_publishing [of m con p ao n j] assms(2-4) show ?thesis
    by (simp add: fsm_inv_def)
qed (use assms(1,4) in \<open>auto simp: consume_run_cases split: outcome.splits dest: connecting_pis\<close>)

lemma inner_run_publish_pis:
  "inner_run S fx m t (PublishPacket p) = Return (ao, m') \<Longrightarrow> client_pis m' = client_pis m"
  by (auto simp: inner_run_publish split: ConnectionState.splits)

lemma publisher_run_publishing:
  assumes "publisher_run S fx m b t = Return (a, m', b')" and "fsm_inv m"
    and "j \<in> publishing (client_pis m)"
  shows "j \<in> publishing (client_pis m')"
  using assms
  by (auto simp: publisher_run_def fsm_inv_def split: PublishingState.splits option.splits prod.splits
      outcome.splits if_splits dest: inner_run_publish_pis next_free_publishing)

lemma publisher_steps_publishing:
  "publisher_steps S fx m b m' b' \<Longrightarrow> fsm_inv m \<Longrightarrow> j \<in> publishing (client_pis m) \<Longrightarrow>
    j \<in> publishing (client_pis m')"
proof (induction rule: publisher_steps.induct)
  case (run m b t a m' b' m'' b'')
  then show ?case using publisher_run_inv publisher_run_publishing by blast
qed

lemma disconnecter_steps_publishing:
  "disconnecter_steps S m d m' d' \<Longrightarrow> fsm_inv m \<Longrightarrow> j \<in> publishing (client_pis m) \<Longrightarrow>
    j \<in> publishing (client_pis m')"
proof (induction rule: disconnecter_steps.induct)
  case (run m d a m' d' m'' d'')
  have i: "inv (client_pis m)" using run.prems(1) by (simp add: fsm_inv_def)
  from run.hyps(1) consider "m' = m" | "m' = reset_connection S m"
    by (auto simp: disconnecter_run_def split: DisconnectState.splits)
  then have "fsm_inv m' \<and> j \<in> publishing (client_pis m')"
    using run.prems release_non_publish [OF i] reset_connection_inv [OF i] by cases auto
  with run.IH show ?case by blast
qed

lemma connected_consume_Panic:
  assumes "inv (client_pis m)" and "ids_nonzero p"
  shows "connected_consume S m con p = Panic \<longleftrightarrow> \<not> expected_packet con (used (client_pis m)) p"
proof (cases p)
  case (Publish q)
  then show ?thesis by (simp add: connected_consume_def split: QualityOfService.split option.split)
next
  case (Pingresp q)
  then show ?thesis by (simp add: connected_consume_def split: PingState.split)
next
  case (Puback a)
  then show ?thesis
    using assms(2) release_contained [OF assms(1), of "ack_packet_identifier a"]
    by (cases "release S (client_pis m) (ack_packet_identifier a)") (auto simp: connected_consume_def)
next
  case (Suback a)
  then show ?thesis
    using assms(2) release_contained [OF assms(1), of "suback_packet_identifier a"]
    by (cases "release S (client_pis m) (suback_packet_identifier a)") (auto simp: connected_consume_def)
qed (simp_all add: connected_consume_def)

lemma consume_Panic:
  assumes "inv (client_pis m)" and "ids_nonzero p"
  shows "consume_run S fx m p t = Panic \<longleftrightarrow>
    (case connection_state m of
       Disconnected \<Rightarrow> False
     | ConnectingWithoutAuth sent \<Rightarrow> \<not> is_connack_success p
     | Connected con \<Rightarrow> \<not> expected_packet con (used (client_pis m)) p)"
proof (cases "connection_state m")
  case (ConnectingWithoutAuth sent)
  with connecting_Panic [of fx m sent p] show ?thesis
    by (cases "handle_connecting_without_auth fx m sent (ConsumePacket p)") (auto simp: consume_run_cases)
next
  case (Connected con)
  with connected_consume_Panic [OF assms, of con] show ?thesis
    by (cases "connected_consume S m con p") (auto simp: consume_run_cases)
qed (simp add: consume_run_cases)

end

section \<open>Keep-alive\<close>

text \<open>Nothing to do but to see whether a ping is due.\<close>

definition ping_due :: "'s fsm \<Rightarrow> ConnectedData \<Rightarrow> MqttInstant \<Rightarrow> bool" where
  "ping_due m con t \<longleftrightarrow>
     0 < keep_alive (data m) \<and> ping_state con = WaitingForElapsed \<and>
     ucast (keep_alive (data m)) \<le> elapsed_seconds (last_time_sent con) t"

lemma fsm_run_connected:
  "connection_state m = Connected con \<Longrightarrow> fsm_run S fx m t =
    (if ping_due m con t
     then Return (Some (SendPacket (Pingreq MPingreq)),
       set_last_run t (m\<lparr>connection_state := Connected (con\<lparr>ping_state := WaitingForPingrespSince t, last_time_sent := t\<rparr>)\<rparr>))
     else Return (None, set_last_run t m))"
  by (simp add: fsm_run_def inner_run_def handle_connected_def ping_due_def split: PingState.split)

lemma consume_pingresp:
  assumes "connection_state m = Connected con" and "ping_state con \<noteq> WaitingForElapsed"
  shows "consume_run S fx m (Pingresp MPingresp) t =
    Return (None, set_last_run t (m\<lparr>connection_state := Connected (con\<lparr>ping_state := WaitingForElapsed\<rparr>)\<rparr>))"
  using assms by (simp add: consume_run_cases connected_consume_def split: PingState.split)

lemma inner_run_connected:
  "connection_state m = Connected con \<Longrightarrow> inner_run S fx m t (PublishPacket p) =
    Return (Some (SendPacket p), set_last_run t (m\<lparr>connection_state := Connected (con\<lparr>last_time_sent := t\<rparr>)\<rparr>))"
  by (simp add: inner_run_def handle_connected_def set_last_run_def)

section \<open>The store of 64 identifiers\<close>

text \<open>Unless all are in use, an identifier is there.\<close>

lemma next_free_available:
  assumes "Usize_inv s" and "ids_of (slots s) \<noteq> {1..64}"
  obtains i s' where "get_next_free Usize_pis s u = (Some i, s')"
  using next_free_cases [OF assms(1), of u] assms(2) that
  by (cases "Usize_get_next_free s u"; cases "fst (Usize_get_next_free s u)") (auto simp: Usize_pis_def)

lemma ids_of_examples:
  shows ids_of_0: "ids_of 0 = {1..64} \<longleftrightarrow> False"
    and ids_of_5: "ids_of 5 = {1..64} \<longleftrightarrow> False"
    and ids_of_4: "3 \<in> ids_of 4"
proof -
  have "2 \<notin> ids_of 0" "2 \<notin> ids_of 5" by (simp_all add: ids_of_def bit_numeral_rec)
  moreover have "(2 :: PacketIdentifier) \<in> {1..64}" by simp
  ultimately show "ids_of 0 = {1..64} \<longleftrightarrow> False" "ids_of 5 = {1..64} \<longleftrightarrow> False" by metis+
  show "3 \<in> ids_of 4" by (simp add: ids_of_def)
qed

section \<open>Properties\<close>

definition example_connect :: MConnect where
  "example_connect =
     \<lparr>con_client_identifier = [0x63], con_username = None, con_password = None, con_clean_start = True,
      con_will = None, con_properties = props_new ConnectProperties, con_keep_alive = 10\<rparr>"

definition example_publish :: MPublish where
  "example_publish =
     \<lparr>pub_duplicate = False, pub_quality_of_service = AtLeastOnce, pub_retain = False,
      pub_topic_name = [0x61], pub_packet_identifier = None,
      pub_properties = props_new PublishProperties, pub_payload = [1, 2]\<rparr>"

definition example_connack :: MConnack where
  "example_connack =
     \<lparr>connack_session_present = False, connack_reason_code = Success,
      connack_properties = props_new ConnackProperties\<rparr>"

definition example_fsm :: "UsizeStore fsm" where
  "example_fsm =
     \<lparr>data = \<lparr>keep_alive = 10, client_id_hash = Some 7, last_time_run = 3\<rparr>,
      connection_state = Connected \<lparr>last_time_sent = 3, ping_state = WaitingForElapsed\<rparr>,
      client_pis = \<lparr>slots = 5, is_publish = 4\<rparr>\<rparr>"

text \<open>
  C3. In every state a program can bring the client into, by any sequence of the public
  operations, the store of packet identifiers is consistent; a ping is outstanding only under a
  keep-alive; and outside a connection every identifier in use belongs to a publish, so that
  subscriptions never survive the connection they were made on.
\<close>

theorem reachable_invariant:
  assumes "reachable Usize_pis fx UsizeStore_new m"
  shows "Usize_inv (client_pis m) \<and> ping_inv m \<and>
    (\<not> is_connected (connection_state m) \<longrightarrow>
       ids_of (slots (client_pis m)) = ids_of (is_publish (client_pis m)))"
  using usize_store.reachable_inv [OF assms] usize_store.fsm_inv_def [of m]
  by (simp add: UsizeStore_new_def Usize_inv_def ids_of_def)

lemma reachable_invariant_witness:
  "\<exists>m. handle_connect (\<lambda>_. 7) (fsm_new UsizeStore_new) 5 example_connect =
      Return (SendPacket (Connect example_connect), m) \<and>
    reachable Usize_pis (\<lambda>_. 7) UsizeStore_new m \<and>
    ids_of (slots (client_pis m)) = ids_of (is_publish (client_pis m))"
proof -
  define m where "m = (fsm_new UsizeStore_new)\<lparr>
    data := \<lparr>keep_alive = 10, client_id_hash = Some 7, last_time_run = 0\<rparr>,
    connection_state := ConnectingWithoutAuth 5\<rparr>"
  have h: "handle_connect (\<lambda>_. 7) (fsm_new UsizeStore_new) 5 example_connect =
      Return (SendPacket (Connect example_connect), m)"
    by (simp add: handle_connect_def fsm_new_def example_connect_def m_def)
  have r: "reachable Usize_pis (\<lambda>_. 7) UsizeStore_new m"
    by (rule reachable.step [OF reachable.init fsm_step.connect [OF h]])
  from reachable_invariant [OF r] h r show ?thesis by (auto simp: m_def)
qed

text \<open>
  C11. Connecting: from a disconnected client that remembers no client identifier, or whose
  remembered hash is that of the identifier of the new CONNECT, not empty (with any other
  \<open>handle_connect\<close> panics), \<open>handle_connect\<close> sends the CONNECT it was given and a
  successful CONNACK brings the connection up, with the keep-alive of the server if it sent
  one and that of the CONNECT otherwise; an identifier assigned by the server is handed out to be
  saved and remembered by its hash. No packet identifier changes.
\<close>

theorem connect_handshake:
  assumes "connection_state m = Disconnected" and "connack_reason_code a = Success"
    and "client_id_hash (data m) = None \<or>
      (con_client_identifier c \<noteq> [] \<and> client_id_hash (data m) = Some (fx (con_client_identifier c)))"
  shows "\<exists>m1 m2. handle_connect fx m t c = Return (SendPacket (Connect c), m1) \<and>
    connection_state m1 = ConnectingWithoutAuth t \<and>
    consume_run S fx m1 (Connack a) t' =
      Return (map_option SaveClientIdentifier (assigned_client_id a), m2) \<and>
    connection_state m2 = Connected \<lparr>last_time_sent = t, ping_state = WaitingForElapsed\<rparr> \<and>
    keep_alive (data m2) = (case server_keep_alive a of Some k \<Rightarrow> k | None \<Rightarrow> con_keep_alive c) \<and>
    client_id_hash (data m2) =
      (case assigned_client_id a of
         Some i \<Rightarrow> Some (fx i)
       | None \<Rightarrow> if con_client_identifier c = [] then None else Some (fx (con_client_identifier c))) \<and>
    client_pis m2 = client_pis m"
  by (simp add: handle_connect_Return [where fx = fx, OF assms(1,3)] consume_connack [where sent = t] assms(2) split: option.split)

lemma connect_handshake_witness:
  "\<exists>m1 m2. handle_connect (\<lambda>_. 7) (fsm_new UsizeStore_new) 5 example_connect =
      Return (SendPacket (Connect example_connect), m1) \<and>
    connection_state m1 = ConnectingWithoutAuth 5 \<and>
    consume_run Usize_pis (\<lambda>_. 7) m1 (Connack example_connack) 6 =
      Return (map_option SaveClientIdentifier (assigned_client_id example_connack), m2) \<and>
    connection_state m2 = Connected \<lparr>last_time_sent = 5, ping_state = WaitingForElapsed\<rparr> \<and>
    keep_alive (data m2) =
      (case server_keep_alive example_connack of Some k \<Rightarrow> k | None \<Rightarrow> con_keep_alive example_connect) \<and>
    client_id_hash (data m2) =
      (case assigned_client_id example_connack of
         Some i \<Rightarrow> Some ((\<lambda>_. 7) i)
       | None \<Rightarrow> if con_client_identifier example_connect = [] then None
           else Some ((\<lambda>_. 7) (con_client_identifier example_connect))) \<and>
    client_pis m2 = client_pis (fsm_new UsizeStore_new)"
  by (rule connect_handshake) (simp_all add: fsm_new_def example_connack_def)

text \<open>
  \<open>handle_connect\<close> returns exactly when the client is disconnected and does not remember a
  client identifier whose hash differs from that of the identifier in the new CONNECT, where an
  empty identifier always counts as different; in all other cases it panics.
\<close>

lemma handle_connect_panics:
  "handle_connect fx m t c \<noteq> Panic \<longleftrightarrow>
    connection_state m = Disconnected \<and>
    (case client_id_hash (data m) of
       None \<Rightarrow> True
     | Some h \<Rightarrow> con_client_identifier c \<noteq> [] \<and> h = fx (con_client_identifier c))"
  by (auto simp: handle_connect_Panic split: option.split)

text \<open>
  C10. Which packets from the server the client panics on: any but a successful CONNACK while
  connecting; once connected, a publish of quality of service 2, an acknowledgement of an
  identifier that is not in use, a PINGRESP without a ping, and every packet type it does not
  expect. All others are handled, and a disconnected client ignores every packet.
\<close>

theorem consume_panics_exactly:
  assumes "Usize_inv (client_pis m)" and "ids_nonzero p"
  shows "consume_run Usize_pis fx m p t = Panic \<longleftrightarrow>
    (case connection_state m of
       Disconnected \<Rightarrow> False
     | ConnectingWithoutAuth sent \<Rightarrow> \<not> is_connack_success p
     | Connected con \<Rightarrow> \<not> expected_packet con (ids_of (slots (client_pis m))) p)"
  by (rule usize_store.consume_Panic [OF assms])

lemma consume_panics_exactly_witness:
  "consume_run Usize_pis (\<lambda>_. 7) example_fsm (Pingresp MPingresp) 9 = Panic \<longleftrightarrow>
    (case connection_state example_fsm of
       Disconnected \<Rightarrow> False
     | ConnectingWithoutAuth sent \<Rightarrow> \<not> is_connack_success (Pingresp MPingresp)
     | Connected con \<Rightarrow> \<not> expected_packet con (ids_of (slots (client_pis example_fsm))) (Pingresp MPingresp))"
  by (rule consume_panics_exactly) (simp_all add: example_fsm_def Usize_inv_def)

text \<open>
  C12. Keep-alive: when at least the keep-alive time has passed since the last packet sent,
  \<open>run\<close> sends a PINGREQ; until the PINGRESP arrives it sends no other, whatever the time (a
  missing PINGRESP is never noticed); after it, the next ping is sent as soon as the keep-alive
  time has passed again, and not before.
\<close>

theorem ping_cycle:
  assumes "connection_state m = Connected con" and "ping_due m con t1"
  shows "\<exists>m1 m2. fsm_run S fx m t1 = Return (Some (SendPacket (Pingreq MPingreq)), m1) \<and>
    (\<forall>t. \<exists>m'. fsm_run S fx m1 t = Return (None, m') \<and> connection_state m' = connection_state m1) \<and>
    consume_run S fx m1 (Pingresp MPingresp) t2 = Return (None, m2) \<and>
    (\<forall>t3. (\<exists>m3. fsm_run S fx m2 t3 = Return (Some (SendPacket (Pingreq MPingreq)), m3)) =
       (ucast (keep_alive (data m)) \<le> elapsed_seconds t1 t3)) \<and>
    client_pis m2 = client_pis m"
  using assms
  by (simp add: fsm_run_connected consume_pingresp [where con = "con\<lparr>ping_state := WaitingForPingrespSince t1,
      last_time_sent := t1\<rparr>"] ping_due_def)

lemma ping_cycle_witness:
  "\<exists>m1 m2. fsm_run Usize_pis (\<lambda>_. 7) example_fsm 13 = Return (Some (SendPacket (Pingreq MPingreq)), m1) \<and>
    (\<forall>t. \<exists>m'. fsm_run Usize_pis (\<lambda>_. 7) m1 t = Return (None, m') \<and> connection_state m' = connection_state m1) \<and>
    consume_run Usize_pis (\<lambda>_. 7) m1 (Pingresp MPingresp) 14 = Return (None, m2) \<and>
    (\<forall>t3. (\<exists>m3. fsm_run Usize_pis (\<lambda>_. 7) m2 t3 = Return (Some (SendPacket (Pingreq MPingreq)), m3)) =
       (ucast (keep_alive (data example_fsm)) \<le> elapsed_seconds 13 t3)) \<and>
    client_pis m2 = client_pis example_fsm"
  by (rule ping_cycle [where con = "\<lparr>last_time_sent = 3, ping_state = WaitingForElapsed\<rparr>"])
    (simp_all add: example_fsm_def ping_due_def elapsed_seconds_def)

text \<open>
  C6. Publishing with quality of service 1 or 2 on a connection: unless all 64 identifiers are in
  use, three runs of the publisher ask to store the packet under an identifier that was not in
  use, send the packet with that identifier, and are done; and the PUBACK for it gives the
  identifier back, ending where it began.
\<close>

theorem publish_completes:
  assumes "Usize_inv (client_pis m)" and "connection_state m = Connected con"
    and "pub_quality_of_service p \<noteq> AtMostOnce" and "ids_of (slots (client_pis m)) \<noteq> {1..64}"
  shows "\<exists>i m1 b1 m2 b2.
    publisher_run Usize_pis fx m (publish p) t1 = Return (Some (StorePacket i), m1, b1) \<and>
    publisher_run Usize_pis fx m1 b1 t2 =
      Return (Some (SendPacket (Publish (p\<lparr>pub_packet_identifier := Some i\<rparr>))), m2, b2) \<and>
    publisher_run Usize_pis fx m2 b2 t3 = Return (None, m2, b2) \<and>
    i \<notin> ids_of (slots (client_pis m)) \<and>
    ids_of (slots (client_pis m2)) = insert i (ids_of (slots (client_pis m))) \<and>
    (\<forall>a. ack_packet_identifier a = i \<longrightarrow>
      (\<exists>m3. consume_run Usize_pis fx m2 (Puback a) t4 = Return (Some (ReleasePacket i), m3) \<and>
        ids_of (slots (client_pis m3)) = ids_of (slots (client_pis m))))"
proof -
  obtain i pis where "get_next_free Usize_pis (client_pis m) Publish_Usage = (Some i, pis)"
    using next_free_available [OF assms(1,4)] .
  from usize_store.publish_exchange [OF assms(1-3) this, of fx t1 t2 t3 t4] show ?thesis by blast
qed

lemma publish_completes_witness:
  "\<exists>i m1 b1 m2 b2.
    publisher_run Usize_pis (\<lambda>_. 7) example_fsm (publish example_publish) 4 =
      Return (Some (StorePacket i), m1, b1) \<and>
    publisher_run Usize_pis (\<lambda>_. 7) m1 b1 5 =
      Return (Some (SendPacket (Publish (example_publish\<lparr>pub_packet_identifier := Some i\<rparr>))), m2, b2) \<and>
    publisher_run Usize_pis (\<lambda>_. 7) m2 b2 6 = Return (None, m2, b2) \<and>
    i \<notin> ids_of (slots (client_pis example_fsm))"
proof -
  have "Usize_inv (client_pis example_fsm)"
    "connection_state example_fsm = Connected \<lparr>last_time_sent = 3, ping_state = WaitingForElapsed\<rparr>"
    "pub_quality_of_service example_publish \<noteq> AtMostOnce"
    "ids_of (slots (client_pis example_fsm)) \<noteq> {1..64}"
    by (simp_all add: example_fsm_def example_publish_def Usize_inv_def ids_of_5)
  from publish_completes [OF this] show ?thesis by blast
qed


definition example_subscribe :: MSubscribe where
  "example_subscribe =
     \<lparr>sub_packet_identifier = 1, sub_properties = props_new SubscribeProperties,
      sub_subscriptions = [0, 1, 0x61, 1]\<rparr>"




text \<open>
  C16. Disconnecting sends the DISCONNECT, then asks for the transport to be closed and is done;
  a DISCONNECT from the server and a lost connection end in the same state: disconnected, with
  only the identifiers of publishes still in use, so that these can be sent again.
\<close>

theorem disconnect_sequence:
  assumes "Usize_inv (client_pis m)" and "connection_state m = Connected con"
  shows "\<exists>m2.
    disconnecter_run Usize_pis m (disconnect d) = (Some (SendPacket (Disconnect d)), m, DisconnectConnection) \<and>
    disconnecter_run Usize_pis m DisconnectConnection = (Some DisconnectAction, m2, Disconnect_Done) \<and>
    disconnecter_run Usize_pis m2 Disconnect_Done = (None, m2, Disconnect_Done) \<and>
    connection_state m2 = Disconnected \<and> data m2 = data m \<and>
    ids_of (slots (client_pis m2)) = ids_of (is_publish (client_pis m)) \<and>
    consume_run Usize_pis fx m (Disconnect d) t = Return (Some DisconnectAction, set_last_run t m2) \<and>
    connection_lost Usize_pis m t = set_last_run t m2"
  using usize_store.release_non_publish [OF assms(1)] assms(2)
  by (simp add: disconnecter_run_def disconnect_def reset_connection_def consume_run_cases
      connected_consume_def connection_lost_def set_last_run_def)

lemma disconnect_sequence_witness:
  "\<exists>m2.
    disconnecter_run Usize_pis example_fsm DisconnectConnection = (Some DisconnectAction, m2, Disconnect_Done) \<and>
    connection_state m2 = Disconnected \<and>
    ids_of (slots (client_pis m2)) = ids_of (is_publish (client_pis example_fsm)) \<and>
    connection_lost Usize_pis example_fsm 9 = set_last_run 9 m2"
  using disconnect_sequence [of example_fsm "\<lparr>last_time_sent = 3, ping_state = WaitingForElapsed\<rparr>"
      "\<lparr>dis_reason_code = NormalDisconnection, dis_properties = props_new DisconnectProperties\<rparr>" "\<lambda>_. 7" 9]
  by (auto simp: example_fsm_def Usize_inv_def)

text \<open>
  Publishing with quality of service 1 or 2 without a connection asks to store the packet,
  then sends nothing and is done all the same: the identifier it took stays in use, also after
  the connection is reset, although no packet with it was ever sent.
\<close>

lemma publish_offline_leaks:
  assumes "Usize_inv (client_pis m)" and "connection_state m = Disconnected"
    and "pub_quality_of_service p \<noteq> AtMostOnce" and "ids_of (slots (client_pis m)) \<noteq> {1..64}"
  shows "\<exists>i m1 b1 m2 b2.
    publisher_run Usize_pis fx m (publish p) t1 = Return (Some (StorePacket i), m1, b1) \<and>
    publisher_run Usize_pis fx m1 b1 t2 = Return (None, m2, b2) \<and> publisher_state b2 = Done \<and>
    i \<notin> ids_of (slots (client_pis m)) \<and>
    i \<in> ids_of (slots (client_pis (connection_lost Usize_pis m2 t3)))"
proof -
  obtain i pis where "get_next_free Usize_pis (client_pis m) Publish_Usage = (Some i, pis)"
    using next_free_available [OF assms(1,4)] .
  from usize_store.publish_disconnected [OF assms(1-3) this, of fx t1 t2 t3] show ?thesis by blast
qed

end
