(* ===== verification/Client_Sessions.thy ===== *)
theory Client_Sessions
  imports Client_Exchanges
begin

text \<open>
  Programs that drive the client state machine, as lists of calls: \<open>play\<close> executes one and
  collects the actions the machine asks for. \<open>reachable_play\<close> shows that the states such
  programs reach are the reachable states of theory Client_FSM, so the step relation there leaves out no
  call and adds none. The sessions are the unit tests of \<open>cloudmqtt-core/src/client/mod.rs\<close>, with
  every action and the whole final state. The property at the end follows the identifier of a
  publish through such a program.
\<close>

section \<open>Programs\<close>

datatype call =
    Connect_Call MqttInstant MConnect
  | Consume_Call MqttPacket MqttInstant
  | Run_Call MqttInstant
  | Publish_Call MPublish "MqttInstant list" \<comment> \<open>the times at which the publisher is run\<close>
  | Subscribe_Call MqttInstant MSubscribe
  | Acknowledge_Call MqttInstant PacketIdentifier
  | Disconnect_Call MDisconnect nat \<comment> \<open>how often the disconnecter is run\<close>
  | Lost_Call MqttInstant

text \<open>A packet from the network carries no packet identifier 0.\<close>

fun call_ok :: "call \<Rightarrow> bool" where
  "call_ok (Consume_Call p t) = ids_nonzero p"
| "call_ok c = True"

type_synonym 's session = "(ExpectedAction option list \<times> 's fsm) outcome"

fun publisher_runs :: "'s pis \<Rightarrow> (rstr \<Rightarrow> u64) \<Rightarrow> 's fsm \<Rightarrow> MqttClientPublisher \<Rightarrow> MqttInstant list \<Rightarrow>
    (ExpectedAction option list \<times> 's fsm \<times> MqttClientPublisher) outcome" where
  "publisher_runs S fx m b [] = Return ([], m, b)"
| "publisher_runs S fx m b (t # ts) =
     (case publisher_run S fx m b t of
        Panic \<Rightarrow> Panic
      | Return (a, m', b') \<Rightarrow>
          (case publisher_runs S fx m' b' ts of
             Panic \<Rightarrow> Panic
           | Return (as, r) \<Rightarrow> Return (a # as, r)))"

fun disconnecter_runs :: "'s pis \<Rightarrow> 's fsm \<Rightarrow> DisconnectState \<Rightarrow> nat \<Rightarrow>
    ExpectedAction option list \<times> 's fsm \<times> DisconnectState" where
  "disconnecter_runs S m d 0 = ([], m, d)"
| "disconnecter_runs S m d (Suc n) =
     (case disconnecter_run S m d of
        (a, m', d') \<Rightarrow> (case disconnecter_runs S m' d' n of (as, r) \<Rightarrow> (a # as, r)))"

definition one_action :: "(ExpectedAction \<times> 's fsm) outcome \<Rightarrow> 's session" where
  "one_action r = (case r of Panic \<Rightarrow> Panic | Return (a, m) \<Rightarrow> Return ([Some a], m))"

definition maybe_action :: "(ExpectedAction option \<times> 's fsm) outcome \<Rightarrow> 's session" where
  "maybe_action r = (case r of Panic \<Rightarrow> Panic | Return (a, m) \<Rightarrow> Return ([a], m))"

fun perform :: "'s pis \<Rightarrow> (rstr \<Rightarrow> u64) \<Rightarrow> 's fsm \<Rightarrow> call \<Rightarrow> 's session" where
  "perform S fx m (Connect_Call t c) = one_action (handle_connect fx m t c)"
| "perform S fx m (Consume_Call p t) = maybe_action (consume_run S fx m p t)"
| "perform S fx m (Run_Call t) = maybe_action (fsm_run S fx m t)"
| "perform S fx m (Publish_Call q ts) =
     (case publisher_runs S fx m (publish q) ts of
        Panic \<Rightarrow> Panic
      | Return (as, m', b) \<Rightarrow> Return (as, m'))"
| "perform S fx m (Subscribe_Call t sub) = one_action (subscribe S fx m t sub)"
| "perform S fx m (Acknowledge_Call t i) = one_action (acknowledge S fx m t i)"
| "perform S fx m (Disconnect_Call d n) =
     (case disconnecter_runs S m (disconnect d) n of (as, m', ds) \<Rightarrow> Return (as, m'))"
| "perform S fx m (Lost_Call t) = Return ([], connection_lost S m t)"

fun play :: "'s pis \<Rightarrow> (rstr \<Rightarrow> u64) \<Rightarrow> 's fsm \<Rightarrow> call list \<Rightarrow> 's session" where
  "play S fx m [] = Return ([], m)"
| "play S fx m (c # cs) =
     (case perform S fx m c of
        Panic \<Rightarrow> Panic
      | Return (as, m') \<Rightarrow>
          (case play S fx m' cs of
             Panic \<Rightarrow> Panic
           | Return (bs, m'') \<Rightarrow> Return (as @ bs, m'')))"

section \<open>The step relation is what programs do\<close>

lemma one_action_Return [simp]:
  "one_action r = Return (as, m) \<longleftrightarrow> (\<exists>a. r = Return (a, m) \<and> as = [Some a])"
  by (auto simp: one_action_def split: outcome.splits)

lemma maybe_action_Return [simp]:
  "maybe_action r = Return (as, m) \<longleftrightarrow> (\<exists>a. r = Return (a, m) \<and> as = [a])"
  by (auto simp: maybe_action_def split: outcome.splits)

lemma publisher_runs_steps:
  "(\<exists>ts as. publisher_runs S fx m b ts = Return (as, m', b')) \<longleftrightarrow> publisher_steps S fx m b m' b'"
proof
  assume "\<exists>ts as. publisher_runs S fx m b ts = Return (as, m', b')"
  then obtain ts as where "publisher_runs S fx m b ts = Return (as, m', b')" by blast
  then show "publisher_steps S fx m b m' b'"
  proof (induction ts arbitrary: m b as)
    case (Cons t ts)
    from Cons.prems obtain a m1 b1 as' where "publisher_run S fx m b t = Return (a, m1, b1)"
      and "publisher_runs S fx m1 b1 ts = Return (as', m', b')"
      by (auto split: outcome.splits)
    then show ?case using Cons.IH by (auto intro: publisher_steps.run)
  qed (auto intro: publisher_steps.drop)
next
  assume "publisher_steps S fx m b m' b'"
  then show "\<exists>ts as. publisher_runs S fx m b ts = Return (as, m', b')"
  proof (induction rule: publisher_steps.induct)
    case (drop m b)
    have "publisher_runs S fx m b [] = Return ([], m, b)" by simp
    then show ?case by blast
  next
    case (run m b t a m' b' m'' b'')
    then obtain ts as where "publisher_runs S fx m' b' ts = Return (as, m'', b'')" by blast
    with run.hyps(1) have "publisher_runs S fx m b (t # ts) = Return (a # as, m'', b'')" by simp
    then show ?case by blast
  qed
qed

lemma disconnecter_runs_steps:
  "(\<exists>n as. disconnecter_runs S m d n = (as, m', d')) \<longleftrightarrow> disconnecter_steps S m d m' d'"
proof
  assume "\<exists>n as. disconnecter_runs S m d n = (as, m', d')"
  then obtain n as where "disconnecter_runs S m d n = (as, m', d')" by blast
  then show "disconnecter_steps S m d m' d'"
  proof (induction n arbitrary: m d as)
    case (Suc n)
    from Suc.prems obtain a m1 d1 as' where "disconnecter_run S m d = (a, m1, d1)"
      and "disconnecter_runs S m1 d1 n = (as', m', d')"
      by (auto split: prod.splits)
    then show ?case using Suc.IH by (auto intro: disconnecter_steps.run)
  qed (auto intro: disconnecter_steps.drop)
next
  assume "disconnecter_steps S m d m' d'"
  then show "\<exists>n as. disconnecter_runs S m d n = (as, m', d')"
  proof (induction rule: disconnecter_steps.induct)
    case (drop m d)
    have "disconnecter_runs S m d 0 = ([], m, d)" by simp
    then show ?case by blast
  next
    case (run m d a m' d' m'' d'')
    then obtain n as where "disconnecter_runs S m' d' n = (as, m'', d'')" by blast
    with run.hyps(1) have "disconnecter_runs S m d (Suc n) = (a # as, m'', d'')" by simp
    then show ?case by blast
  qed
qed

text \<open>One call that does not panic is one step, and the other way around.\<close>

lemma perform_step:
  assumes "perform S fx m c = Return (as, m')" and "call_ok c"
  shows "fsm_step S fx m m'"
proof (cases c)
  case (Publish_Call q ts)
  with assms(1) obtain b where "publisher_runs S fx m (publish q) ts = Return (as, m', b)"
    by (auto split: outcome.splits)
  then have "publisher_steps S fx m (publish q) m' b" using publisher_runs_steps by blast
  then show ?thesis by (rule fsm_step.publish)
next
  case (Disconnect_Call d n)
  with assms(1) obtain ds where "disconnecter_runs S m (disconnect d) n = (as, m', ds)"
    by (auto split: prod.splits)
  then have "disconnecter_steps S m (disconnect d) m' ds" using disconnecter_runs_steps by blast
  then show ?thesis by (rule fsm_step.disconnect)
qed (use assms in \<open>auto intro: fsm_step.intros\<close>)

lemma step_perform:
  assumes "fsm_step S fx m m'"
  obtains c as where "call_ok c" and "perform S fx m c = Return (as, m')"
  using assms
proof (cases rule: fsm_step.cases)
  case (connect t c a)
  then show ?thesis using that [of "Connect_Call t c"] by simp
next
  case (consume p t ao)
  then show ?thesis using that [of "Consume_Call p t"] by simp
next
  case (run t ao)
  then show ?thesis using that [of "Run_Call t"] by simp
next
  case (publish q b)
  then obtain ts as where "publisher_runs S fx m (Client_FSM.publish q) ts = Return (as, m', b)"
    using publisher_runs_steps by blast
  then show ?thesis using that [of "Publish_Call q ts"] by simp
next
  case (subscribe t sub a)
  then show ?thesis using that [of "Subscribe_Call t sub"] by simp
next
  case (acknowledge t i a)
  then show ?thesis using that [of "Acknowledge_Call t i"] by simp
next
  case (disconnect d ds)
  then obtain n as where "disconnecter_runs S m (Client_FSM.disconnect d) n = (as, m', ds)"
    using disconnecter_runs_steps by blast
  then show ?thesis using that [of "Disconnect_Call d n"] by simp
next
  case (connection_lost t)
  then show ?thesis using that [of "Lost_Call t"] by simp
qed

lemma play_snoc:
  assumes "play S fx m cs = Return (as, m')" and "perform S fx m' c = Return (bs, m'')"
  shows "play S fx m (cs @ [c]) = Return (as @ bs, m'')"
  using assms
proof (induction cs arbitrary: m as)
  case (Cons c1 cs)
  from Cons.prems(1) obtain as1 m1 as2 where "perform S fx m c1 = Return (as1, m1)"
    and "play S fx m1 cs = Return (as2, m')" and "as = as1 @ as2"
    by (auto split: outcome.splits)
  with Cons.IH [of m1 as2] Cons.prems(2) show ?case by simp
qed simp

lemma play_reachable:
  assumes "play S fx m cs = Return (as, m')" and "list_all call_ok cs" and "reachable S fx pis m"
  shows "reachable S fx pis m'"
  using assms
proof (induction cs arbitrary: m as)
  case (Cons c cs)
  from Cons.prems(1) obtain as1 m1 as2 where "perform S fx m c = Return (as1, m1)"
    and "play S fx m1 cs = Return (as2, m')"
    by (auto split: outcome.splits)
  moreover from this(1) Cons.prems(2,3) have "reachable S fx pis m1"
    by (auto intro: reachable.step perform_step)
  ultimately show ?case using Cons.IH Cons.prems(2) by simp
qed simp

lemma reachable_play:
  "reachable S fx pis m \<longleftrightarrow>
    (\<exists>cs as. list_all call_ok cs \<and> play S fx (fsm_new pis) cs = Return (as, m))"
proof
  show "reachable S fx pis m \<Longrightarrow> \<exists>cs as. list_all call_ok cs \<and> play S fx (fsm_new pis) cs = Return (as, m)"
  proof (induction rule: reachable.induct)
    case init
    have "list_all call_ok [] \<and> play S fx (fsm_new pis) [] = Return ([], fsm_new pis)" by simp
    then show ?case by blast
  next
    case (step m m')
    then obtain cs as where "list_all call_ok cs" "play S fx (fsm_new pis) cs = Return (as, m)" by blast
    moreover obtain c bs where "call_ok c" "perform S fx m c = Return (bs, m')"
      using step_perform [OF step.hyps(2)] .
    ultimately have "list_all call_ok (cs @ [c]) \<and> play S fx (fsm_new pis) (cs @ [c]) = Return (as @ bs, m')"
      by (simp add: play_snoc)
    then show ?case by blast
  qed
qed (auto intro: play_reachable reachable.init)

section \<open>The sessions of the unit tests\<close>

definition test_connect :: "u16 \<Rightarrow> MConnect" where
  "test_connect k =
     \<lparr>con_client_identifier = [0x74, 0x65, 0x73, 0x74, 0x69, 0x6E, 0x67], con_username = None,
      con_password = None, con_clean_start = False, con_will = None,
      con_properties = props_new ConnectProperties, con_keep_alive = k\<rparr>"

abbreviation test_connack :: MqttPacket where
  "test_connack \<equiv> Connack example_connack"

definition test_disconnect :: MDisconnect where
  "test_disconnect =
     \<lparr>dis_reason_code = NormalDisconnection, dis_properties = props_new DisconnectProperties\<rparr>"

text \<open>\<open>foo/bar\<close> and \<open>Hello World\<close>\<close>

definition test_publish :: "QualityOfService \<Rightarrow> PacketIdentifier option \<Rightarrow> MPublish" where
  "test_publish q i =
     \<lparr>pub_duplicate = False, pub_quality_of_service = q, pub_retain = False,
      pub_topic_name = [0x66, 0x6F, 0x6F, 0x2F, 0x62, 0x61, 0x72], pub_packet_identifier = i,
      pub_properties = props_new PublishProperties,
      pub_payload = [0x48, 0x65, 0x6C, 0x6C, 0x6F, 0x20, 0x57, 0x6F, 0x72, 0x6C, 0x64]\<rparr>"

definition test_puback :: "PacketIdentifier \<Rightarrow> MPuback" where
  "test_puback i =
     \<lparr>ack_packet_identifier = i, ack_reason = Success, ack_properties = props_new PubackProperties\<rparr>"

abbreviation test_play :: "call list \<Rightarrow> UsizeStore session" where
  "test_play \<equiv> play Usize_pis (\<lambda>_. 7) (fsm_new UsizeStore_new)"

abbreviation test_state :: "u16 \<Rightarrow> MqttInstant \<Rightarrow> ConnectionState \<Rightarrow> UsizeStore \<Rightarrow> UsizeStore fsm" where
  "test_state k t st pis \<equiv>
     \<lparr>data = \<lparr>keep_alive = k, client_id_hash = Some 7, last_time_run = t\<rparr>,
      connection_state = st, client_pis = pis\<rparr>"

text \<open>A struct of properties just made holds none.\<close>

lemma props_get_new [simp]: "props_get ks (props_new ks) k = None"
  by (induction ks) (simp_all add: props_new_def)

text \<open>The first indices the store looks at.\<close>

lemma first_indices: "[0..<64] = 0 # 1 # 2 # [3..<64]"
  by (simp add: upt_conv_Cons del: upt_rec_numeral)

lemmas session_defs =
  fsm_defs store_defs test_connect_def test_disconnect_def test_publish_def test_puback_def
  example_connack_def one_action_def maybe_action_def Let_def numeral_3_eq_3 first_indices

lemma check_simple_connect:
  "test_play [Connect_Call 0 (test_connect 0), Consume_Call test_connack 0] =
    Return ([Some (SendPacket (Connect (test_connect 0))), None],
      test_state 0 0 (Connected \<lparr>last_time_sent = 0, ping_state = WaitingForElapsed\<rparr>) UsizeStore_new)"
  by (simp add: session_defs)

lemma check_simple_connect_and_disconnect:
  "test_play [Connect_Call 0 (test_connect 0), Consume_Call test_connack 0,
      Lost_Call 1,
      Connect_Call 0 (test_connect 0), Consume_Call test_connack 0] =
    Return ([Some (SendPacket (Connect (test_connect 0))), None,
      Some (SendPacket (Connect (test_connect 0))), None],
      test_state 0 0 (Connected \<lparr>last_time_sent = 0, ping_state = WaitingForElapsed\<rparr>) UsizeStore_new)"
  by (simp add: session_defs)

lemma check_manual_disconnect:
  "test_play [Connect_Call 0 (test_connect 0), Consume_Call test_connack 0,
      Disconnect_Call test_disconnect 3,
      Run_Call 1] =
    Return ([Some (SendPacket (Connect (test_connect 0))), None,
      Some (SendPacket (Disconnect test_disconnect)), Some DisconnectAction, None,
      None],
      test_state 0 1 Disconnected UsizeStore_new)"
  by (simp add: session_defs)

lemma check_incoming_disconnects:
  "test_play [Connect_Call 0 (test_connect 0), Consume_Call test_connack 0,
      Consume_Call (Disconnect test_disconnect) 1] =
    Return ([Some (SendPacket (Connect (test_connect 0))), None,
      Some DisconnectAction],
      test_state 0 1 Disconnected UsizeStore_new)"
  by (simp add: session_defs)

lemma check_ping_request:
  "test_play [Connect_Call 0 (test_connect 10), Consume_Call test_connack 0,
      Run_Call 5,
      Run_Call 9,
      Run_Call 10,
      Run_Call 12,
      Consume_Call (Pingresp MPingresp) 15,
      Run_Call 20,
      Run_Call 22] =
    Return ([Some (SendPacket (Connect (test_connect 10))), None,
      None, None, Some (SendPacket (Pingreq MPingreq)), None,
      None, Some (SendPacket (Pingreq MPingreq)), None],
      test_state 10 22 (Connected \<lparr>last_time_sent = 20, ping_state = WaitingForPingrespSince 20\<rparr>) UsizeStore_new)"
  by (simp add: session_defs)

lemma check_simple_publish:
  "test_play [Connect_Call 0 (test_connect 10), Consume_Call test_connack 0,
      Publish_Call (test_publish AtMostOnce None) [11, 11],
      Run_Call 12] =
    Return ([Some (SendPacket (Connect (test_connect 10))), None,
      Some (SendPacket (Publish (test_publish AtMostOnce None))), None, None],
      test_state 10 12 (Connected \<lparr>last_time_sent = 11, ping_state = WaitingForElapsed\<rparr>) UsizeStore_new)"
  by (simp add: session_defs word_le_nat_alt)

lemma check_qos1_publish:
  "test_play [Connect_Call 0 (test_connect 10), Consume_Call test_connack 0,
      Publish_Call (test_publish AtLeastOnce None) [10, 10, 11],
      Run_Call 12,
      Consume_Call (Puback (test_puback 1)) 13,
      Run_Call 12] =
    Return ([Some (SendPacket (Connect (test_connect 10))), None,
      Some (StorePacket 1), Some (SendPacket (Publish (test_publish AtLeastOnce (Some 1)))), None,
      None, Some (ReleasePacket 1), None],
      test_state 10 12 (Connected \<lparr>last_time_sent = 10, ping_state = WaitingForElapsed\<rparr>) UsizeStore_new)"
  by (simp add: session_defs)

lemma check_publish_recv:
  "test_play [Connect_Call 0 (test_connect 10), Consume_Call test_connack 0,
      Consume_Call (Publish (test_publish AtMostOnce None)) 1,
      Run_Call 2,
      Consume_Call (Publish (test_publish AtLeastOnce (Some 11))) 3,
      Acknowledge_Call 4 11,
      Run_Call 2] =
    Return ([Some (SendPacket (Connect (test_connect 10))), None,
      Some (ReceivePacket (NoFurtherAction (Publish (test_publish AtMostOnce None)))), None,
      Some (ReceivePacket (AcknowledgeNeeded (Publish (test_publish AtLeastOnce (Some 11))) 11)),
      Some (SendPacket (Puback (test_puback 11))), None],
      test_state 10 2 (Connected \<lparr>last_time_sent = 4, ping_state = WaitingForElapsed\<rparr>) UsizeStore_new)"
  by (simp add: session_defs)

text \<open>The test of \<open>packet_identifier_store.rs\<close>.\<close>

lemma check_slot_reuse_after_release:
  "\<exists>s1 s2 s3 s4. Usize_get_next_free UsizeStore_new NonPublish_Usage = (Some 1, s1) \<and>
    Usize_get_next_free s1 Publish_Usage = (Some 2, s2) \<and>
    Usize_get_next_free (Usize_release_non_publish_slots s2) Publish_Usage = (Some 1, s3) \<and>
    Usize_get_next_free (Usize_release_non_publish_slots s3) NonPublish_Usage = (Some 3, s4)"
  by (simp add: store_defs first_indices Let_def)

section \<open>Properties\<close>

text \<open>
  The identifiers that an action gives to a packet: that under which a packet is to be stored, that of a
  SUBSCRIBE, and that of a PUBLISH of quality of service 1 or 2 (one of quality of service 0 has
  none).
\<close>

fun given_id :: "ExpectedAction option \<Rightarrow> PacketIdentifier option" where
  "given_id (Some (StorePacket i)) = Some i"
| "given_id (Some (SendPacket (Subscribe q))) = Some (sub_packet_identifier q)"
| "given_id (Some (SendPacket (Publish p))) =
     (if pub_quality_of_service p = AtMostOnce then None else pub_packet_identifier p)"
| "given_id a = None"

text \<open>The identifier that an acknowledgement from the server gives back.\<close>

fun acknowledged_id :: "call \<Rightarrow> PacketIdentifier option" where
  "acknowledged_id (Consume_Call (Puback a) t) = Some (ack_packet_identifier a)"
| "acknowledged_id (Consume_Call (Suback a) t) = Some (suback_packet_identifier a)"
| "acknowledged_id c = None"

text \<open>A publisher on its way to send has an identifier of its own.\<close>

definition own_id :: "PacketIdentifier \<Rightarrow> MqttClientPublisher \<Rightarrow> bool" where
  "own_id i b \<longleftrightarrow>
     (publisher_state b = Send \<longrightarrow>
        (\<forall>p. publisher_packet b = Some p \<longrightarrow> pub_quality_of_service p \<noteq> AtMostOnce \<longrightarrow>
           pub_packet_identifier p \<noteq> Some i))"

context packet_id_store
begin

lemma publisher_run_given:
  assumes "publisher_run S fx m b t = Return (a, m', b')" and "fsm_inv m"
    and "i \<in> publishing (client_pis m)" and "own_id i b"
  shows "given_id a \<noteq> Some i \<and> own_id i b'"
proof (cases "publisher_state b")
  case Store
  have "j \<noteq> i" if "get_next_free S (client_pis m) Publish_Usage = (Some j, pis)" for j pis
    using next_free_Some [OF _ that] publishing_used [of "client_pis m"] assms(2,3)
    by (auto simp: fsm_inv_def)
  with Store assms(1,4) show ?thesis
    by (auto simp: publisher_run_def own_id_def split: option.splits prod.splits if_splits)
next
  case Send
  with assms(1,4) show ?thesis
    by (auto simp: publisher_run_def own_id_def inner_run_publish split: option.splits outcome.splits
        ConnectionState.splits if_splits)
next
  case Done
  with assms(1,4) show ?thesis by (auto simp: publisher_run_def own_id_def)
qed

lemma publisher_runs_given:
  assumes "publisher_runs S fx m b ts = Return (as, m', b')" and "fsm_inv m"
    and "i \<in> publishing (client_pis m)" and "own_id i b"
  shows "Some i \<notin> given_id ` set as"
  using assms
proof (induction ts arbitrary: m b as)
  case (Cons t ts)
  then obtain a m1 b1 as1 where r: "publisher_run S fx m b t = Return (a, m1, b1)"
    "publisher_runs S fx m1 b1 ts = Return (as1, m', b')" "as = a # as1"
    by (auto split: outcome.splits)
  note g = publisher_run_given [OF r(1) Cons.prems(2-4)]
  moreover have "Some i \<notin> given_id ` set as1"
    using Cons.IH [OF r(2)] g publisher_run_inv [OF r(1)] publisher_run_publishing [OF r(1)] Cons.prems
    by blast
  ultimately show ?case by (auto simp: r(3))
qed simp

lemma consume_given:
  assumes "consume_run S fx m p t = Return (a, m')"
  shows "given_id a = None"
  using assms
  by (auto simp: consume_run_cases handle_connecting_without_auth_def Let_def connected_consume_def
      split: ConnectionState.splits outcome.splits MqttPacket.splits if_splits QualityOfService.splits
        option.splits PingState.splits)

lemma disconnecter_runs_given:
  "disconnecter_runs S m ds n = (as, r) \<Longrightarrow> (case ds of DisconnectPacket p \<Rightarrow> \<exists>d. p = Disconnect d | _ \<Rightarrow> True) \<Longrightarrow>
    given_id ` set as \<subseteq> {None}"
proof (induction n arbitrary: m ds as)
  case (Suc n)
  then show ?case by (cases ds) (fastforce simp: disconnecter_run_def split: prod.splits)+
qed simp

lemma action_given:
  "handle_connect fx m t c = Return (b, m') \<Longrightarrow> given_id (Some b) = None"
  "fsm_run S fx m t = Return (a, m') \<Longrightarrow> given_id a = None"
  "acknowledge S fx m t j = Return (b, m') \<Longrightarrow> given_id (Some b) = None"
  by (auto simp: handle_connect_def Let_def fsm_run_def inner_run_def handle_connected_def
      handle_connecting_without_auth_def acknowledge_def inner_run_publish
      split: if_splits option.splits ConnectionState.splits PingState.splits outcome.splits)

lemma perform_given:
  assumes "perform S fx m c = Return (as, m')" and "fsm_inv m" and "i \<in> publishing (client_pis m)"
  shows "Some i \<notin> given_id ` set as"
proof (cases c)
  case (Publish_Call q ts)
  moreover have "own_id i (publish q)" by (simp add: own_id_def publish_def)
  ultimately show ?thesis
    using assms publisher_runs_given [of fx m "publish q" ts as m' _ i] by (auto split: outcome.splits)
next
  case (Subscribe_Call t sub)
  have "j \<noteq> i" if "get_next_free S (client_pis m) NonPublish_Usage = (Some j, pis)" for j pis
    using next_free_Some [OF _ that] publishing_used [of "client_pis m"] assms(2,3)
    by (auto simp: fsm_inv_def)
  with Subscribe_Call assms(1) show ?thesis
    by (auto simp: subscribe_def inner_run_publish split: prod.splits option.splits outcome.splits
        ConnectionState.splits)
next
  case (Disconnect_Call d n)
  with assms(1) obtain ds where "disconnecter_runs S m (disconnect d) n = (as, m', ds)"
    by (auto split: prod.splits)
  from disconnecter_runs_given [OF this] show ?thesis by (auto simp: disconnect_def)
qed (use assms(1) in \<open>auto dest: consume_given action_given\<close>)

text \<open>Only an acknowledgement takes an identifier from a publish.\<close>

lemma perform_publishing:
  assumes "perform S fx m c = Return (as, m')" and "call_ok c" and "fsm_inv m"
    and "i \<in> publishing (client_pis m)" and "acknowledged_id c \<noteq> Some i"
  shows "i \<in> publishing (client_pis m')"
proof (cases c)
  case (Connect_Call t c')
  with assms(1) have "client_pis m' = client_pis m"
    by (auto simp: handle_connect_def Let_def split: if_splits option.splits)
  with assms(4) show ?thesis by simp
next
  case (Consume_Call p t)
  with assms(1) obtain a where "consume_run S fx m p t = Return (a, m')" by auto
  from consume_publishing [OF this assms(3) _ assms(4)] assms(2,5) Consume_Call show ?thesis by auto
next
  case (Run_Call t)
  with assms(1) have "client_pis m' = client_pis m"
    by (auto simp: fsm_run_def inner_run_def Let_def handle_connected_def handle_connecting_without_auth_def
        split: ConnectionState.splits if_splits PingState.splits)
  with assms(4) show ?thesis by simp
next
  case (Publish_Call q ts)
  with assms(1) obtain b where "publisher_runs S fx m (publish q) ts = Return (as, m', b)"
    by (auto split: outcome.splits)
  then have "publisher_steps S fx m (publish q) m' b" using publisher_runs_steps by blast
  then show ?thesis using publisher_steps_publishing assms(3,4) by blast
next
  case (Subscribe_Call t sub)
  with assms(1) obtain j pis a where n: "get_next_free S (client_pis m) NonPublish_Usage = (Some j, pis)"
    and r: "inner_run S fx (m\<lparr>client_pis := pis\<rparr>) t
      (PublishPacket (Subscribe (sub\<lparr>sub_packet_identifier := j\<rparr>))) = Return (Some a, m')"
    by (auto simp: subscribe_def split: prod.splits option.splits outcome.splits)
  from inner_run_publish_pis [OF r] n next_free_publishing assms(3,4) show ?thesis
    by (auto simp: fsm_inv_def)
next
  case (Acknowledge_Call t j)
  with assms(1,4) show ?thesis
    by (auto simp: acknowledge_def split: outcome.splits option.splits prod.splits
        dest: inner_run_publish_pis)
next
  case (Disconnect_Call d n)
  with assms(1) obtain ds where "disconnecter_runs S m (disconnect d) n = (as, m', ds)"
    by (auto split: prod.splits)
  then have "disconnecter_steps S m (disconnect d) m' ds" using disconnecter_runs_steps by blast
  then show ?thesis using disconnecter_steps_publishing assms(3,4) by blast
next
  case (Lost_Call t)
  with assms(1,3,4) release_non_publish [of "client_pis m"] show ?thesis
    by (auto simp: connection_lost_def fsm_inv_def)
qed

lemma play_publishing:
  assumes "play S fx m cs = Return (as, m')" and "list_all call_ok cs" and "fsm_inv m"
    and "i \<in> publishing (client_pis m)" and "Some i \<notin> acknowledged_id ` set cs"
  shows "i \<in> publishing (client_pis m') \<and> Some i \<notin> given_id ` set as"
  using assms
proof (induction cs arbitrary: m as)
  case (Cons c cs)
  then obtain as1 m1 as2 where r: "perform S fx m c = Return (as1, m1)" "play S fx m1 cs = Return (as2, m')"
    "as = as1 @ as2" by (auto split: outcome.splits)
  have ok: "call_ok c" "list_all call_ok cs" "acknowledged_id c \<noteq> Some i" "Some i \<notin> acknowledged_id ` set cs"
    using Cons.prems(2,5) by auto
  have "fsm_inv m1" by (rule fsm_step_inv [OF perform_step [OF r(1) ok(1)] Cons.prems(3)])
  moreover have "i \<in> publishing (client_pis m1)"
    by (rule perform_publishing [OF r(1) ok(1) Cons.prems(3,4) ok(3)])
  ultimately have "i \<in> publishing (client_pis m') \<and> Some i \<notin> given_id ` set as2"
    using Cons.IH [OF r(2) ok(2) _ _ ok(4)] by blast
  with perform_given [OF r(1) Cons.prems(3,4)] r(3) show ?case by (simp add: image_Un)
qed simp

end

text \<open>
  C7. No identifier of a publish is lost or given to another packet while its exchange is
  open. Take any calls, in any order, on a client in a state with the invariant of
  \<open>reachable_invariant\<close>: as long as none of them consumes an acknowledgement that carries
  the identifier, the identifier stays held by the publish, and no action asks to store a packet under
  it or sends another SUBSCRIBE, or another PUBLISH of quality of service 1 or 2, with it.
  (A SUBACK with the identifier of a publish counts as an acknowledgement: the client does not check what
  kind of packet an identifier belongs to.)
\<close>

theorem publish_identifier_kept:
  assumes "usize_store.fsm_inv m" and "i \<in> ids_of (is_publish (client_pis m))"
    and "play Usize_pis fx m cs = Return (as, m')" and "list_all call_ok cs"
    and "Some i \<notin> acknowledged_id ` set cs"
  shows "i \<in> ids_of (is_publish (client_pis m')) \<and> Some i \<notin> given_id ` set as"
  by (rule usize_store.play_publishing [OF assms(3,4,1,2,5)])

lemma publish_identifier_kept_witness:
  "\<exists>as m'. play Usize_pis (\<lambda>_. 7) example_fsm
      [Publish_Call example_publish [4, 5], Subscribe_Call 6 example_subscribe, Lost_Call 9] = Return (as, m') \<and>
    map given_id as = [Some 2, Some 2, Some 4] \<and> 3 \<in> ids_of (is_publish (client_pis m'))"
proof -
  define cs where "cs = [Publish_Call example_publish [4, 5], Subscribe_Call 6 example_subscribe, Lost_Call 9]"
  obtain as m' where p: "play Usize_pis (\<lambda>_. 7) example_fsm cs = Return (as, m')"
    and g: "map given_id as = [Some 2, Some 2, Some 4]"
  proof -
    have f: "[0..<64] = 0 # 1 # 2 # 3 # [4..<64]" by (simp add: upt_conv_Cons del: upt_rec_numeral)
    show ?thesis
      using that
      by (simp add: cs_def example_fsm_def example_publish_def example_subscribe_def fsm_defs store_defs
          one_action_def Let_def f)
  qed
  have "usize_store.fsm_inv example_fsm"
    by (simp add: usize_store.fsm_inv_def example_fsm_def Usize_inv_def ping_inv_def)
  moreover have "3 \<in> ids_of (is_publish (client_pis example_fsm))"
    by (simp add: example_fsm_def ids_of_4)
  ultimately have "3 \<in> ids_of (is_publish (client_pis m'))"
    using publish_identifier_kept [OF _ _ p, of 3] by (simp add: cs_def)
  with p g show ?thesis unfolding cs_def by (intro exI conjI)
qed

end
