(* ===== verification/Frame_Codec.thy ===== *)
theory Frame_Codec
  imports Mqtt_Packet
begin

text \<open>
  \<open>cloudmqtt/src/codec.rs\<close>: the \<open>tokio_util\<close> codec that cuts the byte stream of a connection
  into packets, and \<open>MqttPacket\<close>, a packet kept together with its bytes. A \<open>BytesMut\<close> is
  its contents; \<open>reserve\<close> and tracing have no effect on it. A \<open>Yoke\<close> over a cart is the
  value parsed from the cart. What the start of a buffer announces, \<open>length_field\<close> and
  \<open>frame_length\<close>, is said without the parser; the properties of \<open>decode\<close> refer to it.
\<close>

section \<open>Decoding\<close>

datatype codec_error = Protocol | Parsing err_mode | Writer write_error

type_synonym decode_result = "(codec_error + MqttPacket option) outcome"

definition decode :: "winnow \<Rightarrow> bytes \<Rightarrow> decode_result \<times> bytes" where
  "decode W src =
     (if length src < 2 then (Return (Inr None), src)
      else
        case parse_variable_u32 W True (drop 1 src) of
          POk sz r \<Rightarrow>
            (let remaining_length = unat sz in
             case variable_u32_binary_size (word_of_nat remaining_length) of
               None \<Rightarrow> (Panic, src)
             | Some n \<Rightarrow>
                 (let total_packet_length = 1 + unat n + remaining_length in
                  if length src < total_packet_length then (Return (Inr None), src)
                  else
                    (case parse_complete W (take total_packet_length src) of
                       Inl e \<Rightarrow> (Return (Inl (Parsing e)), drop total_packet_length src)
                     | Inr p \<Rightarrow> (Return (Inr (Some p)), drop total_packet_length src))))
        | PErr e \<Rightarrow>
            (case e of
               Incomplete n \<Rightarrow> (Return (Inr None), src)
             | _ \<Rightarrow> (Return (Inl Protocol), src)))"

section \<open>Encoding\<close>

definition encode :: "winnow \<Rightarrow> MqttPacket \<Rightarrow> bytes \<Rightarrow> (codec_error + unit) outcome \<times> bytes" where
  "encode W packet dst =
     (case MqttPacket_binary_size W packet of
        None \<Rightarrow> (Panic, dst)
      | Some n \<Rightarrow>
          (case MqttPacket_write W packet dst of
             (WOk, dst') \<Rightarrow> (Return (Inr ()), dst')
           | (WErr e, dst') \<Rightarrow> (Return (Inl (Writer e)), dst')
           | (WPanic, dst') \<Rightarrow> (Panic, dst')))"

text \<open>\<open>MqttPacket::new\<close>: both \<open>unwrap\<close>s are panics.\<close>

definition MqttPacket_new :: "winnow \<Rightarrow> MqttPacket \<Rightarrow> MqttPacket outcome" where
  "MqttPacket_new W packet =
     (case MqttPacket_binary_size W packet of
        None \<Rightarrow> Panic
      | Some n \<Rightarrow>
          (case MqttPacket_write W packet [] of
             (WOk, buffer) \<Rightarrow>
               (case parse_complete W buffer of Inl e \<Rightarrow> Panic | Inr p \<Rightarrow> Return p)
           | _ \<Rightarrow> Panic))"

lemmas frame_defs [defs] = decode_def encode_def MqttPacket_new_def

text \<open>What a reader of the stream gets: the packets, until \<open>decode\<close> asks for more bytes or fails.\<close>

fun decode_all :: "winnow \<Rightarrow> nat \<Rightarrow> bytes \<Rightarrow> MqttPacket list \<times> bytes" where
  "decode_all W 0 src = ([], src)"
| "decode_all W (Suc n) src =
     (case decode W src of
        (Return (Inr (Some p)), src') \<Rightarrow> (let (ps, rest) = decode_all W n src' in (p # ps, rest))
      | (_, src') \<Rightarrow> ([], src'))"

text \<open>The same with the bytes arriving in chunks, the rest of one kept for the next.\<close>

fun read_chunks :: "winnow \<Rightarrow> nat \<Rightarrow> bytes \<Rightarrow> bytes list \<Rightarrow> MqttPacket list \<times> bytes" where
  "read_chunks W n buf [] = ([], buf)"
| "read_chunks W n buf (chunk # chunks) =
     (let (ps, rest) = decode_all W n (buf @ chunk);
          (qs, rest') = read_chunks W n rest chunks
      in (ps @ qs, rest'))"

section \<open>What the start of the buffer announces\<close>

text \<open>
  The length field of a packet, as the standard defines it: up to four bytes, of which all but the
  last carry the continuation bit. \<open>continuation_bytes\<close> counts those that do; four of them make
  no variable byte integer. The bytes of the buffer that belong to the packet are the first byte,
  the field and as many bytes as the field says; \<open>frame_length\<close> is that number with the field
  in its shortest form, which is how \<open>decode\<close> counts it.
\<close>

definition continuation_bytes :: "bytes \<Rightarrow> nat" where
  "continuation_bytes src = length (takeWhile var_cont (take 4 (drop 1 src)))"

definition length_field :: "bytes \<Rightarrow> bytes" where
  "length_field src = take (Suc (continuation_bytes src)) (drop 1 src)"

definition length_announced :: "bytes \<Rightarrow> bool" where
  "length_announced src \<longleftrightarrow> continuation_bytes src < 4 \<and> continuation_bytes src < length (drop 1 src)"

definition length_invalid :: "bytes \<Rightarrow> bool" where
  "length_invalid src \<longleftrightarrow> continuation_bytes src = 4"

definition frame_length :: "bytes \<Rightarrow> nat" where
  "frame_length src =
     1 + length (var_bytes (var_nat (length_field src))) + var_nat (length_field src)"

lemma continuation_bytes_le: "continuation_bytes src \<le> 4"
  using length_takeWhile_le [of var_cont "take 4 (drop 1 src)"] by (simp add: continuation_bytes_def)

lemma length_field_length: "length_announced src \<Longrightarrow> length (length_field src) = Suc (continuation_bytes src)"
  by (simp add: length_announced_def length_field_def)

lemma length_field_bound:
  assumes "length_announced src"
  shows "var_nat (length_field src) < 268435456"
proof -
  have "(128 :: nat) ^ length (length_field src) \<le> 128 ^ 4"
    using assms by (intro power_increasing) (auto simp: length_field_length length_announced_def)
  then show ?thesis using var_nat_less [of "length_field src"] by simp
qed

lemma length_field_minimal:
  assumes "length_announced src"
  shows "length (var_bytes (var_nat (length_field src))) \<le> length (length_field src)"
  using assms by (intro var_bytes_length_pow [OF var_nat_less]) (simp add: length_field_length)

lemma frame_length_ge: "2 \<le> frame_length src"
  by (cases "var_bytes (var_nat (length_field src))") (auto simp: frame_length_def)

section \<open>Lemmas\<close>

context winnow_spec begin

lemma packet_len:
  assumes "packet_ok W p"
  shows "length (enc_body W p) \<le> 268435455"
  using assms by (simp add: packet_ok_def fits_def)

lemma var_size_len:
  assumes "u \<le> VARIABLE_INTEGER_MAX"
  obtains n where "variable_u32_binary_size u = Some n" "unat n = length (enc_var u)"
proof -
  have "length (enc_var u) \<le> 4"
    using assms unfolding enc_var_def
    by (intro var_bytes_length_le) (simp add: VARIABLE_INTEGER_MAX_def word_le_nat_alt)
  then have "unat (word_of_nat (length (enc_var u)) :: u32) = length (enc_var u)"
    by (simp add: unat_of_nat)
  with that var_u32.size_enc [OF assms] show ?thesis by (simp add: sizes_def)
qed

text \<open>With the whole length field there, the frame is cut at the length it says.\<close>

lemma decode_length:
  assumes "n \<le> 268435455"
  shows "decode W (b # enc_var (word_of_nat n) @ body) =
    (if length body < n then (Return (Inr None), b # enc_var (word_of_nat n) @ body)
     else
       (case parse_complete W (b # enc_var (word_of_nat n) @ take n body) of
          Inl e \<Rightarrow> (Return (Inl (Parsing e)), drop n body)
        | Inr p \<Rightarrow> (Return (Inr (Some p)), drop n body)))"
proof -
  have u: "(word_of_nat n :: u32) \<le> VARIABLE_INTEGER_MAX" "unat (word_of_nat n :: u32) = n"
    using assms by (simp_all add: var_len_le unat_var_len)
  obtain k where k: "variable_u32_binary_size (word_of_nat n) = Some k"
    "unat k = length (enc_var (word_of_nat n))" by (rule var_size_len [OF u(1)])
  have "1 \<le> length (enc_var (word_of_nat n))" by (cases "enc_var (word_of_nat n)") auto
  then show ?thesis
    using u k by (simp add: decode_def parse_enc_var Let_def split: sum.split)
qed

lemma decode_enc:
  assumes "packet_ok W p"
  shows "decode W (enc_packet W p @ r) = (Return (Inr (Some (packet_canon W p))), r)"
proof -
  have "parse_complete W (enc_packet W p) = Inr (packet_canon W p)"
    using packet.parse_enc [OF assms, of "[]"] by (simp add: parse_complete_def)
  then show ?thesis
    using decode_length [OF packet_len [OF assms], of "header_byte (header_of p)" "enc_body W p @ r"]
    by (simp add: enc_packet_def)
qed

text \<open>A part of the length field, or of the body, is not enough.\<close>

lemma decode_prefix:
  assumes "packet_ok W p" and "strict_prefix src (enc_packet W p)"
  shows "decode W src = (Return (Inr None), src)"
proof (cases "length src < 2")
  case False
  define e where "e = enc_var (word_of_nat (length (enc_body W p)))"
  obtain b s where s: "src = b # s" using False by (cases src) auto
  with assms(2) have b: "b = header_byte (header_of p)" and pre: "strict_prefix s (e @ enc_body W p)"
    by (simp_all add: enc_packet_def e_def)
  show ?thesis
  proof (cases "length e \<le> length s")
    case True
    have "prefix e s"
      by (rule prefix_length_prefix [of e "e @ enc_body W p"]) (use pre True in \<open>auto simp: strict_prefix_def\<close>)
    then obtain t where t: "s = e @ t" by (auto elim: prefixE)
    with pre have "strict_prefix t (enc_body W p)" by (auto simp: strict_prefix_def)
    then have "length t < length (enc_body W p)" by (simp add: prefix_length_less)
    then show ?thesis
      using decode_length [OF packet_len [OF assms(1)], of b t] by (simp add: s t e_def)
  next
    case False
    have "prefix s e"
      by (rule prefix_length_prefix [of s "e @ enc_body W p"]) (use pre False in \<open>auto simp: strict_prefix_def\<close>)
    then obtain t where t: "e = s @ t" by (auto elim: prefixE)
    then have "t \<noteq> []" using False by auto
    obtain fr l where e: "e = fr @ [l]" "\<forall>b\<in>set fr. var_cont b"
      unfolding e_def enc_var_def by (rule var_bytes_shape)
    have "length e \<le> 4"
      unfolding e_def enc_var_def using packet_len [OF assms(1)]
      by (intro var_bytes_length_le) (simp add: unat_var_len)
    then have len: "length s \<le> 3" using t \<open>t \<noteq> []\<close> by (cases t) auto
    obtain t' l' where "t = t' @ [l']" using \<open>t \<noteq> []\<close> by (cases t rule: rev_cases) auto
    with t e(1) have "prefix s fr" by simp
    then have "\<forall>b\<in>set s. var_cont b" using e(2) by (auto dest: set_mono_prefix)
    with len have "parse_variable_u32 W True s = PErr (Incomplete (Size 1))"
      by (cases rule: parse_var_cases [of s True]) (auto simp: take_all)
    then show ?thesis using \<open>\<not> length src < 2\<close> by (simp add: decode_def s)
  qed
qed (simp add: decode_def)

lemma encode_enc:
  "packet_ok W p \<Longrightarrow> encode W p dst = (Return (Inr ()), dst @ enc_packet W p)"
  using packet.size_enc [of p] packet.write_enc [of p]
  by (simp add: encode_def sizes_def writesD)

lemma MqttPacket_new_ok: "packet_ok W p \<Longrightarrow> MqttPacket_new W p = Return (packet_canon W p)"
  using packet.size_enc [of p] packet.write_enc [of p] packet.parse_enc [of p "[]"]
  by (simp add: MqttPacket_new_def sizes_def writesD parse_complete_def)

lemma decode_all_enc:
  assumes "\<forall>p\<in>set ps. packet_ok W p" and "length ps < n" and "decode W r = (Return (Inr None), r)"
  shows "decode_all W n (concat (map (enc_packet W) ps) @ r) = (map (packet_canon W) ps, r)"
  using assms(1,2)
proof (induction ps arbitrary: n)
  case Nil
  then obtain m where "n = Suc m" by (cases n) auto
  with assms(3) show ?case by simp
next
  case (Cons p ps)
  then obtain m where "n = Suc m" by (cases n) auto
  with Cons show ?case by (simp add: decode_enc)
qed

text \<open>Every call of \<open>decode\<close> waits, or reports a protocol error, or uses up a frame.\<close>

lemma decode_equation:
  "decode W src =
    (if length_invalid src then (Return (Inl Protocol), src)
     else if \<not> length_announced src \<or> length src < frame_length src then (Return (Inr None), src)
     else
       (Return (case parse_complete W (take (frame_length src) src) of
          Inl e \<Rightarrow> Inl (Parsing e) | Inr p \<Rightarrow> Inr (Some p)),
        drop (frame_length src) src))"
proof (cases "length src < 2")
  case True
  then have "length src < frame_length src" using frame_length_ge [of src] by simp
  moreover have "continuation_bytes src \<noteq> 4"
    using True length_takeWhile_le [of var_cont "take 4 (drop 1 src)"] by (simp add: continuation_bytes_def)
  ultimately show ?thesis using True by (simp add: decode_def length_invalid_def)
next
  case False
  define k n where "k = continuation_bytes src" and "n = var_nat (length_field src)"
  have p: "parse_variable_u32 W True (drop 1 src) =
    (if k = 4 then PErr Backtrack
     else if k = length (drop 1 src) then PErr (Incomplete (Size 1))
     else POk (word_of_nat n) (drop (Suc k) (drop 1 src)))"
    by (subst parse_var_equation) (simp add: k_def n_def Let_def continuation_bytes_def length_field_def)
  have k: "k \<le> 4" "k \<le> length (drop 1 src)"
    using continuation_bytes_le [of src] length_takeWhile_le [of var_cont "take 4 (drop 1 src)"]
    by (simp_all add: k_def continuation_bytes_def)
  show ?thesis
  proof (cases "length_announced src")
    case True
    then have u: "(word_of_nat n :: u32) \<le> VARIABLE_INTEGER_MAX" "unat (word_of_nat n :: u32) = n"
      using length_field_bound [OF True] by (simp_all add: n_def var_len_le unat_var_len)
    obtain m where "variable_u32_binary_size (word_of_nat n) = Some m" "unat m = length (var_bytes n)"
      using u(2) by (auto simp: enc_var_def intro: var_size_len [OF u(1)])
    with p u True False show ?thesis
      by (simp add: decode_def length_invalid_def length_announced_def frame_length_def k_def n_def Let_def
          split: sum.split)
  next
    case False
    with k p \<open>\<not> length src < 2\<close> show ?thesis
      by (auto simp: decode_def length_invalid_def length_announced_def simp flip: k_def)
  qed
qed

lemma decode_cases:
  obtains (wait) "decode W src = (Return (Inr None), src)"
  | (protocol) "decode W src = (Return (Inl Protocol), src)"
  | (frame) k res where "2 \<le> k" "k \<le> length src" "decode W src = (Return res, drop k src)"
      "res = (case parse_complete W (take k src) of Inl e \<Rightarrow> Inl (Parsing e) | Inr p \<Rightarrow> Inr (Some p))"
  using wait protocol frame [of "frame_length src"] decode_equation [of src] frame_length_ge [of src]
  by (metis not_less)

lemma decode_waits_iff:
  "decode W src = (Return (Inr None), src) \<longleftrightarrow>
    \<not> length_invalid src \<and> (\<not> length_announced src \<or> length src < frame_length src)"
proof -
  have "drop (frame_length src) src \<noteq> src" if "frame_length src \<le> length src"
  proof
    assume "drop (frame_length src) src = src"
    then have "length (drop (frame_length src) src) = length src" by simp
    with that frame_length_ge [of src] show False by simp
  qed
  then show ?thesis unfolding decode_equation [of src] by (auto simp: not_less)
qed

text \<open>
  Any part of a stream of packets, cut anywhere, gives the packets that are complete in it and
  keeps the rest.
\<close>

lemma decode_Nil: "decode W [] = (Return (Inr None), [])"
  by (simp add: decode_def)

lemma decode_all_prefix:
  assumes "\<forall>p\<in>set ps. packet_ok W p" and "prefix x (concat (map (enc_packet W) ps))" and "length ps < n"
  shows "\<exists>qs rs y. ps = qs @ rs \<and> x = concat (map (enc_packet W) qs) @ y \<and>
    decode_all W n x = (map (packet_canon W) qs, y) \<and> decode W y = (Return (Inr None), y) \<and>
    prefix y (concat (map (enc_packet W) rs))"
  using assms
proof (induction ps arbitrary: x n)
  case Nil
  then obtain m where "n = Suc m" by (cases n) auto
  with Nil show ?case by (auto simp: decode_Nil)
next
  case (Cons p ps)
  then obtain m where m: "n = Suc m" "length ps < m" by (cases n) auto
  show ?case
  proof (cases "strict_prefix x (enc_packet W p)")
    case True
    then have d: "decode W x = (Return (Inr None), x)" using decode_prefix [OF _ True] Cons.prems(1) by simp
    then have "decode_all W n x = (map (packet_canon W) [], x)" by (simp add: m)
    with d Cons.prems(2) show ?thesis
      by (intro exI [of _ "[]"] exI [of _ "p # ps"] exI [of _ x]) simp
  next
    case False
    have "prefix x (enc_packet W p @ concat (map (enc_packet W) ps))" using Cons.prems(2) by simp
    then obtain x' where x: "x = enc_packet W p @ x'" "prefix x' (concat (map (enc_packet W) ps))"
      using False by (auto simp: prefix_append strict_prefix_def)
    from Cons.IH [OF _ x(2) m(2)] Cons.prems(1) obtain qs rs y where IH:
      "ps = qs @ rs" "x' = concat (map (enc_packet W) qs) @ y"
      "decode_all W m x' = (map (packet_canon W) qs, y)" "decode W y = (Return (Inr None), y)"
      "prefix y (concat (map (enc_packet W) rs))" by auto
    have "decode_all W n x = (map (packet_canon W) (p # qs), y)"
      using IH(3) Cons.prems(1) by (simp add: x(1) m(1) decode_enc)
    with IH x(1) show ?thesis
      by (intro exI [of _ "p # qs"] exI [of _ rs] exI [of _ y]) simp
  qed
qed

text \<open>Reading in chunks, as they arrive, gives the packets of the whole stream.\<close>

lemma read_chunks_stream:
  assumes "\<forall>p\<in>set ps. packet_ok W p" and "buf @ concat chunks = concat (map (enc_packet W) ps)"
    and "decode W buf = (Return (Inr None), buf)" and "length ps < n"
  shows "read_chunks W n buf chunks = (map (packet_canon W) ps, [])"
  using assms
proof (induction chunks arbitrary: buf ps)
  case Nil
  show ?case
  proof (cases ps)
    case (Cons p qs)
    with Nil.prems have "decode W buf = (Return (Inr (Some (packet_canon W p))), concat (map (enc_packet W) qs))"
      by (simp add: decode_enc)
    with Nil.prems(3) show ?thesis by simp
  qed (use Nil in simp)
next
  case (Cons c cs)
  have "prefix (buf @ c) (concat (map (enc_packet W) ps))"
    by (rule prefixI [of _ _ "concat cs"]) (use Cons.prems(2) in simp)
  from decode_all_prefix [OF Cons.prems(1) this Cons.prems(4)] obtain qs rs y where d:
    "ps = qs @ rs" "buf @ c = concat (map (enc_packet W) qs) @ y"
    "decode_all W n (buf @ c) = (map (packet_canon W) qs, y)" "decode W y = (Return (Inr None), y)" by blast
  have "(buf @ c) @ concat cs = concat (map (enc_packet W) (qs @ rs))"
    using Cons.prems(2) d(1) by simp
  then have "y @ concat cs = concat (map (enc_packet W) rs)" unfolding d(2) by simp
  then have "read_chunks W n y cs = (map (packet_canon W) rs, [])"
    using Cons.prems(1,4) d by (intro Cons.IH) auto
  with d show ?case by simp
qed

text \<open>A length of two bytes for the length 0.\<close>

lemma decode_non_minimal:
  "parse_complete W [0xC0, 0x80, 0x00] = Inr (Pingreq MPingreq) \<and>
    fst (decode W ([0xC0, 0x80, 0x00] @ r)) = Return (Inl (Parsing Backtrack)) \<and>
    snd (decode W ([0xC0, 0x80, 0x00] @ r)) = 0x00 # r"
proof (intro conjI)
  have v: "parse_variable_u32 W p (0x80 # 0 # r) = POk 0 r" for r p
    using parse_var_front [of "[0x80]" 0 p r] by (simp add: var_cont_def)
  have h: "MFixedHeader_parse W (0xC0 # i) = POk \<lparr>packet_type = PT_Pingreq\<rparr> i" for i
    by (simp add: MFixedHeader_parse_POk)
  show "parse_complete W [0xC0, 0x80, 0x00] = Inr (Pingreq MPingreq)"
    using v [of False "[]"]
    by (simp add: parse_complete_def MqttPacket_parse_def h p_bind_def p_map_def MPingreq_parse_def eof
        length_and_then_POk [of _ _ 0 "[]" "[]"])
  have "parse_complete W [0xC0, 0x80] = Inl Backtrack"
    by (cases rule: parse_var_cases [of "[0x80]" False])
      (auto simp: parse_complete_def MqttPacket_parse_def h p_bind_def length_and_then_def length_take
        p_map_def var_cont_def Cons_eq_append_conv)
  then have "decode W ([0xC0, 0x80, 0x00] @ r) = (Return (Inl (Parsing Backtrack)), 0x00 # r)"
    using v [of True r] by (simp add: decode_def variable_u32_binary_size_def)
  then show "fst (decode W ([0xC0, 0x80, 0x00] @ r)) = Return (Inl (Parsing Backtrack))"
    and "snd (decode W ([0xC0, 0x80, 0x00] @ r)) = 0x00 # r" by simp_all
qed

end

section \<open>Properties\<close>

definition example_stream :: "MqttPacket list" where
  "example_stream =
     [Pingreq MPingreq, Puback \<lparr>ack_packet_identifier = 10, ack_reason = Success,
       ack_properties = [Some (ReasonString [0x6F, 0x6B]), None]\<rparr>]"

text \<open>
  C2. Framing: packets that satisfy \<open>packet_ok\<close> (the condition of \<open>packet_roundtrip\<close>: lengths
  within bounds, identifiers, reason codes and properties that belong to the packet type, a
  topic name without \<open>#\<close> and \<open>*\<close>), encoded one after the other onto a stream that arrives in
  arbitrary chunks, cut anywhere, are all given back by \<open>decode\<close>, in order, and no byte is left
  over. Without the condition \<open>encode\<close> may accept a packet that \<open>decode\<close> does not give back.
\<close>

theorem stream_roundtrip:
  assumes "winnow_spec W" and "\<forall>p\<in>set ps. packet_ok W p"
    and "concat chunks = concat (map (enc_packet W) ps)" and "length ps < n"
  shows "read_chunks W n [] chunks = (map (packet_canon W) ps, []) \<and>
    (\<forall>p\<in>set ps. \<forall>dst. encode W p dst = (Return (Inr ()), dst @ enc_packet W p))"
  using winnow_spec.read_chunks_stream [OF assms(1,2), of "[]" chunks n]
    winnow_spec.decode_Nil [OF assms(1)] winnow_spec.encode_enc [OF assms(1)] assms(2-4)
  by simp

lemma stream_roundtrip_witness:
  "read_chunks winnow_ref 3 [] [[0xC0], [0, 0x40], [9, 0, 10, 0, 5, 0x1F, 0, 2], [0x6F], [0x6B]] =
      (map (packet_canon winnow_ref) example_stream, [])"
proof -
  have "\<forall>p\<in>set example_stream. packet_ok winnow_ref p" by code_simp
  moreover have "concat [[0xC0], [0, 0x40], [9, 0, 10, 0, 5, 0x1F, 0, 2], [0x6F], [0x6B]] =
    concat (map (enc_packet winnow_ref) example_stream)" by code_simp
  moreover have "length example_stream < 3" by code_simp
  ultimately show ?thesis using stream_roundtrip [OF winnow_ref_spec] by blast
qed

text \<open>
  C8. \<open>decode\<close> waits, leaving the buffer as it is, exactly as long as the length field has
  not arrived in full (a buffer of fewer than two bytes included) or the buffer is shorter than
  the frame, where the length of the frame is one byte for the header, the bytes of the length
  field in its shortest form and as many bytes as the field says; a field of four continuation bytes is
  never waited for. In particular it waits on every strict part of a packet in the form in which the
  writers write it.
\<close>

theorem decode_waits:
  assumes "winnow_spec W"
  shows "(decode W src = (Return (Inr None), src)) =
      (\<not> length_invalid src \<and> (\<not> length_announced src \<or> length src < frame_length src)) \<and>
    (\<forall>p. packet_ok W p \<longrightarrow> strict_prefix src (enc_packet W p) \<longrightarrow>
      decode W src = (Return (Inr None), src))"
  using winnow_spec.decode_waits_iff [OF assms] winnow_spec.decode_prefix [OF assms] by blast

lemma decode_waits_witness:
  "decode winnow_ref [0x40, 9, 0] = (Return (Inr None), [0x40, 9, 0]) \<and>
   decode winnow_ref [0xC0, 0] \<noteq> (Return (Inr None), [0xC0, 0])"
proof
  have "strict_prefix [0x40, 9, 0] (enc_packet winnow_ref (example_stream ! 1))" by code_simp
  moreover have "packet_ok winnow_ref (example_stream ! 1)" by code_simp
  ultimately show "decode winnow_ref [0x40, 9, 0] = (Return (Inr None), [0x40, 9, 0])"
    using decode_waits [OF winnow_ref_spec] by blast
  have "length_announced [0xC0, 0]" "frame_length [0xC0, 0] = 2" by code_simp+
  then show "decode winnow_ref [0xC0, 0] \<noteq> (Return (Inr None), [0xC0, 0])"
    using decode_waits [OF winnow_ref_spec, of "[0xC0, 0]"] by simp
qed

text \<open>
  C9. On any bytes \<open>decode\<close> returns without a panic. A length field of four continuation
  bytes is the error \<open>Protocol\<close>, which leaves the buffer; a complete frame is taken from the
  buffer, in all cases of the parser, and the result is the parser's judgement on just these bytes,
  so that a reader makes progress by at least two bytes; in all other cases \<open>decode\<close> waits. The
  frame is the header, the length field and the announced bytes if the field is in its
  shortest form, and too short by just the superfluous bytes of the field if it is not.
\<close>

theorem decode_progress:
  assumes "winnow_spec W"
  shows "decode W src =
      (if length_invalid src then (Return (Inl Protocol), src)
       else if length_announced src \<and> frame_length src \<le> length src then
         (Return (case parse_complete W (take (frame_length src) src) of
            Inl e \<Rightarrow> Inl (Parsing e) | Inr p \<Rightarrow> Inr (Some p)),
          drop (frame_length src) src)
       else (Return (Inr None), src)) \<and>
    2 \<le> frame_length src \<and>
    (let shortest = length (var_bytes (var_nat (length_field src)))
     in if length_announced src
        then shortest \<le> length (length_field src) \<and>
          frame_length src + (length (length_field src) - shortest) =
            1 + length (length_field src) + var_nat (length_field src)
        else True)"
  using winnow_spec.decode_equation [OF assms, of src] frame_length_ge [of src]
    length_field_minimal [of src]
  by (auto simp: Let_def frame_length_def not_le)

lemma decode_progress_witness:
  "decode winnow_ref [0xC0, 0, 1] = (Return (Inr (Some (Pingreq MPingreq))), [1])"
proof -
  have "parse_complete winnow_ref [0xC0, 0] = Inr (Pingreq MPingreq)" by code_simp
  moreover have "length_announced [0xC0, 0, 1]" "frame_length [0xC0, 0, 1] = 2" "\<not> length_invalid [0xC0, 0, 1]"
    by code_simp+
  ultimately show ?thesis using decode_progress [OF winnow_ref_spec, of "[0xC0, 0, 1]"] by simp
qed

text \<open>
  A length field written with a superfluous byte (two bytes for the length 0) is accepted
  by the parser of packets but mis-framed by \<open>decode\<close>, which recomputes the size of the field
  from its value: the frame is cut one byte short, an error is reported for a packet that parses,
  and the last byte is taken for the start of the next packet.
\<close>

lemma decode_long_length:
  assumes "winnow_spec W"
  shows "parse_complete W [0xC0, 0x80, 0x00] = Inr (Pingreq MPingreq) \<and>
    fst (decode W ([0xC0, 0x80, 0x00] @ r)) = Return (Inl (Parsing Backtrack)) \<and>
    snd (decode W ([0xC0, 0x80, 0x00] @ r)) = 0x00 # r"
  by (rule winnow_spec.decode_non_minimal [OF assms])

end
