(* ===== verification/Core_Client.thy ===== *)
theory Core_Client
  imports Client_Exchanges Frame_Codec
begin

text \<open>
  \<open>cloudmqtt/src/client.rs\<close>: the client around the state machine. A \<open>CoreClient\<close> holds
  either a state machine at rest or the sending end of a channel to a task that runs
  \<open>handle_connection\<close>. The task takes packets from the connection and from the channel, asks
  the state machine what to do and does it. Tasks and channels are named by numbers; what happens
  to them is a step relation, since tasks and callers interleave freely.
\<close>

section \<open>The task of a connection\<close>

datatype SendUsage = PublishUsage MqttPacket | SubscribeUsage MqttPacket

text \<open>
  What a task writes: bytes to the connection and packets to the router. Either may be closed by
  the other side, which makes the \<open>expect\<close> or \<open>unwrap\<close> after a send panic.
\<close>

record io =
  wire :: bytes
  to_router :: "MqttPacket list"
  wire_open :: bool
  router_open :: bool

definition framed_send :: "winnow \<Rightarrow> MqttPacket \<Rightarrow> io \<Rightarrow> io outcome" where
  "framed_send W packet out =
     (if wire_open out
      then (case encode W packet (wire out) of
              (Return (Inr _), dst) \<Rightarrow> Return (out\<lparr>wire := dst\<rparr>)
            | _ \<Rightarrow> Panic)
      else Panic)"

definition handle_action :: "winnow \<Rightarrow> io \<Rightarrow> ExpectedAction \<Rightarrow> io outcome" where
  "handle_action W out action =
     (case action of
        SendPacket mqtt_packet \<Rightarrow> framed_send W mqtt_packet out
      | ReceivePacket (NoFurtherAction received_packet) \<Rightarrow>
          (case MqttPacket_new W received_packet of
             Panic \<Rightarrow> Panic
           | Return packet \<Rightarrow>
               if router_open out then Return (out\<lparr>to_router := to_router out @ [packet]\<rparr>) else Panic)
      | _ \<Rightarrow> Panic)"

text \<open>\<open>if let Some(action) = action { handle_action(..) }\<close>\<close>

definition handle_option :: "winnow \<Rightarrow> io \<Rightarrow> ExpectedAction option \<Rightarrow> io outcome" where
  "handle_option W out action = (case action of None \<Rightarrow> Return out | Some a \<Rightarrow> handle_action W out a)"

text \<open>
  \<open>while let Some(action) = publisher.run(now) { handle_action(..) }\<close>; \<open>clock k\<close> is the time
  of the k-th call. A publisher moves from \<open>Store\<close> to \<open>Send\<close> to \<open>Done\<close>, so the loop ends.
\<close>

fun publisher_rank :: "PublishingState \<Rightarrow> nat" where
  "publisher_rank Store = 2"
| "publisher_rank Send = 1"
| "publisher_rank Done = 0"

lemma publisher_run_rank:
  "publisher_run S fx m b t = Return (Some a, m', b') \<Longrightarrow>
     publisher_rank (publisher_state b') < publisher_rank (publisher_state b)"
  by (auto simp: publisher_run_def split: PublishingState.splits option.splits if_splits prod.splits outcome.splits)

function publisher_loop ::
    "winnow \<Rightarrow> 's pis \<Rightarrow> (rstr \<Rightarrow> u64) \<Rightarrow> (nat \<Rightarrow> MqttInstant) \<Rightarrow> 's fsm \<Rightarrow> MqttClientPublisher \<Rightarrow> io \<Rightarrow>
       ('s fsm \<times> io) outcome" where
  "publisher_loop W S fx clock m publisher out =
     (case publisher_run S fx m publisher (clock 0) of
        Panic \<Rightarrow> Panic
      | Return (None, m', _) \<Rightarrow> Return (m', out)
      | Return (Some action, m', publisher') \<Rightarrow>
          (case handle_action W out action of
             Panic \<Rightarrow> Panic
           | Return out' \<Rightarrow> publisher_loop W S fx (clock \<circ> Suc) m' publisher' out'))"
  by pat_completeness auto
termination
  by (relation "measure (\<lambda>(W, S, fx, clock, m, b, out). publisher_rank (publisher_state b))")
    (auto dest: publisher_run_rank)

declare publisher_loop.simps [simp del]

text \<open>\<open>derive_more::TryInto\<close> on \<open>MqttPacket\<close>, as used for the two packets sent.\<close>

fun try_into_publish :: "MqttPacket \<Rightarrow> MPublish option" where
  "try_into_publish (Publish p) = Some p"
| "try_into_publish _ = None"

fun try_into_subscribe :: "MqttPacket \<Rightarrow> MSubscribe option" where
  "try_into_subscribe (Subscribe p) = Some p"
| "try_into_subscribe _ = None"

text \<open>\<open>"cloudmqtt-0"\<close>\<close>

definition core_client_id :: rstr where
  "core_client_id = [0x63, 0x6C, 0x6F, 0x75, 0x64, 0x6D, 0x71, 0x74, 0x74, 0x2D, 0x30]"

definition core_connect_packet :: MConnect where
  "core_connect_packet =
     \<lparr>con_client_identifier = core_client_id, con_username = None, con_password = None,
      con_clean_start = True, con_will = None, con_properties = props_new ConnectProperties,
      con_keep_alive = 0\<rparr>"

text \<open>\<open>handle_connection\<close> up to its loop, and the two arms of the loop.\<close>

definition connection_start ::
    "winnow \<Rightarrow> (rstr \<Rightarrow> u64) \<Rightarrow> MqttInstant \<Rightarrow> 's fsm \<Rightarrow> io \<Rightarrow> ('s fsm \<times> io) outcome" where
  "connection_start W fx now m out =
     (case handle_connect fx m now core_connect_packet of
        Return (SendPacket packet, m') \<Rightarrow>
          (case framed_send W packet out of Panic \<Rightarrow> Panic | Return out' \<Rightarrow> Return (m', out'))
      | _ \<Rightarrow> Panic)"

definition connection_incoming ::
    "winnow \<Rightarrow> 's pis \<Rightarrow> (rstr \<Rightarrow> u64) \<Rightarrow> MqttInstant \<Rightarrow> 's fsm \<Rightarrow> io \<Rightarrow> MqttPacket \<Rightarrow> ('s fsm \<times> io) outcome" where
  "connection_incoming W S fx now m out packet =
     (case consume_run S fx m packet now of
        Panic \<Rightarrow> Panic
      | Return (action, m') \<Rightarrow>
          (case handle_option W out action of Panic \<Rightarrow> Panic | Return out' \<Rightarrow> Return (m', out')))"

definition connection_to_send ::
    "winnow \<Rightarrow> 's pis \<Rightarrow> (rstr \<Rightarrow> u64) \<Rightarrow> (nat \<Rightarrow> MqttInstant) \<Rightarrow> MqttInstant \<Rightarrow> 's fsm \<Rightarrow> io \<Rightarrow> SendUsage \<Rightarrow>
       ('s fsm \<times> io) outcome" where
  "connection_to_send W S fx clock now m out send_usage =
     (case send_usage of
        PublishUsage packet \<Rightarrow>
          (case try_into_publish packet of
             None \<Rightarrow> Panic
           | Some p \<Rightarrow>
               (case publisher_loop W S fx clock m (publish p) out of
                  Panic \<Rightarrow> Panic
                | Return (m', out') \<Rightarrow>
                    (case fsm_run S fx m' now of
                       Panic \<Rightarrow> Panic
                     | Return (action, m'') \<Rightarrow>
                         (case handle_option W out' action of
                            Panic \<Rightarrow> Panic | Return out'' \<Rightarrow> Return (m'', out'')))))
      | SubscribeUsage packet \<Rightarrow>
          (case try_into_subscribe packet of
             None \<Rightarrow> Panic
           | Some p \<Rightarrow>
               (case subscribe S fx m now p of
                  Panic \<Rightarrow> Panic
                | Return (action, m') \<Rightarrow>
                    (case handle_option W out (Some action) of
                       Panic \<Rightarrow> Panic | Return out' \<Rightarrow> Return (m', out')))))"

section \<open>The client\<close>

datatype core_error = NotConnected | AlreadyConnected | TokioChannel

datatype 's CoreState = Unconnected "'s fsm" | ConnectedTo nat

datatype task_stage = Starting | Looping | Closing

record 's conn_task =
  task_fsm :: "'s fsm"
  task_io :: io
  task_stage :: task_stage

text \<open>
  \<open>core_tasks\<close> are the tasks that run, under the number of the channel they receive from;
  \<open>core_queue\<close> is what a channel, of capacity 1, holds. The router at the other end of
  \<open>incoming_sender\<close> is started once for a client; \<open>core_router\<close> is false when its task has ended,
  and then every task of the client, also a later one, finds the channel closed.
\<close>

record 's core =
  core_state :: "'s CoreState"
  core_tasks :: "nat \<rightharpoonup> 's conn_task"
  core_queue :: "nat \<Rightarrow> SendUsage list"
  core_next :: nat
  core_router :: bool

definition core_new :: "'s \<Rightarrow> 's core" where
  "core_new pis =
     \<lparr>core_state = Unconnected (fsm_new pis), core_tasks = Map.empty, core_queue = (\<lambda>_. []), core_next = 0,
      core_router = True\<rparr>"

definition core_new_and_connect :: "'s \<Rightarrow> io \<Rightarrow> 's core" where
  "core_new_and_connect pis out =
     \<lparr>core_state = ConnectedTo 0,
      core_tasks = [0 \<mapsto> \<lparr>task_fsm = fsm_new pis, task_io = out, task_stage = Starting\<rparr>],
      core_queue = (\<lambda>_. []), core_next = 1, core_router = router_open out\<rparr>"

text \<open>
  \<open>std::mem::replace\<close> puts the new sender in place before the old state is looked at. On the
  error path the receiver of the new channel is dropped. The task gets a clone of the client's sender to
  the router.
\<close>

definition core_connect :: "'s core \<Rightarrow> io \<Rightarrow> (core_error + unit) \<times> 's core" where
  "core_connect self out =
     (let channel = core_next self;
          self' = self\<lparr>core_state := ConnectedTo channel, core_next := Suc channel\<rparr>
      in case core_state self of
           Unconnected m \<Rightarrow>
             (Inr (), self'\<lparr>core_tasks := (core_tasks self)
                (channel \<mapsto> \<lparr>task_fsm = m, task_io = out\<lparr>router_open := core_router self\<rparr>, task_stage = Starting\<rparr>)\<rparr>)
         | ConnectedTo _ \<Rightarrow> (Inl AlreadyConnected, self'))"

text \<open>The router's task ends, and with it the receiver of all the clones of its sender.\<close>

definition router_closed :: "'s core \<Rightarrow> 's core" where
  "router_closed self =
     self\<lparr>core_router := False, core_tasks :=
       (\<lambda>k. map_option (\<lambda>t. t\<lparr>task_io := (task_io t)\<lparr>router_open := False\<rparr>\<rparr>) (core_tasks self k))\<rparr>"

text \<open>A receiver lives as long as its task is in \<open>handle_connection\<close>.\<close>

definition receiver_alive :: "'s core \<Rightarrow> nat \<Rightarrow> bool" where
  "receiver_alive self channel =
     (case core_tasks self channel of None \<Rightarrow> False | Some t \<Rightarrow> task_stage t \<noteq> Closing)"

text \<open>
  \<open>CoreClient::publish\<close> and \<open>subscribe\<close>, which differ in the tag of the packet. \<open>None\<close>:
  the call waits for room in the channel.
\<close>

definition core_send :: "'s core \<Rightarrow> SendUsage \<Rightarrow> ((core_error + unit) \<times> 's core) option" where
  "core_send self usage =
     (case core_state self of
        Unconnected _ \<Rightarrow> Some (Inl NotConnected, self)
      | ConnectedTo sender \<Rightarrow>
          if \<not> receiver_alive self sender then Some (Inl TokioChannel, self)
          else if core_queue self sender = []
          then Some (Inr (), self\<lparr>core_queue := (core_queue self)(sender := [usage])\<rparr>)
          else None)"

abbreviation core_publish :: "'s core \<Rightarrow> MqttPacket \<Rightarrow> ((core_error + unit) \<times> 's core) option" where
  "core_publish self packet \<equiv> core_send self (PublishUsage packet)"

abbreviation core_subscribe :: "'s core \<Rightarrow> MqttPacket \<Rightarrow> ((core_error + unit) \<times> 's core) option" where
  "core_subscribe self packet \<equiv> core_send self (SubscribeUsage packet)"

lemmas core_defs [defs] =
  framed_send_def handle_action_def handle_option_def core_client_id_def core_connect_packet_def
  connection_start_def connection_incoming_def connection_to_send_def core_new_def
  core_new_and_connect_def core_connect_def receiver_alive_def core_send_def

lemma router_closed_simps [simp]:
  "core_state (router_closed c) = core_state c" "core_queue (router_closed c) = core_queue c"
  "core_next (router_closed c) = core_next c"
  by (simp_all add: router_closed_def)

section \<open>Steps\<close>

text \<open>What a task does with its state machine and connection.\<close>

inductive task_run :: "winnow \<Rightarrow> 's pis \<Rightarrow> (rstr \<Rightarrow> u64) \<Rightarrow> 's conn_task \<Rightarrow> SendUsage list \<Rightarrow>
    ('s fsm \<times> io) outcome \<Rightarrow> SendUsage list \<Rightarrow> bool" for W S fx where
  start: "task_stage t = Starting \<Longrightarrow>
    task_run W S fx t us (connection_start W fx now (task_fsm t) (task_io t)) us"
| incoming: "task_stage t = Looping \<Longrightarrow> ids_nonzero p \<Longrightarrow>
    task_run W S fx t us (connection_incoming W S fx now (task_fsm t) (task_io t) p) us"
| to_send: "task_stage t = Looping \<Longrightarrow> is_connected (connection_state (task_fsm t)) \<Longrightarrow>
    task_run W S fx t (u # us) (connection_to_send W S fx clock now (task_fsm t) (task_io t) u) us"

inductive core_step :: "winnow \<Rightarrow> 's pis \<Rightarrow> (rstr \<Rightarrow> u64) \<Rightarrow> 's core \<Rightarrow> 's core \<Rightarrow> bool" for W S fx where
  connect: "core_connect c out = (r, c') \<Longrightarrow> core_step W S fx c c'"
| send: "core_send c u = Some (r, c') \<Longrightarrow> core_step W S fx c c'"
| run: "core_tasks c k = Some t \<Longrightarrow> task_run W S fx t (core_queue c k) (Return (m, out)) us \<Longrightarrow>
    core_step W S fx c (c\<lparr>core_tasks := (core_tasks c)(k \<mapsto> \<lparr>task_fsm = m, task_io = out, task_stage = Looping\<rparr>),
      core_queue := (core_queue c)(k := us)\<rparr>)"
| crash: "core_tasks c k = Some t \<Longrightarrow> task_run W S fx t (core_queue c k) Panic us \<Longrightarrow>
    core_step W S fx c (c\<lparr>core_tasks := (core_tasks c)(k := None)\<rparr>)"
| close: "core_tasks c k = Some t \<Longrightarrow> task_stage t = Looping \<Longrightarrow>
    core_step W S fx c (c\<lparr>core_tasks := (core_tasks c)(k \<mapsto> t\<lparr>task_stage := Closing\<rparr>)\<rparr>)"
| finish: "core_tasks c k = Some t \<Longrightarrow> task_stage t = Closing \<Longrightarrow>
    core_step W S fx c (c\<lparr>core_tasks := (core_tasks c)(k := None),
      core_state := Unconnected (connection_lost S (task_fsm t) now)\<rparr>)"
| hangup: "core_tasks c k = Some t \<Longrightarrow>
    core_step W S fx c (c\<lparr>core_tasks := (core_tasks c)(k \<mapsto> t\<lparr>task_io := (task_io t)\<lparr>wire_open := False\<rparr>\<rparr>)\<rparr>)"
| router_ends: "core_step W S fx c (router_closed c)"

inductive core_reachable :: "winnow \<Rightarrow> 's pis \<Rightarrow> (rstr \<Rightarrow> u64) \<Rightarrow> 's \<Rightarrow> 's core \<Rightarrow> bool" for W S fx pis where
  new: "core_reachable W S fx pis (core_new pis)"
| new_and_connect: "core_reachable W S fx pis (core_new_and_connect pis out)"
| step: "core_reachable W S fx pis c \<Longrightarrow> core_step W S fx c c' \<Longrightarrow> core_reachable W S fx pis c'"

section \<open>The client identifier\<close>

text \<open>
  A \<open>CoreClient\<close> always connects with the same identifier, so the hash remembered is that of
  this identifier: an identifier the server assigns comes with an action that ends the task.
\<close>

definition hash_ok :: "(rstr \<Rightarrow> u64) \<Rightarrow> 's fsm \<Rightarrow> bool" where
  "hash_ok fx m \<longleftrightarrow>
     client_id_hash (data m) = None \<or> client_id_hash (data m) = Some (fx core_client_id)"

lemma core_client_id_not_Nil [simp]: "core_client_id \<noteq> []"
  by (simp add: core_client_id_def)

lemma connected_hash:
  "handle_connected S m con t i = Return (a, m') \<Longrightarrow> data m' = data m"
  by (auto simp: handle_connected_def connected_consume_def
      split: ExternalInfos.splits MqttPacket.splits QualityOfService.splits option.splits if_splits
        outcome.splits PingState.splits)

lemma consume_run_hash:
  assumes "consume_run S fx m p t = Return (a, m')"
  shows "client_id_hash (data m') = client_id_hash (data m) \<or> (\<exists>c. a = Some (SaveClientIdentifier c))"
proof (cases "connection_state m")
  case Disconnected
  with assms show ?thesis by (auto simp: consume_run_cases)
next
  case (ConnectingWithoutAuth sent)
  with assms have "is_connack_success p"
    using connecting_Panic [of fx m sent p] by (auto simp: consume_run_cases)
  then obtain c where c: "p = Connack c" "connack_reason_code c = Success"
    by (cases p) auto
  with assms consume_connack [OF ConnectingWithoutAuth c(2), of S fx t] show ?thesis
    by (cases "assigned_client_id c") auto
next
  case (Connected con)
  with assms connected_hash [of S m con t "ConsumePacket p"] show ?thesis
    by (auto simp: consume_run_cases handle_connected_def split: outcome.splits)
qed

lemma inner_run_keeps_hash:
  assumes "inner_run S fx m t i = Return (a, m')" and "\<And>p. i \<noteq> ConsumePacket p"
  shows "client_id_hash (data m') = client_id_hash (data m)"
  using assms
  by (cases i) (auto simp: inner_run_def Let_def handle_connecting_without_auth_def
      split: ConnectionState.splits outcome.splits dest: connected_hash)

lemma publisher_run_hash:
  "publisher_run S fx m b t = Return (a, m', b') \<Longrightarrow> client_id_hash (data m') = client_id_hash (data m)"
  by (auto simp: publisher_run_def split: PublishingState.splits option.splits if_splits prod.splits
      outcome.splits dest: inner_run_keeps_hash)

lemma publisher_steps_hash:
  "publisher_steps S fx m b m' b' \<Longrightarrow> client_id_hash (data m') = client_id_hash (data m)"
  by (induction rule: publisher_steps.induct) (auto dest: publisher_run_hash)

lemma publisher_loop_steps:
  "publisher_loop W S fx clock m b out = Return (m', out') \<Longrightarrow> \<exists>b'. publisher_steps S fx m b m' b'"
proof (induction W S fx clock m b out rule: publisher_loop.induct)
  case (1 W S fx clock m b out)
  from "1.prems" obtain a m1 b1 where r: "publisher_run S fx m b (clock 0) = Return (a, m1, b1)"
    by (subst (asm) publisher_loop.simps) (auto split: outcome.splits)
  show ?case
  proof (cases a)
    case None
    with "1.prems" r have "m' = m1"
      by (subst (asm) publisher_loop.simps) simp
    with r show ?thesis by (blast intro: publisher_steps.intros)
  next
    case (Some action)
    with "1.prems" r obtain out1 where h: "handle_action W out action = Return out1"
      and l: "publisher_loop W S fx (clock \<circ> Suc) m1 b1 out1 = Return (m', out')"
      by (subst (asm) publisher_loop.simps) (auto split: outcome.splits)
    from "1.IH" [OF r] Some h l obtain b' where "publisher_steps S fx m1 b1 m' b'"
      by blast
    with r show ?thesis by (blast intro: publisher_steps.intros)
  qed
qed

lemma handle_option_no_save: "handle_option W out (Some (SaveClientIdentifier c)) = Panic"
  by (simp add: handle_option_def handle_action_def)

text \<open>The packets a connected task handles; it ends on all others.\<close>

fun core_accepts :: "ConnectedData \<Rightarrow> PacketIdentifier set \<Rightarrow> MqttPacket \<Rightarrow> bool" where
  "core_accepts con ids (Publish p) \<longleftrightarrow> pub_quality_of_service p = AtMostOnce"
| "core_accepts con ids (Suback a) \<longleftrightarrow> suback_packet_identifier a \<in> ids"
| "core_accepts con ids (Pingresp p) \<longleftrightarrow> ping_state con \<noteq> WaitingForElapsed"
| "core_accepts con ids p = False"

section \<open>Invariant\<close>

locale core_contract =
  winnow_spec W + packet_id_store S inv used publishing
  for W and S :: "'s pis" and inv used publishing
begin

definition rest_ok :: "(rstr \<Rightarrow> u64) \<Rightarrow> 's fsm \<Rightarrow> bool" where
  "rest_ok fx m \<longleftrightarrow> fsm_inv m \<and> hash_ok fx m \<and> connection_state m = Disconnected"

definition task_ok :: "(rstr \<Rightarrow> u64) \<Rightarrow> 's conn_task \<Rightarrow> bool" where
  "task_ok fx t \<longleftrightarrow>
     fsm_inv (task_fsm t) \<and> hash_ok fx (task_fsm t) \<and>
     (task_stage t = Starting \<longrightarrow> connection_state (task_fsm t) = Disconnected)"

definition core_inv :: "(rstr \<Rightarrow> u64) \<Rightarrow> 's core \<Rightarrow> bool" where
  "core_inv fx c \<longleftrightarrow>
     (\<forall>k t. core_tasks c k = Some t \<longrightarrow> task_ok fx t \<and> k < core_next c) \<and>
     (\<forall>k l t u. core_tasks c k = Some t \<longrightarrow> core_tasks c l = Some u \<longrightarrow> k = l) \<and>
     (case core_state c of
        Unconnected m \<Rightarrow> rest_ok fx m \<and> core_tasks c = Map.empty
      | ConnectedTo k \<Rightarrow> k < core_next c)"

lemma connection_start_ok:
  assumes "connection_start W fx now m out = Return (m', out')" and "fsm_inv m" and "hash_ok fx m"
  shows "fsm_inv m' \<and> hash_ok fx m'"
proof -
  obtain a where a: "handle_connect fx m now core_connect_packet = Return (a, m')"
    using assms(1) by (auto simp: connection_start_def split: outcome.splits ExpectedAction.splits)
  moreover have "hash_ok fx m'"
    using a assms(3) by (auto simp: handle_connect_def Let_def hash_ok_def core_connect_packet_def
        split: if_splits option.splits)
  ultimately show ?thesis using handle_connect_inv assms(2) by blast
qed

lemma connection_incoming_ok:
  assumes "connection_incoming W S fx now m out p = Return (m', out')" and "fsm_inv m"
    and "hash_ok fx m" and "ids_nonzero p"
  shows "fsm_inv m' \<and> hash_ok fx m'"
proof -
  obtain a where a: "consume_run S fx m p now = Return (a, m')" and h: "handle_option W out a \<noteq> Panic"
    using assms(1) by (auto simp: connection_incoming_def split: outcome.splits)
  then have "client_id_hash (data m') = client_id_hash (data m)"
    using consume_run_hash [OF a] by (auto simp: handle_option_no_save)
  moreover have "fsm_inv m'"
    using a inner_run_inv [of fx m now "ConsumePacket p" a m'] assms(2,4) by (simp add: consume_run_def)
  ultimately show ?thesis using assms(3) by (simp add: hash_ok_def)
qed

lemma connection_to_send_ok:
  assumes "connection_to_send W S fx clock now m out u = Return (m', out')" and "fsm_inv m"
    and "hash_ok fx m"
  shows "fsm_inv m' \<and> hash_ok fx m'"
proof (cases u)
  case (PublishUsage packet)
  then obtain p m1 out1 a where p: "try_into_publish packet = Some p"
    and l: "publisher_loop W S fx clock m (publish p) out = Return (m1, out1)"
    and r: "fsm_run S fx m1 now = Return (a, m')"
    using assms(1) by (auto simp: connection_to_send_def split: option.splits outcome.splits)
  obtain b' where st: "publisher_steps S fx m (publish p) m1 b'"
    using publisher_loop_steps [OF l] by blast
  have "fsm_inv m'"
    using publisher_steps_inv [OF st assms(2)] r inner_run_inv [of fx m1 now NoInfos a m']
    by (simp add: fsm_run_def)
  moreover have "client_id_hash (data m') = client_id_hash (data m)"
    using publisher_steps_hash [OF st] r inner_run_keeps_hash [of S fx m1 now NoInfos a m']
    by (simp add: fsm_run_def)
  ultimately show ?thesis using assms(3) by (simp add: hash_ok_def)
next
  case (SubscribeUsage packet)
  then obtain p a where r: "subscribe S fx m now p = Return (a, m')"
    using assms(1) by (auto simp: connection_to_send_def split: option.splits outcome.splits)
  then have "client_id_hash (data m') = client_id_hash (data m)"
    by (auto simp: subscribe_def split: prod.splits option.splits outcome.splits
        dest: inner_run_keeps_hash)
  with subscribe_inv [OF r] assms(2,3) show ?thesis by (simp add: hash_ok_def)
qed

lemma task_run_ok:
  assumes "task_run W S fx t us (Return (m, out)) us'" and "task_ok fx t"
  shows "fsm_inv m \<and> hash_ok fx m"
  using assms(1)
proof cases
  case (start now)
  with connection_start_ok [of fx now "task_fsm t" "task_io t" m out] assms(2) show ?thesis
    by (simp add: task_ok_def)
next
  case (incoming p now)
  with connection_incoming_ok [of fx now "task_fsm t" "task_io t" p m out] assms(2) show ?thesis
    by (simp add: task_ok_def)
next
  case (to_send u clock now)
  with connection_to_send_ok [of fx clock now "task_fsm t" "task_io t" u m out] assms(2) show ?thesis
    by (simp add: task_ok_def)
qed

lemma connection_lost_ok:
  "fsm_inv m \<Longrightarrow> hash_ok fx m \<Longrightarrow> rest_ok fx (connection_lost S m now)"
  using reset_connection_inv [of "set_last_run now m"]
  by (simp add: rest_ok_def connection_lost_def hash_ok_def fsm_inv_def)

lemma core_connect_inv:
  assumes "core_connect c out = (r, c')" and "core_inv fx c"
  shows "core_inv fx c'"
proof (cases "core_state c")
  case (Unconnected m)
  with assms show ?thesis
    by (auto simp: core_connect_def Let_def core_inv_def task_ok_def rest_ok_def split: if_splits)
next
  case (ConnectedTo k)
  with assms show ?thesis
    by (fastforce simp: core_connect_def Let_def core_inv_def less_Suc_eq)
qed

lemma core_send_inv:
  assumes "core_send c u = Some (r, c')" and "core_inv fx c"
  shows "core_inv fx c'"
  using assms by (auto simp: core_send_def core_inv_def split: CoreState.splits if_splits)

text \<open>Replacing the state of a task, or ending it.\<close>

lemma core_inv_task:
  assumes "core_inv fx c" and "core_tasks c k = Some t" and "task_ok fx t'"
    and "core_tasks c' = (core_tasks c)(k \<mapsto> t')" and "core_state c' = core_state c"
    and "core_next c' = core_next c"
  shows "core_inv fx c'"
  using assms by (auto simp: core_inv_def split: CoreState.splits if_splits)

lemma core_inv_closed:
  assumes "core_inv fx c"
  shows "core_inv fx (router_closed c)"
proof -
  have "task_ok fx (t\<lparr>task_io := (task_io t)\<lparr>router_open := False\<rparr>\<rparr>)" if "task_ok fx t" for t
    using that by (simp add: task_ok_def)
  then show ?thesis
    using assms by (fastforce simp: core_inv_def router_closed_def split: CoreState.splits)
qed

lemma core_inv_end:
  assumes "core_inv fx c" and "core_tasks c' = (core_tasks c)(k := None)"
    and "core_state c' = core_state c" and "core_next c' = core_next c"
  shows "core_inv fx c'"
  using assms by (auto simp: core_inv_def split: CoreState.splits if_splits)

lemma core_inv_finish:
  assumes "core_inv fx c" and "core_tasks c k = Some t" and "rest_ok fx m"
  shows "core_inv fx (c\<lparr>core_tasks := (core_tasks c)(k := None), core_state := Unconnected m\<rparr>)"
proof -
  have "core_tasks c l = None" if "l \<noteq> k" for l
    using assms(1,2) that by (cases "core_tasks c l") (auto simp: core_inv_def)
  then have "(core_tasks c)(k := None) = Map.empty" by auto
  with assms show ?thesis by (simp add: core_inv_def)
qed

lemma core_step_inv:
  assumes "core_step W S fx c c'" and "core_inv fx c"
  shows "core_inv fx c'"
  using assms(1)
proof cases
  case (connect out r)
  with assms(2) show ?thesis by (blast intro: core_connect_inv)
next
  case (send u r)
  with assms(2) show ?thesis by (blast intro: core_send_inv)
next
  case (run k t m out us)
  then have "task_ok fx t" using assms(2) by (auto simp: core_inv_def)
  with run task_run_ok have "task_ok fx \<lparr>task_fsm = m, task_io = out, task_stage = Looping\<rparr>"
    by (auto simp: task_ok_def)
  from core_inv_task [OF assms(2) run(2) this] run(1) show ?thesis by simp
next
  case (crash k t us)
  with core_inv_end [OF assms(2), of c' k] show ?thesis by simp
next
  case (close k t)
  then have "task_ok fx (t\<lparr>task_stage := Closing\<rparr>)"
    using assms(2) by (auto simp: core_inv_def task_ok_def)
  from core_inv_task [OF assms(2) close(2) this] close(1) show ?thesis by simp
next
  case (finish k t now)
  then have "rest_ok fx (connection_lost S (task_fsm t) now)"
    using assms(2) connection_lost_ok by (auto simp: core_inv_def task_ok_def)
  from core_inv_finish [OF assms(2) finish(2) this] finish(1) show ?thesis by simp
next
  case (hangup k t)
  then have "task_ok fx (t\<lparr>task_io := (task_io t)\<lparr>wire_open := False\<rparr>\<rparr>)"
    using assms(2) by (auto simp: core_inv_def task_ok_def)
  from core_inv_task [OF assms(2) hangup(2) this] hangup(1) show ?thesis by simp
next
  case router_ends
  with assms(2) show ?thesis by (simp add: core_inv_closed)
qed

lemma core_reachable_inv:
  assumes "core_reachable W S fx pis c" and "inv pis" and "used pis = {}"
  shows "core_inv fx c"
  using assms(1)
proof (induction rule: core_reachable.induct)
  case new
  have "rest_ok fx (fsm_new pis)"
    using reachable_inv [OF reachable.init assms(2,3)]
    by (simp add: rest_ok_def hash_ok_def fsm_new_def)
  then show ?case by (simp add: core_inv_def core_new_def)
next
  case (new_and_connect out)
  have "task_ok fx \<lparr>task_fsm = fsm_new pis, task_io = out, task_stage = Starting\<rparr>"
    using reachable_inv [OF reachable.init assms(2,3)]
    by (simp add: task_ok_def hash_ok_def fsm_new_def)
  then show ?case by (simp add: core_inv_def core_new_and_connect_def)
next
  case (step c c')
  then show ?case by (blast intro: core_step_inv)
qed

section \<open>What the task does\<close>

lemma connect_packet_ok: "packet_ok W (Connect core_connect_packet)"
proof -
  have "str_ok core_client_id" by code_simp
  then show ?thesis
    by (simp add: packet_ok_def connect_ok_def core_connect_packet_def enc_connect_def fits_def
        core_client_id_def protocol_name_def opt_ok_def enc_opt_def connection_decls)
qed

lemma framed_send_ok:
  "packet_ok W p \<Longrightarrow> wire_open out \<Longrightarrow>
     framed_send W p out = Return (out\<lparr>wire := wire out @ enc_packet W p\<rparr>)"
  by (simp add: framed_send_def encode_enc)

lemma connection_start_sends:
  assumes "rest_ok fx m" and "wire_open out"
  shows "\<exists>m'. connection_start W fx now m out =
      Return (m', out\<lparr>wire := wire out @ enc_packet W (Connect core_connect_packet)\<rparr>) \<and>
    connection_state m' = ConnectingWithoutAuth now \<and> keep_alive (data m') = 0"
proof -
  have h: "handle_connect fx m now core_connect_packet =
      Return (SendPacket (Connect core_connect_packet),
        m\<lparr>data := (data m)\<lparr>keep_alive := 0, client_id_hash := Some (fx core_client_id)\<rparr>,
          connection_state := ConnectingWithoutAuth now\<rparr>)"
    using assms(1) handle_connect_Return [of m core_connect_packet fx now]
    by (simp add: rest_ok_def hash_ok_def core_connect_packet_def)
  show ?thesis
    using assms(2) by (simp add: connection_start_def h framed_send_ok [OF connect_packet_ok])
qed

lemma packet_ok_ids: "packet_ok W p \<Longrightarrow> ids_nonzero p"
  by (cases p) (auto simp: packet_ok_def ack_ok_def suback_ok_def)

lemma connection_incoming_exact:
  assumes "inv (client_pis m)" and "connection_state m = Connected con" and "packet_ok W p"
    and "router_open out"
  shows "case connection_incoming W S fx now m out p of
      Panic \<Rightarrow> \<not> core_accepts con (used (client_pis m)) p
    | Return (m', out') \<Rightarrow> core_accepts con (used (client_pis m)) p \<and>
        is_connected (connection_state m') \<and>
        out' = out\<lparr>to_router := to_router out @ (case p of Publish _ \<Rightarrow> [packet_canon W p] | _ \<Rightarrow> [])\<rparr>"
proof (cases p)
  case (Publish q)
  with assms(2-4) show ?thesis
    by (simp add: connection_incoming_def consume_run_cases connected_consume_def handle_option_def
        handle_action_def MqttPacket_new_ok split: QualityOfService.split option.split)
next
  case (Suback a)
  then have i: "suback_packet_identifier a \<noteq> 0"
    using packet_ok_ids [OF assms(3)] by simp
  from release_contained [OF assms(1) i] Suback assms(2) show ?thesis
    by (cases "release S (client_pis m) (suback_packet_identifier a)")
      (auto simp: connection_incoming_def consume_run_cases connected_consume_def handle_option_def)
next
  case (Pingresp a)
  with assms(2) show ?thesis
    by (simp add: connection_incoming_def consume_run_cases connected_consume_def handle_option_def
        split: PingState.split)
next
  case (Puback a)
  with assms(2) show ?thesis
    by (auto simp: connection_incoming_def consume_run_cases connected_consume_def handle_option_def
        handle_action_def split: outcome.splits if_splits)
qed (use assms(2) in \<open>simp_all add: connection_incoming_def consume_run_cases connected_consume_def
      handle_option_def handle_action_def\<close>)

lemma connecting_incoming_exact:
  assumes "connection_state m = ConnectingWithoutAuth sent"
  shows "case connection_incoming W S fx now m out p of
      Panic \<Rightarrow> \<not> (is_connack_success p \<and> (case p of Connack a \<Rightarrow> assigned_client_id a = None | _ \<Rightarrow> False))
    | Return (m', out') \<Rightarrow> is_connack_success p \<and> is_connected (connection_state m') \<and> out' = out \<and>
        (case p of Connack a \<Rightarrow> assigned_client_id a = None | _ \<Rightarrow> False)"
proof (cases "is_connack_success p")
  case True
  then obtain a where a: "p = Connack a" "connack_reason_code a = Success"
    by (cases p) auto
  from consume_connack [OF assms a(2), of S fx now] a show ?thesis
    by (cases "assigned_client_id a") (simp_all add: connection_incoming_def handle_option_def handle_action_def)
next
  case False
  with assms connecting_Panic [of fx m sent p] show ?thesis
    by (simp add: connection_incoming_def consume_run_cases)
qed

text \<open>Sending a publish of quality of service 0; a ping may follow it.\<close>

lemma publisher_loop_qos0:
  assumes "connection_state m = Connected con" and "pub_quality_of_service p = AtMostOnce"
    and "packet_ok W (Publish p)" and "wire_open out"
  shows "publisher_loop W S fx clock m (publish p) out =
    Return (set_last_run (clock 0) (m\<lparr>connection_state := Connected (con\<lparr>last_time_sent := clock 0\<rparr>)\<rparr>),
      out\<lparr>wire := wire out @ enc_packet W (Publish p)\<rparr>)"
proof -
  have "publisher_run S fx m (publish p) (clock 0) =
      Return (Some (SendPacket (Publish p)),
        set_last_run (clock 0) (m\<lparr>connection_state := Connected (con\<lparr>last_time_sent := clock 0\<rparr>)\<rparr>),
        \<lparr>publisher_packet = None, publisher_state = Done\<rparr>)"
    using assms(1,2) by (simp add: publish_def publisher_run_def inner_run_publish)
  then show ?thesis
    using framed_send_ok [OF assms(3,4)]
    by (subst publisher_loop.simps) (simp add: handle_action_def publisher_loop.simps [of W S fx "clock \<circ> Suc"] publisher_run_def)
qed

lemma pingreq_ok: "packet_ok W (Pingreq MPingreq)"
  by (simp add: packet_ok_def fits_def)

lemma connection_publish:
  assumes "connection_state m = Connected con" and "pub_quality_of_service p = AtMostOnce"
    and "packet_ok W (Publish p)" and "wire_open out"
  shows "\<exists>m' pings. connection_to_send W S fx clock now m out (PublishUsage (Publish p)) =
      Return (m', out\<lparr>wire := wire out @ enc_packet W (Publish p) @ concat (map (enc_packet W) pings)\<rparr>) \<and>
    pings = (if ping_due m (con\<lparr>last_time_sent := clock 0\<rparr>) now then [Pingreq MPingreq] else []) \<and>
    is_connected (connection_state m') \<and> client_pis m' = client_pis m"
proof -
  let ?m = "set_last_run (clock 0) (m\<lparr>connection_state := Connected (con\<lparr>last_time_sent := clock 0\<rparr>)\<rparr>)"
  let ?con = "con\<lparr>last_time_sent := clock 0\<rparr>"
  have "ping_due ?m ?con now = ping_due m ?con now"
    by (simp add: ping_due_def)
  then show ?thesis
    using fsm_run_connected [of ?m ?con S fx now] publisher_loop_qos0 [OF assms, of fx clock] assms(4)
    by (auto simp: connection_to_send_def handle_option_def handle_action_def framed_send_ok [OF pingreq_ok])
qed

end

section \<open>After a task has panicked\<close>

text \<open>
  The last act of a task is to put its state machine back. A task that panics does not get to
  it: the client stays in \<open>Connected\<close> with nobody at the other end of the channel.
\<close>

definition core_dead :: "'s core \<Rightarrow> bool" where
  "core_dead c \<longleftrightarrow> core_tasks c = Map.empty \<and> (case core_state c of Unconnected _ \<Rightarrow> False | ConnectedTo _ \<Rightarrow> True)"

lemma core_dead_calls:
  assumes "core_dead c"
  shows "fst (core_connect c out) = Inl AlreadyConnected \<and> core_send c u = Some (Inl TokioChannel, c)"
  using assms by (auto simp: core_dead_def core_connect_def core_send_def receiver_alive_def Let_def
      split: CoreState.splits)

lemma core_dead_step:
  assumes "core_step W S fx c c'" and "core_dead c"
  shows "core_dead c'"
  using assms(1)
proof cases
  case (connect out r)
  with assms(2) show ?thesis
    by (auto simp: core_dead_def core_connect_def Let_def split: CoreState.splits)
next
  case (send u r)
  with core_dead_calls [OF assms(2), of _ u] assms(2) show ?thesis by simp
qed (use assms(2) in \<open>simp_all add: core_dead_def router_closed_def\<close>)

lemma core_dead_steps: "(core_step W S fx)\<^sup>*\<^sup>* c c' \<Longrightarrow> core_dead c \<Longrightarrow> core_dead c'"
  by (induction rule: rtranclp_induct) (auto dest: core_dead_step)

context core_contract begin

lemma crash_dead:
  assumes "core_inv fx c" and "core_tasks c k = Some t"
  shows "core_dead (c\<lparr>core_tasks := (core_tasks c)(k := None)\<rparr>)"
proof -
  have "core_tasks c l = None" if "l \<noteq> k" for l
    using assms that by (cases "core_tasks c l") (auto simp: core_inv_def)
  then have "(core_tasks c)(k := None) = Map.empty" by auto
  moreover have "\<exists>j. core_state c = ConnectedTo j"
    using assms by (cases "core_state c") (auto simp: core_inv_def)
  ultimately show ?thesis by (auto simp: core_dead_def)
qed

lemma single_task:
  assumes "core_inv fx c" and "core_tasks c k = Some t"
  shows "core_tasks c = [k \<mapsto> t]"
proof
  have "core_tasks c l = None" if "l \<noteq> k" for l
    using assms that by (cases "core_tasks c l") (auto simp: core_inv_def)
  with assms(2) show "core_tasks c l = [k \<mapsto> t] l" for l by simp
qed

lemma starting_task:
  assumes "core_inv fx c" and "core_tasks c k = Some t" and "task_stage t = Starting"
    and "wire_open (task_io t)"
  shows "\<exists>m. connection_start W fx now (task_fsm t) (task_io t) =
      Return (m, (task_io t)\<lparr>wire := wire (task_io t) @ enc_packet W (Connect core_connect_packet)\<rparr>) \<and>
    connection_state m = ConnectingWithoutAuth now"
proof -
  have "rest_ok fx (task_fsm t)"
    using assms(1-3) by (auto simp: core_inv_def task_ok_def rest_ok_def)
  then show ?thesis using connection_start_sends [OF _ assms(4)] by blast
qed

lemma running_tasks:
  assumes "core_inv fx c"
  shows "core_tasks c = Map.empty \<or>
    (\<exists>k t. core_tasks c = [k \<mapsto> t] \<and>
       (if task_stage t = Starting \<and> wire_open (task_io t)
        then \<exists>m. connection_start W fx now (task_fsm t) (task_io t) =
            Return (m, (task_io t)\<lparr>wire := wire (task_io t) @ enc_packet W (Connect core_connect_packet)\<rparr>) \<and>
          connection_state m = ConnectingWithoutAuth now
        else True))"
proof (cases "\<exists>k t. core_tasks c k = Some t")
  case True
  then obtain k t where t: "core_tasks c k = Some t" by blast
  from single_task [OF assms t] starting_task [OF assms t, of now] show ?thesis by auto
next
  case False
  then have "core_tasks c = Map.empty" by fastforce
  then show ?thesis by simp
qed

lemma connect_cuts_off:
  assumes "core_inv fx c" and "core_state c = ConnectedTo k"
  shows "\<exists>c'. core_connect c out = (Inl AlreadyConnected, c') \<and> core_tasks c' = core_tasks c \<and>
    core_send c' u = Some (Inl TokioChannel, c')"
proof -
  have "core_tasks c (core_next c) = None"
    using assms(1) by (cases "core_tasks c (core_next c)") (auto simp: core_inv_def)
  with assms(2) show ?thesis
    by (simp add: core_connect_def core_send_def receiver_alive_def Let_def)
qed

end

text \<open>For the store of 64 identifiers, and any \<open>winnow\<close> that satisfies its contract.\<close>

lemma core_client_Usize:
  "winnow_spec W \<Longrightarrow> core_contract W Usize_pis Usize_inv (\<lambda>s. ids_of (slots s)) (\<lambda>s. ids_of (is_publish s))"
  by (rule core_contract.intro [OF _ usize_store.packet_id_store_axioms])

interpretation core_ref: core_contract winnow_ref Usize_pis Usize_inv
    "\<lambda>s. ids_of (slots s)" "\<lambda>s. ids_of (is_publish s)"
  by (rule core_client_Usize [OF winnow_ref_spec])

lemma UsizeStore_new_inv: "Usize_inv UsizeStore_new" "ids_of (slots UsizeStore_new) = {}"
  by (simp_all add: UsizeStore_new_def Usize_inv_def ids_of_def)

lemmas core_reachable_Usize =
  core_contract.core_reachable_inv [OF core_client_Usize _ UsizeStore_new_inv]

section \<open>Properties\<close>

definition example_io :: io where
  "example_io = \<lparr>wire = [], to_router = [], wire_open = True, router_open = True\<rparr>"

definition example_qos0 :: MPublish where
  "example_qos0 =
     \<lparr>pub_duplicate = False, pub_quality_of_service = AtMostOnce, pub_retain = False,
      pub_topic_name = [0x61], pub_packet_identifier = None,
      pub_properties = props_new PublishProperties, pub_payload = [1, 2]\<rparr>"

definition example_data :: ConnectedData where
  "example_data = \<lparr>last_time_sent = 3, ping_state = WaitingForElapsed\<rparr>"

lemma example_fsm_connected: "connection_state example_fsm = Connected example_data"
  by (simp add: example_fsm_def example_data_def)

lemma example_fsm_inv: "Usize_inv (client_pis example_fsm)"
  by (simp add: example_fsm_def Usize_inv_def)

text \<open>
  C29. In every state the client can get into, by any interleaving of its callers, its tasks and
  failures of the connection and the router, at most one task runs, whatever it does; and if it is about to
  start on an open connection, it does not panic on the state machine it was given: it sends exactly the
  CONNECT packet of the client and waits for the answer.
\<close>

theorem connection_starts:
  assumes "winnow_spec W" and "core_reachable W Usize_pis fx UsizeStore_new c"
  shows "core_tasks c = Map.empty \<or>
    (\<exists>k t. core_tasks c = [k \<mapsto> t] \<and>
       (if task_stage t = Starting \<and> wire_open (task_io t)
        then \<exists>m. connection_start W fx now (task_fsm t) (task_io t) =
            Return (m, (task_io t)\<lparr>wire := wire (task_io t) @ enc_packet W (Connect core_connect_packet)\<rparr>) \<and>
          connection_state m = ConnectingWithoutAuth now
        else True))"
  by (rule core_contract.running_tasks [OF core_client_Usize [OF assms(1)] core_reachable_Usize [OF assms(1,2)]])

theorem connection_starts_witness:
  "\<exists>m. connection_start winnow_ref (\<lambda>_. 7) 5 (fsm_new UsizeStore_new) example_io =
      Return (m, example_io\<lparr>wire := enc_packet winnow_ref (Connect core_connect_packet)\<rparr>)"
proof -
  have e: "[0 \<mapsto> t] = [k \<mapsto> u] \<longleftrightarrow> k = 0 \<and> u = t" for k :: nat and t u :: "UsizeStore conn_task"
    by (auto simp: fun_eq_iff split: if_splits)
  show ?thesis
    using connection_starts [OF winnow_ref_spec core_reachable.new_and_connect [where pis = UsizeStore_new and out = example_io],
        of "\<lambda>_. 7" 5]
    by (auto simp: core_new_and_connect_def example_io_def e)
qed

text \<open>
  C30. Which packets from the server a connected task survives, with the router at work: publishes of quality of service 0,
  which it passes to the router as they are; the acknowledgement of a subscription whose
  identifier is in use; the answer to a ping. Every other packet, among them the acknowledgement
  of a publish, a publish of quality of service 1 and the server's DISCONNECT, makes it panic.
\<close>

theorem connection_receives_exactly:
  assumes "winnow_spec W" and "Usize_inv (client_pis m)" and "connection_state m = Connected con"
    and "packet_ok W p" and "router_open out"
  shows "case connection_incoming W Usize_pis fx now m out p of
      Panic \<Rightarrow> \<not> core_accepts con (ids_of (slots (client_pis m))) p
    | Return (m', out') \<Rightarrow> core_accepts con (ids_of (slots (client_pis m))) p \<and>
        is_connected (connection_state m') \<and>
        out' = out\<lparr>to_router := to_router out @ (case p of Publish _ \<Rightarrow> [packet_canon W p] | _ \<Rightarrow> [])\<rparr>"
  by (rule core_contract.connection_incoming_exact [OF core_client_Usize [OF assms(1)] assms(2-5)])

theorem connection_receives_exactly_witness:
  "\<exists>m'. connection_incoming winnow_ref Usize_pis (\<lambda>_. 7) 5 example_fsm example_io (Publish example_qos0) =
    Return (m', example_io\<lparr>to_router := [packet_canon winnow_ref (Publish example_qos0)]\<rparr>)"
proof -
  have ok: "packet_ok winnow_ref (Publish example_qos0)" by code_simp
  show ?thesis
    using connection_receives_exactly [OF winnow_ref_spec example_fsm_inv example_fsm_connected ok, of example_io "\<lambda>_. 7" 5]
    by (auto simp: example_io_def example_qos0_def split: outcome.splits)
qed

text \<open>
  A task that panics leaves the client unusable for good: from then on, whatever happens,
  every \<open>connect\<close> answers that the client is connected already and every \<open>publish\<close> and
  \<open>subscribe\<close> fails, since the state machine was lost with the task.
\<close>

lemma crash_is_final:
  assumes "winnow_spec W" and "core_reachable W Usize_pis fx UsizeStore_new c"
    and "core_tasks c k = Some t" and "task_run W Usize_pis fx t (core_queue c k) Panic us"
    and "(core_step W Usize_pis fx)\<^sup>*\<^sup>* (c\<lparr>core_tasks := (core_tasks c)(k := None)\<rparr>) c'"
  shows "fst (core_connect c' out) = Inl AlreadyConnected \<and> core_send c' u = Some (Inl TokioChannel, c')"
  by (rule core_dead_calls [OF core_dead_steps [OF assms(5)]],
      rule core_contract.crash_dead [OF core_client_Usize [OF assms(1)] core_reachable_Usize [OF assms(1,2)] assms(3)])

text \<open>
  Calling \<open>connect\<close> on a connected client returns the error it should, and breaks the
  client all the same: the sender of the running task is replaced by a dead one, and the next
  publish or subscription fails although the connection is up.
\<close>

lemma connect_breaks_connected:
  assumes "winnow_spec W" and "core_reachable W Usize_pis fx UsizeStore_new c"
    and "core_state c = ConnectedTo k"
  shows "\<exists>c'. core_connect c out = (Inl AlreadyConnected, c') \<and> core_tasks c' = core_tasks c \<and>
    core_send c' u = Some (Inl TokioChannel, c')"
  by (rule core_contract.connect_cuts_off [OF core_client_Usize [OF assms(1)] core_reachable_Usize [OF assms(1,2)] assms(3)])

end
