(* ===== verification/Topic.thy ===== *)
theory Topic
  imports Utf8
begin

text \<open>
  \<open>cloudmqtt/src/topic.rs\<close>: topic names and topic filters as lists of levels, their
  construction from a string, appending, and the matching of a name against a filter. Beside the
  code stand the rules of the MQTT specification (section 4.7), \<open>valid_filter\<close>,
  \<open>valid_name\<close> and \<open>mqtt_match\<close>, to which the lemmas relate it. What the code accepts is
  \<open>accepted_filter\<close> and \<open>accepted_name\<close>: the same but for the longest strings.
\<close>

section \<open>Splitting a string\<close>

text \<open>
  \<open>str::split\<close> with a single character: the pieces between its occurrences, one more
  than there are occurrences.
\<close>

fun split_on :: "u8 \<Rightarrow> rstr \<Rightarrow> rstr list" where
  "split_on c [] = [[]]"
| "split_on c (b # bs) =
     (if b = c then [] # split_on c bs
      else (case split_on c bs of [] \<Rightarrow> [[b]] | l # ls \<Rightarrow> (b # l) # ls))"

fun join_with :: "u8 \<Rightarrow> rstr list \<Rightarrow> rstr" where
  "join_with c [] = []"
| "join_with c [l] = l"
| "join_with c (l # ls) = l @ c # join_with c ls"

lemma split_on_not_Nil [simp]: "split_on c s \<noteq> []"
  by (induction s) (auto split: list.splits)

lemma join_with_Cons: "ls \<noteq> [] \<Longrightarrow> join_with c (l # ls) = l @ c # join_with c ls"
  by (cases ls) simp_all

lemma join_split [simp]: "join_with c (split_on c s) = s"
proof (induction s)
  case (Cons b bs)
  obtain l ls where ls: "split_on c bs = l # ls"
    by (cases "split_on c bs") auto
  with Cons.IH show ?case by (cases ls) (auto simp: join_with_Cons)
qed simp

lemma split_on_no_sep: "l \<in> set (split_on c s) \<Longrightarrow> c \<notin> set l"
  by (induction s arbitrary: l) (auto split: list.splits if_splits)

lemma split_on_append: "c \<notin> set l \<Longrightarrow> split_on c (l @ c # s) = l # split_on c s"
  by (induction l) auto

lemma split_on_no: "c \<notin> set l \<Longrightarrow> split_on c l = [l]"
  by (induction l) auto

lemma split_join: "ls \<noteq> [] \<Longrightarrow> (\<And>l. l \<in> set ls \<Longrightarrow> c \<notin> set l) \<Longrightarrow> split_on c (join_with c ls) = ls"
  by (induction c ls rule: join_with.induct) (simp_all add: split_on_no split_on_append)

lemma set_join: "set (join_with c ls) \<subseteq> insert c (\<Union> (set ` set ls))"
  by (induction c ls rule: join_with.induct) auto

text \<open>The bytes of a string are the separators and the bytes of its pieces.\<close>

lemma split_on_mem: "d \<noteq> c \<Longrightarrow> (d \<in> set s) = (\<exists>l \<in> set (split_on c s). d \<in> set l)"
  by (induction s) (auto split: list.splits)

definition levels_len :: "rstr list \<Rightarrow> nat" where
  "levels_len ls = length ls + sum_list (map length ls)"

lemma levels_len_simps [simp]:
  "levels_len [] = 0" "levels_len (l # ls) = Suc (length l + levels_len ls)"
  "levels_len (ks @ ls) = levels_len ks + levels_len ls"
  by (simp_all add: levels_len_def)

lemma levels_len_split [simp]: "levels_len (split_on c s) = Suc (length s)"
proof (induction s)
  case (Cons b bs)
  obtain l ls where "split_on c bs = l # ls"
    by (cases "split_on c bs") auto
  with Cons.IH show ?case by simp
qed simp

section \<open>Levels\<close>

abbreviation TOPIC_LEVEL_SEPERATOR :: u8 where
  "TOPIC_LEVEL_SEPERATOR \<equiv> 0x2F"

abbreviation PLUS :: u8 where
  "PLUS \<equiv> 0x2B"

abbreviation HASH :: u8 where
  "HASH \<equiv> 0x23"

abbreviation NUL :: u8 where
  "NUL \<equiv> 0"


definition MAXIMUM_TOPIC_BYTE_LENGTH :: nat where
  "MAXIMUM_TOPIC_BYTE_LENGTH = 65535"

datatype TopicError =
    LevelContainsSeperator
  | CannotAppendToMultilevelWildcard
  | EmptyTopic
  | MixedWildcardLevel
  | WouldExceedLength
  | NullCharacter

type_synonym TopicPath = rstr

definition TopicPath_try_from :: "rstr \<Rightarrow> TopicError + TopicPath" where
  "TopicPath_try_from value =
     (if PLUS \<in> set value \<or> HASH \<in> set value then Inl MixedWildcardLevel
      else if NUL \<in> set value then Inl NullCharacter
      else Inr value)"

datatype TopicFilterLevel =
    Path TopicPath
  | TopicLevelSeperator
  | MultiLevelSeperator
  | EmptyLevel

fun is_multi_level_seperator :: "TopicFilterLevel \<Rightarrow> bool" where
  "is_multi_level_seperator MultiLevelSeperator = True"
| "is_multi_level_seperator _ = False"

fun is_topic_level_seperator :: "TopicFilterLevel \<Rightarrow> bool" where
  "is_topic_level_seperator TopicLevelSeperator = True"
| "is_topic_level_seperator _ = False"

fun is_path :: "TopicFilterLevel \<Rightarrow> bool" where
  "is_path (Path _) = True"
| "is_path _ = False"

fun level_as_str :: "TopicFilterLevel \<Rightarrow> rstr" where
  "level_as_str (Path p) = p"
| "level_as_str TopicLevelSeperator = [PLUS]"
| "level_as_str MultiLevelSeperator = [HASH]"
| "level_as_str EmptyLevel = []"

definition TopicFilterLevel_try_from :: "rstr \<Rightarrow> TopicError + TopicFilterLevel" where
  "TopicFilterLevel_try_from level =
     (if TOPIC_LEVEL_SEPERATOR \<in> set level then Inl LevelContainsSeperator
      else if level = [] then Inr EmptyLevel
      else if level = [PLUS] then Inr TopicLevelSeperator
      else if level = [HASH] then Inr MultiLevelSeperator
      else (case TopicPath_try_from level of Inl e \<Rightarrow> Inl e | Inr p \<Rightarrow> Inr (Path p)))"

section \<open>Topic filters\<close>

text \<open>\<open>Iterator::try_for_each\<close>: stops at the first error and keeps the state reached.\<close>

fun try_for_each :: "('s \<Rightarrow> 'a \<Rightarrow> ('e + unit) \<times> 's) \<Rightarrow> 's \<Rightarrow> 'a list \<Rightarrow> ('e + unit) \<times> 's" where
  "try_for_each f s [] = (Inr (), s)"
| "try_for_each f s (x # xs) =
     (case f s x of (Inl e, s') \<Rightarrow> (Inl e, s') | (Inr _, s') \<Rightarrow> try_for_each f s' xs)"

record TopicFilterBuf =
  filter_levels :: "TopicFilterLevel list"
  has_end_wildcard :: bool

definition filter_len :: "TopicFilterBuf \<Rightarrow> nat" where
  "filter_len self =
     length (filter_levels self) + sum_list (map (\<lambda>l. length (level_as_str l)) (filter_levels self))"

definition filter_append_single ::
    "TopicFilterBuf \<Rightarrow> rstr \<Rightarrow> (TopicError + unit) \<times> TopicFilterBuf" where
  "filter_append_single self level =
     (if has_end_wildcard self then (Inl CannotAppendToMultilevelWildcard, self)
      else (case TopicFilterLevel_try_from level of
              Inl e \<Rightarrow> (Inl e, self)
            | Inr level \<Rightarrow>
                if filter_len self + 1 + length (level_as_str level) > MAXIMUM_TOPIC_BYTE_LENGTH
                then (Inl WouldExceedLength, self)
                else
                  (let self = (if is_multi_level_seperator level
                               then self\<lparr>has_end_wildcard := True\<rparr> else self)
                   in (Inr (), self\<lparr>filter_levels := filter_levels self @ [level]\<rparr>))))"

definition filter_append :: "TopicFilterBuf \<Rightarrow> rstr \<Rightarrow> (TopicError + unit) \<times> TopicFilterBuf" where
  "filter_append self levels =
     try_for_each filter_append_single self (split_on TOPIC_LEVEL_SEPERATOR levels)"

definition TopicFilterBuf_new :: "rstr \<Rightarrow> TopicError + TopicFilterBuf" where
  "TopicFilterBuf_new levels =
     (if levels = [] then Inl EmptyTopic
      else (case filter_append \<lparr>filter_levels = [], has_end_wildcard = False\<rparr> levels of
              (Inl e, _) \<Rightarrow> Inl e
            | (Inr _, topic) \<Rightarrow> Inr topic))"

text \<open>\<open>first().unwrap()\<close> and \<open>last().unwrap()\<close>.\<close>

definition filter_first :: "TopicFilterBuf \<Rightarrow> TopicFilterLevel outcome" where
  "filter_first self = (case filter_levels self of [] \<Rightarrow> Panic | l # _ \<Rightarrow> Return l)"

definition filter_last :: "TopicFilterBuf \<Rightarrow> TopicFilterLevel outcome" where
  "filter_last self = (if filter_levels self = [] then Panic else Return (last (filter_levels self)))"

section \<open>Topic names\<close>

record TopicNameBuf =
  name_levels :: "TopicPath list"

definition name_len :: "TopicNameBuf \<Rightarrow> nat" where
  "name_len self = length (name_levels self) + sum_list (map length (name_levels self))"

definition name_append_single ::
    "TopicNameBuf \<Rightarrow> rstr \<Rightarrow> (TopicError + unit) \<times> TopicNameBuf" where
  "name_append_single self level =
     (case TopicPath_try_from level of
        Inl e \<Rightarrow> (Inl e, self)
      | Inr level \<Rightarrow>
          if name_len self + 1 + length level > MAXIMUM_TOPIC_BYTE_LENGTH
          then (Inl WouldExceedLength, self)
          else (Inr (), self\<lparr>name_levels := name_levels self @ [level]\<rparr>))"

definition name_append :: "TopicNameBuf \<Rightarrow> rstr \<Rightarrow> (TopicError + unit) \<times> TopicNameBuf" where
  "name_append self levels =
     try_for_each name_append_single self (split_on TOPIC_LEVEL_SEPERATOR levels)"

definition TopicNameBuf_new :: "rstr \<Rightarrow> TopicError + TopicNameBuf" where
  "TopicNameBuf_new levels =
     (if levels = [] then Inl EmptyTopic
      else (case name_append \<lparr>name_levels = []\<rparr> levels of
              (Inl e, _) \<Rightarrow> Inl e
            | (Inr _, topic) \<Rightarrow> Inr topic))"

section \<open>Matching\<close>

text \<open>The loop over both level lists; \<open>fs\<close> after the head is what \<open>peek\<close> sees.\<close>

fun matches_loop :: "TopicFilterLevel list \<Rightarrow> TopicPath list \<Rightarrow> bool" where
  "matches_loop (level # fs) (path # ps) =
     (case level of
        Path topic_path \<Rightarrow>
          if topic_path \<noteq> path then False
          else if (case fs of [] \<Rightarrow> False | f # _ \<Rightarrow> f = MultiLevelSeperator) then True
          else matches_loop fs ps
      | EmptyLevel \<Rightarrow> if path \<noteq> [] then False else matches_loop fs ps
      | TopicLevelSeperator \<Rightarrow> matches_loop fs ps
      | MultiLevelSeperator \<Rightarrow> True)"
| "matches_loop _ _ = True"

definition topic_matches :: "TopicNameBuf \<Rightarrow> TopicFilterBuf \<Rightarrow> bool outcome" where
  "topic_matches self flt =
     (case filter_first flt of
        Panic \<Rightarrow> Panic
      | Return first \<Rightarrow>
          if is_multi_level_seperator first then Return True
          else Return (matches_loop (filter_levels flt) (name_levels self)))"

lemmas topic_defs [defs] =
  MAXIMUM_TOPIC_BYTE_LENGTH_def TopicPath_try_from_def TopicFilterLevel_try_from_def
  filter_len_def filter_append_single_def filter_append_def TopicFilterBuf_new_def
  filter_first_def filter_last_def name_len_def name_append_single_def name_append_def
  TopicNameBuf_new_def topic_matches_def

section \<open>The rules of the specification\<close>

text \<open>A level: no separator, no NUL, a wildcard only alone.\<close>

definition name_level_ok :: "rstr \<Rightarrow> bool" where
  "name_level_ok l \<longleftrightarrow>
     TOPIC_LEVEL_SEPERATOR \<notin> set l \<and> NUL \<notin> set l \<and> PLUS \<notin> set l \<and> HASH \<notin> set l"

definition filter_level_ok :: "rstr \<Rightarrow> bool" where
  "filter_level_ok l \<longleftrightarrow> l = [PLUS] \<or> l = [HASH] \<or> name_level_ok l"

text \<open>A string is a topic filter, or a topic name, with at most 65535 bytes (4.7.3).\<close>

definition valid_filter :: "rstr \<Rightarrow> bool" where
  "valid_filter s \<longleftrightarrow>
     s \<noteq> [] \<and> length s \<le> 65535 \<and>
     (let ls = split_on TOPIC_LEVEL_SEPERATOR s
      in list_all filter_level_ok ls \<and> [HASH] \<notin> set (butlast ls))"

definition valid_name :: "rstr \<Rightarrow> bool" where
  "valid_name s \<longleftrightarrow> s \<noteq> [] \<and> length s \<le> 65535 \<and> NUL \<notin> set s \<and> PLUS \<notin> set s \<and> HASH \<notin> set s"

text \<open>
  What the code accepts. It counts one separator for every level, also for the last, so that
  its bound on a string is one byte below that of the specification.
\<close>

definition valid_levels :: "rstr list \<Rightarrow> bool" where
  "valid_levels ls \<longleftrightarrow>
     list_all filter_level_ok ls \<and> [HASH] \<notin> set (butlast ls) \<and> levels_len ls \<le> MAXIMUM_TOPIC_BYTE_LENGTH"

definition accepted_filter :: "rstr \<Rightarrow> bool" where
  "accepted_filter s \<longleftrightarrow> valid_filter s \<and> length s \<noteq> 65535"

definition accepted_name :: "rstr \<Rightarrow> bool" where
  "accepted_name s \<longleftrightarrow> valid_name s \<and> length s \<noteq> 65535"

lemma accepted_filter_levels:
  "accepted_filter s \<longleftrightarrow> s \<noteq> [] \<and> valid_levels (split_on TOPIC_LEVEL_SEPERATOR s)"
  by (auto simp: accepted_filter_def valid_filter_def valid_levels_def MAXIMUM_TOPIC_BYTE_LENGTH_def Let_def)

lemma accepted_name_iff:
  "accepted_name s \<longleftrightarrow>
     s \<noteq> [] \<and> NUL \<notin> set s \<and> PLUS \<notin> set s \<and> HASH \<notin> set s \<and> length s < MAXIMUM_TOPIC_BYTE_LENGTH"
  by (auto simp: accepted_name_def valid_name_def MAXIMUM_TOPIC_BYTE_LENGTH_def)

text \<open>
  Matching as sections 4.7.1 and 4.7.2 of the specification define it, but for one rule that binds
  servers only: that a filter which starts with a wildcard does not match names that start with \<open>$\<close>.
\<close>

fun mqtt_match :: "TopicFilterLevel list \<Rightarrow> TopicPath list \<Rightarrow> bool" where
  "mqtt_match [] ps \<longleftrightarrow> ps = []"
| "mqtt_match (MultiLevelSeperator # fs) ps \<longleftrightarrow> True"
| "mqtt_match (TopicLevelSeperator # fs) (p # ps) \<longleftrightarrow> mqtt_match fs ps"
| "mqtt_match (Path t # fs) (p # ps) \<longleftrightarrow> t = p \<and> mqtt_match fs ps"
| "mqtt_match (EmptyLevel # fs) (p # ps) \<longleftrightarrow> p = [] \<and> mqtt_match fs ps"
| "mqtt_match (level # fs) [] \<longleftrightarrow> False"

section \<open>A buffer of levels\<close>

text \<open>
  Filters and names are built the same way, level by level, and refuse a level that would break
  a prefix-closed rule \<open>admits\<close> on the pieces they hold.
\<close>

locale level_buffer =
  fixes append_single :: "'s \<Rightarrow> rstr \<Rightarrow> (TopicError + unit) \<times> 's"
    and pieces :: "'s \<Rightarrow> rstr list"
    and inv :: "'s \<Rightarrow> bool"
    and admits :: "rstr list \<Rightarrow> bool"
  assumes append_ok:
      "inv s \<Longrightarrow> TOPIC_LEVEL_SEPERATOR \<notin> set l \<Longrightarrow> admits (pieces s @ [l]) \<Longrightarrow>
        \<exists>s'. append_single s l = (Inr (), s') \<and> inv s' \<and> pieces s' = pieces s @ [l]"
    and append_err:
      "inv s \<Longrightarrow> TOPIC_LEVEL_SEPERATOR \<notin> set l \<Longrightarrow> \<not> admits (pieces s @ [l]) \<Longrightarrow>
        \<exists>e. append_single s l = (Inl e, s)"
    and admits_prefix: "admits (ks @ ls) \<Longrightarrow> admits ks"
    and inv_admits: "inv s \<Longrightarrow> admits (pieces s)"
begin

lemma append_all:
  assumes "inv s" and "\<And>l. l \<in> set ls \<Longrightarrow> TOPIC_LEVEL_SEPERATOR \<notin> set l"
    and "admits (pieces s @ ls)"
  shows "\<exists>s'. try_for_each append_single s ls = (Inr (), s') \<and> inv s' \<and> pieces s' = pieces s @ ls"
  using assms
proof (induction ls arbitrary: s)
  case (Cons l ls)
  have "admits (pieces s @ [l])"
    using Cons.prems(3) admits_prefix [of "pieces s @ [l]" ls] by simp
  with Cons.prems obtain s' where s': "append_single s l = (Inr (), s')" "inv s'"
      "pieces s' = pieces s @ [l]"
    using append_ok [of s l] by auto
  with Cons.prems Cons.IH [of s'] show ?case by auto
qed simp

lemma append_stops:
  assumes "inv s" and "\<And>l. l \<in> set ls \<Longrightarrow> TOPIC_LEVEL_SEPERATOR \<notin> set l"
    and "\<not> admits (pieces s @ ls)"
  shows "\<exists>e s' ks l ms. try_for_each append_single s ls = (Inl e, s') \<and> inv s' \<and>
    pieces s' = pieces s @ ks \<and> ls = ks @ l # ms \<and> \<not> admits (pieces s @ ks @ [l])"
  using assms
proof (induction ls arbitrary: s)
  case Nil
  then show ?case using inv_admits [of s] by simp
next
  case (Cons l ls)
  show ?case
  proof (cases "admits (pieces s @ [l])")
    case True
    with Cons.prems obtain s' where s': "append_single s l = (Inr (), s')" "inv s'"
        "pieces s' = pieces s @ [l]"
      using append_ok [of s l] by auto
    with Cons.prems obtain e s'' ks k ms where "try_for_each append_single s' ls = (Inl e, s'')"
        "inv s''" "pieces s'' = pieces s' @ ks" "ls = ks @ k # ms" "\<not> admits (pieces s' @ ks @ [k])"
      using Cons.IH [of s'] by auto
    with s' show ?thesis
      by (intro exI [of _ e] exI [of _ s''] exI [of _ "l # ks"] exI [of _ k] exI [of _ ms]) simp
  next
    case False
    with Cons.prems obtain e where "append_single s l = (Inl e, s)"
      using append_err [of s l] by auto
    with False Cons.prems(1) show ?thesis
      by (intro exI [of _ e] exI [of _ s] exI [of _ "[]"] exI [of _ l] exI [of _ ls]) simp
  qed
qed

lemma append_iff:
  assumes "inv s" and "\<And>l. l \<in> set ls \<Longrightarrow> TOPIC_LEVEL_SEPERATOR \<notin> set l"
  shows "case try_for_each append_single s ls of
           (Inr _, s') \<Rightarrow> admits (pieces s @ ls) \<and> inv s' \<and> pieces s' = pieces s @ ls
         | (Inl _, s') \<Rightarrow> \<not> admits (pieces s @ ls) \<and> inv s' \<and>
             (\<exists>ks l ms. ls = ks @ l # ms \<and> pieces s' = pieces s @ ks \<and>
                \<not> admits (pieces s @ ks @ [l]))"
proof (cases "admits (pieces s @ ls)")
  case True
  from append_all [OF assms True] show ?thesis using True by auto
next
  case False
  from append_stops [OF assms False] show ?thesis using False by auto
qed

end

section \<open>Topic filters keep the rules\<close>

definition filter_pieces :: "TopicFilterBuf \<Rightarrow> rstr list" where
  "filter_pieces f = map level_as_str (filter_levels f)"

definition canonical_level :: "TopicFilterLevel \<Rightarrow> bool" where
  "canonical_level l \<longleftrightarrow> TopicFilterLevel_try_from (level_as_str l) = Inr l"

definition filter_ok :: "TopicFilterBuf \<Rightarrow> bool" where
  "filter_ok f \<longleftrightarrow>
     valid_levels (filter_pieces f) \<and> list_all canonical_level (filter_levels f) \<and>
     (has_end_wildcard f \<longleftrightarrow> MultiLevelSeperator \<in> set (filter_levels f))"

lemma filter_len_pieces: "filter_len f = levels_len (filter_pieces f)"
  by (simp add: filter_len_def filter_pieces_def levels_len_def comp_def)

text \<open>The conversion of a level accepts exactly the levels of the specification.\<close>

lemma try_from_level:
  assumes "TOPIC_LEVEL_SEPERATOR \<notin> set l"
  shows "case TopicFilterLevel_try_from l of
           Inr lv \<Rightarrow> filter_level_ok l \<and> level_as_str lv = l \<and> canonical_level lv
         | Inl _ \<Rightarrow> \<not> filter_level_ok l"
  using assms
  by (auto simp: TopicFilterLevel_try_from_def TopicPath_try_from_def canonical_level_def
      filter_level_ok_def name_level_ok_def)

lemma multi_iff: "canonical_level lv \<Longrightarrow> level_as_str lv = [HASH] \<longleftrightarrow> lv = MultiLevelSeperator"
  by (cases lv) (auto simp: canonical_level_def TopicFilterLevel_try_from_def TopicPath_try_from_def)

lemma is_multi_iff: "is_multi_level_seperator lv \<longleftrightarrow> lv = MultiLevelSeperator"
  by (cases lv) simp_all

lemma multi_mem:
  "list_all canonical_level ls \<Longrightarrow> [HASH] \<in> set (map level_as_str ls) \<longleftrightarrow> MultiLevelSeperator \<in> set ls"
  by (induction ls) (auto simp: multi_iff dest: sym)

lemma valid_levels_prefix: "valid_levels (ks @ ls) \<Longrightarrow> valid_levels ks"
  by (auto simp: valid_levels_def butlast_append split: if_splits dest: in_set_butlastD)

lemma valid_levels_snoc:
  "valid_levels (ls @ [l]) \<longleftrightarrow>
     valid_levels ls \<and> [HASH] \<notin> set ls \<and> filter_level_ok l \<and>
     levels_len ls + 1 + length l \<le> MAXIMUM_TOPIC_BYTE_LENGTH"
  by (auto simp: valid_levels_def butlast_append dest: in_set_butlastD)

lemma filter_append_single_cases:
  assumes "filter_ok f" and "TOPIC_LEVEL_SEPERATOR \<notin> set l"
  shows "case filter_append_single f l of
           (Inr _, f') \<Rightarrow> valid_levels (filter_pieces f @ [l]) \<and> filter_ok f' \<and>
             filter_pieces f' = filter_pieces f @ [l]
         | (Inl _, f') \<Rightarrow> \<not> valid_levels (filter_pieces f @ [l]) \<and> f' = f"
proof -
  have hash: "[HASH] \<in> set (filter_pieces f) \<longleftrightarrow> has_end_wildcard f"
    using assms(1) by (simp add: filter_ok_def filter_pieces_def multi_mem del: set_map)
  show ?thesis
    using assms(1) hash try_from_level [OF assms(2)]
    by (auto simp: filter_append_single_def filter_len_pieces valid_levels_snoc filter_ok_def
        filter_pieces_def is_multi_iff multi_iff Let_def split: sum.splits)
qed

interpretation filter_buffer: level_buffer filter_append_single filter_pieces filter_ok valid_levels
proof unfold_locales
  fix s l assume "filter_ok s" "TOPIC_LEVEL_SEPERATOR \<notin> set l"
  note cases = filter_append_single_cases [OF this]
  show "\<exists>s'. filter_append_single s l = (Inr (), s') \<and> filter_ok s' \<and>
          filter_pieces s' = filter_pieces s @ [l]" if "valid_levels (filter_pieces s @ [l])"
    using cases that
    by (cases "filter_append_single s l"; cases "fst (filter_append_single s l)") auto
  show "\<exists>e. filter_append_single s l = (Inl e, s)" if "\<not> valid_levels (filter_pieces s @ [l])"
    using cases that
    by (cases "filter_append_single s l"; cases "fst (filter_append_single s l)") auto
qed (auto simp: filter_ok_def intro: valid_levels_prefix)

section \<open>Topic names keep the rules\<close>

definition valid_path :: "rstr list \<Rightarrow> bool" where
  "valid_path ls \<longleftrightarrow> list_all name_level_ok ls \<and> levels_len ls \<le> MAXIMUM_TOPIC_BYTE_LENGTH"

definition name_ok :: "TopicNameBuf \<Rightarrow> bool" where
  "name_ok n \<longleftrightarrow> valid_path (name_levels n)"

lemma name_len_levels: "name_len n = levels_len (name_levels n)"
  by (simp add: name_len_def levels_len_def)

interpretation name_buffer: level_buffer name_append_single name_levels name_ok valid_path
  by unfold_locales
    (auto simp: name_append_single_def name_ok_def valid_path_def name_len_levels name_level_ok_def
      TopicPath_try_from_def)

lemma valid_path_split:
  "valid_path (split_on TOPIC_LEVEL_SEPERATOR s) \<longleftrightarrow>
     NUL \<notin> set s \<and> PLUS \<notin> set s \<and> HASH \<notin> set s \<and> length s < MAXIMUM_TOPIC_BYTE_LENGTH"
  using split_on_no_sep [of _ TOPIC_LEVEL_SEPERATOR s]
  by (auto simp: valid_path_def name_level_ok_def list_all_iff
      split_on_mem [where c = TOPIC_LEVEL_SEPERATOR and s = s])

section \<open>Constructing filters and names\<close>

lemma filter_append_cases:
  assumes "filter_ok f"
  shows "case filter_append f s of
           (Inr _, f') \<Rightarrow> valid_levels (filter_pieces f @ split_on TOPIC_LEVEL_SEPERATOR s) \<and> filter_ok f' \<and>
             filter_pieces f' = filter_pieces f @ split_on TOPIC_LEVEL_SEPERATOR s
         | (Inl _, f') \<Rightarrow> \<not> valid_levels (filter_pieces f @ split_on TOPIC_LEVEL_SEPERATOR s) \<and> filter_ok f' \<and>
             (\<exists>ks l ms. split_on TOPIC_LEVEL_SEPERATOR s = ks @ l # ms \<and>
                filter_pieces f' = filter_pieces f @ ks \<and> \<not> valid_levels (filter_pieces f @ ks @ [l]))"
  unfolding filter_append_def
  by (rule filter_buffer.append_iff [OF assms]) (rule split_on_no_sep)

lemma name_append_cases:
  assumes "name_ok n"
  shows "case name_append n s of
           (Inr _, n') \<Rightarrow> valid_path (name_levels n @ split_on TOPIC_LEVEL_SEPERATOR s) \<and> name_ok n' \<and>
             name_levels n' = name_levels n @ split_on TOPIC_LEVEL_SEPERATOR s
         | (Inl _, n') \<Rightarrow> \<not> valid_path (name_levels n @ split_on TOPIC_LEVEL_SEPERATOR s) \<and> name_ok n' \<and>
             (\<exists>ks l ms. split_on TOPIC_LEVEL_SEPERATOR s = ks @ l # ms \<and>
                name_levels n' = name_levels n @ ks \<and> \<not> valid_path (name_levels n @ ks @ [l]))"
  unfolding name_append_def
  by (rule name_buffer.append_iff [OF assms]) (rule split_on_no_sep)

lemma filter_new_cases:
  "case TopicFilterBuf_new s of
     Inr f \<Rightarrow> accepted_filter s \<and> filter_ok f \<and> filter_pieces f = split_on TOPIC_LEVEL_SEPERATOR s
   | Inl _ \<Rightarrow> \<not> accepted_filter s"
  using filter_append_cases [of "\<lparr>filter_levels = [], has_end_wildcard = False\<rparr>" s]
  by (auto simp: TopicFilterBuf_new_def accepted_filter_levels filter_pieces_def filter_ok_def
      valid_levels_def split: sum.splits prod.splits)

lemma name_new_cases:
  "case TopicNameBuf_new s of
     Inr n \<Rightarrow> accepted_name s \<and> name_ok n \<and> name_levels n = split_on TOPIC_LEVEL_SEPERATOR s
   | Inl _ \<Rightarrow> \<not> accepted_name s"
  using name_append_cases [of "\<lparr>name_levels = []\<rparr>" s]
  by (auto simp: TopicNameBuf_new_def accepted_name_iff name_ok_def valid_path_split
      valid_path_def [of "[]"] split: sum.splits prod.splits)

lemma filter_new_SomeD:
  "TopicFilterBuf_new s = Inr f \<Longrightarrow>
     filter_ok f \<and> filter_pieces f = split_on TOPIC_LEVEL_SEPERATOR s \<and> filter_levels f \<noteq> []"
  using filter_new_cases [of s] by (auto simp: filter_pieces_def dest: sym)

lemma filter_ok_last:
  assumes "filter_ok f" and "filter_levels f \<noteq> []"
  shows "has_end_wildcard f = (last (filter_levels f) = MultiLevelSeperator)"
proof -
  have "[HASH] \<notin> set (butlast (filter_pieces f))" using assms(1) by (simp add: filter_ok_def valid_levels_def)
  then have "MultiLevelSeperator \<notin> set (butlast (filter_levels f))"
    unfolding filter_pieces_def map_butlast [symmetric] by force
  moreover have "MultiLevelSeperator \<in> set (filter_levels f) \<longleftrightarrow>
      MultiLevelSeperator = last (filter_levels f) \<or> MultiLevelSeperator \<in> set (butlast (filter_levels f))"
    using assms(2) by (cases "filter_levels f" rule: rev_cases) auto
  ultimately show ?thesis using assms(1) unfolding filter_ok_def by metis
qed

section \<open>Matching\<close>

text \<open>
  The loop stops when either side is at its end and then reports a match, whatever the other
  side has left. What it decides is whether the levels both sides have match.
\<close>

definition match_common :: "TopicFilterLevel list \<Rightarrow> TopicPath list \<Rightarrow> bool" where
  "match_common fs ps =
     (let k = min (length fs) (length ps) in mqtt_match (take k fs) (take k ps))"

lemma match_common_simps [simp]:
  "match_common [] ps" "match_common fs []"
  "match_common (MultiLevelSeperator # fs) (p # ps)"
  "match_common (TopicLevelSeperator # fs) (p # ps) \<longleftrightarrow> match_common fs ps"
  "match_common (Path t # fs) (p # ps) \<longleftrightarrow> t = p \<and> match_common fs ps"
  "match_common (EmptyLevel # fs) (p # ps) \<longleftrightarrow> p = [] \<and> match_common fs ps"
  by (simp_all add: match_common_def Let_def)

lemma match_common_multi [simp]: "match_common (MultiLevelSeperator # fs) ps"
  by (cases ps) simp_all

lemma matches_loop_common: "matches_loop fs ps = match_common fs ps"
  by (induction fs ps rule: matches_loop.induct)
    (auto split: TopicFilterLevel.splits list.splits)

lemma topic_matches_common:
  assumes "filter_levels f \<noteq> []"
  shows "topic_matches n f = Return (match_common (filter_levels f) (name_levels n))"
  using assms
  by (cases "filter_levels f")
    (auto simp: topic_matches_def filter_first_def matches_loop_common is_multi_iff)

lemma mqtt_match_common: "mqtt_match fs ps \<Longrightarrow> match_common fs ps"
  by (induction fs ps rule: mqtt_match.induct) auto

lemma match_common_mqtt:
  "length fs = length ps \<Longrightarrow> match_common fs ps = mqtt_match fs ps"
  by (simp add: match_common_def)

lemma match_common_multi_last:
  "MultiLevelSeperator \<in> set fs \<Longrightarrow> length fs \<le> Suc (length ps) \<Longrightarrow>
     match_common fs ps = mqtt_match fs ps"
  by (induction fs ps rule: mqtt_match.induct) auto

text \<open>A match is missed by neither side, and the excess is a difference in length.\<close>

lemma match_common_excess:
  "match_common fs ps \<longleftrightarrow> mqtt_match fs ps \<or> length fs \<noteq> length ps \<and> match_common fs ps"
  using mqtt_match_common [of fs ps] match_common_mqtt [of fs ps] by auto

text \<open>A name matches a filter that only begins like it, and the other way round.\<close>

lemma topic_prefix_example:
  "topic_matches \<lparr>name_levels = [[0x61]]\<rparr>
     \<lparr>filter_levels = [Path [0x61], Path [0x62]], has_end_wildcard = False\<rparr> = Return True \<and>
   \<not> mqtt_match [Path [0x61], Path [0x62]] [[0x61]]"
  by (simp add: topic_matches_def filter_first_def)

text \<open>A string of 65535 bytes is refused, although the limit is this very number.\<close>

lemma topic_length_example:
  "TopicNameBuf_new (replicate 65535 0x61) = Inl WouldExceedLength"
proof -
  have no: "(0x2F :: u8) \<notin> set (replicate 65535 0x61)"
    by simp
  show ?thesis
    by (simp add: TopicNameBuf_new_def name_append_def split_on_no [OF no] name_append_single_def
        TopicPath_try_from_def name_len_def MAXIMUM_TOPIC_BYTE_LENGTH_def)
qed

section \<open>Properties\<close>

text \<open>
  C22. A topic filter is built from a string exactly when the string obeys the rules of the
  specification (not empty, at most 65535 bytes, no NUL, \<open>+\<close> and \<open>#\<close> only as whole levels,
  \<open>#\<close> only as the last level) and is not just 65535 bytes long, a length which the specification and
  the constant in the code allow. The levels built, joined again, are the string, and the stored
  wildcard flag says whether the last level is \<open>#\<close>.
\<close>

theorem filter_new_exact:
  "case TopicFilterBuf_new s of
     Inr f \<Rightarrow> valid_filter s \<and> length s \<noteq> 65535 \<and> filter_ok f \<and>
       join_with TOPIC_LEVEL_SEPERATOR (map level_as_str (filter_levels f)) = s \<and>
       has_end_wildcard f = (last (filter_levels f) = MultiLevelSeperator)
   | Inl _ \<Rightarrow> \<not> (valid_filter s \<and> length s \<noteq> 65535)"
  using filter_new_cases [of s] filter_new_SomeD [of s] filter_ok_last
  by (auto simp: accepted_filter_def simp flip: filter_pieces_def split: sum.splits)

text \<open>
  C23. Appending to a filter keeps its rules whatever the string appended: when every level is
  accepted all of them are added. When one is refused, the filter left with the error obeys the rules
  still and holds the old levels and all new levels before the refused one, and the refused level is one
  that the rules (with the code's count of the length) do not allow behind these.
\<close>

theorem filter_append_invariant:
  assumes "filter_ok f"
  shows "case filter_append f s of
      (r, f') \<Rightarrow> filter_ok f' \<and>
        (case r of
           Inr _ \<Rightarrow> filter_pieces f' = filter_pieces f @ split_on TOPIC_LEVEL_SEPERATOR s
         | Inl _ \<Rightarrow>
             (\<exists>ks l ms. split_on TOPIC_LEVEL_SEPERATOR s = ks @ l # ms \<and>
                filter_pieces f' = filter_pieces f @ ks \<and>
                \<not> valid_levels (filter_pieces f @ ks @ [l])))"
  using filter_append_cases [OF assms, of s] by (auto split: sum.splits)

theorem filter_append_invariant_witness:
  "case filter_append \<lparr>filter_levels = [Path [0x61]], has_end_wildcard = False\<rparr> [0x23, 0x2F, 0x62] of
      (r, f') \<Rightarrow> filter_ok f' \<and> r = Inl CannotAppendToMultilevelWildcard \<and>
        filter_levels f' = [Path [0x61], MultiLevelSeperator]"
proof -
  let ?f = "\<lparr>filter_levels = [Path [0x61]], has_end_wildcard = False\<rparr>"
  have ok: "filter_ok ?f"
    by (simp add: filter_ok_def valid_levels_def filter_pieces_def canonical_level_def
        filter_level_ok_def name_level_ok_def topic_defs)
  have run: "filter_append ?f [0x23, 0x2F, 0x62] =
      (Inl CannotAppendToMultilevelWildcard,
       \<lparr>filter_levels = [Path [0x61], MultiLevelSeperator], has_end_wildcard = True\<rparr>)"
    by (simp add: topic_defs)
  show ?thesis using filter_append_invariant [OF ok, of "[0x23, 0x2F, 0x62]"] by (simp add: run)
qed

text \<open>
  C24. Matching a name against a filter never panics and misses no match of the specification:
  it holds when the filter matches as section 4.7 defines it, and beyond that exactly when the
  two have different numbers of levels and the levels that both have match.
\<close>

theorem topic_matches_exact:
  assumes "TopicFilterBuf_new fs = Inr f" and "TopicNameBuf_new ns = Inr n"
  shows "topic_matches n f =
    Return (mqtt_match (filter_levels f) (name_levels n) \<or>
      (let k = min (length (filter_levels f)) (length (name_levels n))
       in length (filter_levels f) \<noteq> length (name_levels n) \<and>
          mqtt_match (take k (filter_levels f)) (take k (name_levels n))))"
  using filter_new_SomeD [OF assms(1)]
    match_common_excess [of "filter_levels f" "name_levels n"]
  by (simp add: topic_matches_common match_common_def Let_def)

theorem topic_matches_exact_witness:
  "case (TopicFilterBuf_new [0x2B, 0x2F, 0x62], TopicNameBuf_new [0x61, 0x2F, 0x62]) of
     (Inr f, Inr n) \<Rightarrow> topic_matches n f = Return True
   | _ \<Rightarrow> False"
proof -
  have f: "TopicFilterBuf_new [0x2B, 0x2F, 0x62] =
      Inr \<lparr>filter_levels = [TopicLevelSeperator, Path [0x62]], has_end_wildcard = False\<rparr>"
    by (simp add: topic_defs)
  have n: "TopicNameBuf_new [0x61, 0x2F, 0x62] = Inr \<lparr>name_levels = [[0x61], [0x62]]\<rparr>"
    by (simp add: topic_defs)
  show ?thesis using topic_matches_exact [OF f n] by (simp add: f n Let_def)
qed

end
