(* ===== verification/Router.thy ===== *)
theory Router
  imports Topic Frame_Codec "HOL-Library.AList"
begin

text \<open>
  \<open>cloudmqtt/src/router.rs\<close>: the table of subscriptions and the task that hands incoming
  publishes to the subscribers. The two \<open>DashMap\<close>s are a map and an association list; the order
  in which a \<open>DashMap\<close> is iterated is not specified and is the parameter \<open>iter\<close> here, of
  which the proofs use only that it visits every entry. A sink is a handle of type \<open>'k\<close>, and
  what is sent into it is the value of the model; the result of the sending is not looked at by
  the code.
\<close>

section \<open>The table\<close>

type_synonym SubscriptionId = u64

record 'k Router =
  next_subscription_id :: u64
  subscriptions :: "SubscriptionId \<rightharpoonup> 'k"
  subscription_topics :: "(TopicFilterBuf \<times> SubscriptionId list) list"

definition Router_new :: "'k Router" where
  "Router_new = \<lparr>next_subscription_id = 0, subscriptions = Map.empty, subscription_topics = []\<rparr>"

text \<open>\<open>fetch_add\<close> returns the old value and wraps around.\<close>

definition add_subscription_sink :: "'k Router \<Rightarrow> 'k \<Rightarrow> SubscriptionId \<times> 'k Router" where
  "add_subscription_sink self sink =
     (let subscription_id = next_subscription_id self in
      (subscription_id,
       self\<lparr>next_subscription_id := subscription_id + 1,
            subscriptions := (subscriptions self)(subscription_id \<mapsto> sink)\<rparr>))"

text \<open>\<open>entry(key).or_default().push(value)\<close>\<close>

definition entry_push :: "'a \<Rightarrow> 'b \<Rightarrow> ('a \<times> 'b list) list \<Rightarrow> ('a \<times> 'b list) list" where
  "entry_push key v m =
     AList.update key (case map_of m key of None \<Rightarrow> [v] | Some vs \<Rightarrow> vs @ [v]) m"

definition add_subscription_to_topic ::
    "'k Router \<Rightarrow> SubscriptionId \<Rightarrow> rstr \<Rightarrow> 'k Router outcome" where
  "add_subscription_to_topic self subscription_id flt =
     (case TopicFilterBuf_new flt of
        Inl e \<Rightarrow> Panic
      | Inr key \<Rightarrow>
          Return (self\<lparr>subscription_topics :=
            entry_push key subscription_id (subscription_topics self)\<rparr>))"

section \<open>Routing a packet\<close>

text \<open>\<open>iter().find(..)\<close>: the first entry whose filter matches.\<close>

fun find_filter :: "TopicNameBuf \<Rightarrow> (TopicFilterBuf \<times> SubscriptionId list) list \<Rightarrow>
    SubscriptionId list option outcome" where
  "find_filter topic [] = Return None"
| "find_filter topic ((key, ids) # m) =
     (case topic_matches topic key of
        Panic \<Rightarrow> Panic
      | Return b \<Rightarrow> if b then Return (Some ids) else find_filter topic m)"

type_synonym dash_iter =
  "(TopicFilterBuf \<times> SubscriptionId list) list \<Rightarrow> (TopicFilterBuf \<times> SubscriptionId list) list"

text \<open>The body of the loop: the sends it performs, in order.\<close>

definition route_packet ::
    "dash_iter \<Rightarrow> 'k Router \<Rightarrow> MqttPacket \<Rightarrow> ('k \<times> MqttPacket) list outcome" where
  "route_packet iter self next_packet =
     (case next_packet of
        Publish publish \<Rightarrow>
          (case TopicNameBuf_new (pub_topic_name publish) of
             Inl e \<Rightarrow> Return []
           | Inr topic_name_buf \<Rightarrow>
               (case find_filter topic_name_buf (iter (subscription_topics self)) of
                  Panic \<Rightarrow> Panic
                | Return None \<Rightarrow> Return []
                | Return (Some subscription_ids) \<Rightarrow>
                    Return (List.map_filter
                      (\<lambda>i. case subscriptions self i of
                             None \<Rightarrow> None
                           | Some sender \<Rightarrow> Some (sender, next_packet)) subscription_ids)))
      | _ \<Rightarrow> Panic)"

lemmas router_defs [defs] =
  Router_new_def add_subscription_sink_def entry_push_def add_subscription_to_topic_def
  route_packet_def

section \<open>The router at work\<close>

text \<open>
  The task receives packets while other tasks add subscriptions. A panic ends the task, and no
  packet is routed after it. Beside the state of the code stand two logs of what was asked for, in
  the order in which it was: the sinks that were added, with the identifiers handed out for them, and
  the subscriptions of identifiers to filters.
\<close>

record 'k router_sys =
  sys_router :: "'k Router"
  sys_running :: bool
  sys_sent :: "('k \<times> MqttPacket) list"
  sys_sinks :: "(SubscriptionId \<times> 'k) list"
  sys_subscribed :: "(SubscriptionId \<times> TopicFilterBuf) list"

inductive router_step :: "dash_iter \<Rightarrow> 'k router_sys \<Rightarrow> 'k router_sys \<Rightarrow> bool" for iter where
  sink: "add_subscription_sink (sys_router s) k = (i, r) \<Longrightarrow>
    router_step iter s (s\<lparr>sys_router := r, sys_sinks := sys_sinks s @ [(i, k)]\<rparr>)"
| topic: "i \<in> dom (subscriptions (sys_router s)) \<Longrightarrow> TopicFilterBuf_new f = Inr key \<Longrightarrow>
    add_subscription_to_topic (sys_router s) i f = Return r \<Longrightarrow>
    router_step iter s (s\<lparr>sys_router := r, sys_subscribed := sys_subscribed s @ [(i, key)]\<rparr>)"
| route: "sys_running s \<Longrightarrow> route_packet iter (sys_router s) p = Return sends \<Longrightarrow>
    router_step iter s (s\<lparr>sys_sent := sys_sent s @ sends\<rparr>)"
| crash: "sys_running s \<Longrightarrow> route_packet iter (sys_router s) p = Panic \<Longrightarrow>
    router_step iter s (s\<lparr>sys_running := False\<rparr>)"

definition router_init :: "'k router_sys" where
  "router_init = \<lparr>sys_router = Router_new, sys_running = True, sys_sent = [],
     sys_sinks = [], sys_subscribed = []\<rparr>"

definition router_reachable :: "dash_iter \<Rightarrow> 'k router_sys \<Rightarrow> bool" where
  "router_reachable iter s \<longleftrightarrow> (router_step iter)\<^sup>*\<^sup>* router_init s"

inductive_cases router_stepE: "router_step iter s s'"

section \<open>Invariant\<close>

definition entry_ok :: "'k Router \<Rightarrow> TopicFilterBuf \<times> SubscriptionId list \<Rightarrow> bool" where
  "entry_ok r e \<longleftrightarrow>
     filter_ok (fst e) \<and> filter_levels (fst e) \<noteq> [] \<and> snd e \<noteq> [] \<and>
     set (snd e) \<subseteq> dom (subscriptions r)"

definition router_ok :: "'k Router \<Rightarrow> bool" where
  "router_ok r \<longleftrightarrow>
     distinct (map fst (subscription_topics r)) \<and> (\<forall>e \<in> set (subscription_topics r). entry_ok r e)"

lemma router_new_ok: "router_ok Router_new"
  by (simp add: router_ok_def Router_new_def)

lemma set_entry_push:
  "distinct (map fst m) \<Longrightarrow>
     set (entry_push k v m) =
       insert (k, (case map_of m k of None \<Rightarrow> [v] | Some vs \<Rightarrow> vs @ [v])) {e \<in> set m. fst e \<noteq> k}"
  unfolding entry_push_def by (induction m) (auto simp: rev_image_eqI split: if_splits)

lemma entry_push_distinct: "distinct (map fst m) \<Longrightarrow> distinct (map fst (entry_push k v m))"
  unfolding entry_push_def by (rule AList.distinct_update)

lemma map_of_entry_push:
  "map_of (entry_push k v m) = (map_of m)(k \<mapsto> (case map_of m k of None \<Rightarrow> [v] | Some vs \<Rightarrow> vs @ [v]))"
  by (simp add: entry_push_def update_conv')

lemma add_sink_ok:
  assumes "router_ok r" and "add_subscription_sink r k = (i, r')"
  shows "router_ok r'"
  using assms by (fastforce simp: add_subscription_sink_def router_ok_def entry_ok_def Let_def)

lemma add_topic_ok:
  assumes "router_ok r" and "i \<in> dom (subscriptions r)"
    and "add_subscription_to_topic r i f = Return r'"
  shows "router_ok r'"
proof -
  obtain key where key: "TopicFilterBuf_new f = Inr key"
    and r': "r' = r\<lparr>subscription_topics := entry_push key i (subscription_topics r)\<rparr>"
    using assms(3) by (auto simp: add_subscription_to_topic_def split: sum.splits)
  have "entry_ok r (key, case map_of (subscription_topics r) key of None \<Rightarrow> [i] | Some vs \<Rightarrow> vs @ [i])"
  proof (cases "map_of (subscription_topics r) key")
    case (Some vs)
    then have "entry_ok r (key, vs)"
      using assms(1) by (auto simp: router_ok_def dest: map_of_SomeD)
    with Some assms(2) show ?thesis by (auto simp: entry_ok_def)
  qed (use assms(2) filter_new_SomeD [OF key] in \<open>auto simp: entry_ok_def\<close>)
  then show ?thesis
    using assms(1) unfolding r'
    by (auto simp: router_ok_def set_entry_push entry_push_distinct entry_ok_def)
qed

lemma router_step_ok: "router_step iter s s' \<Longrightarrow> router_ok (sys_router s) \<Longrightarrow> router_ok (sys_router s')"
  by (erule router_step.cases) (auto intro: add_sink_ok add_topic_ok)

lemma router_reachable_ok: "router_reachable iter s \<Longrightarrow> router_ok (sys_router s)"
  unfolding router_reachable_def
  by (induction rule: rtranclp_induct)
    (simp_all add: router_init_def router_new_ok router_step_ok)

text \<open>The table holds for each filter the subscriptions to it, in their order, and the sinks.\<close>

definition subscribers :: "'k router_sys \<Rightarrow> TopicFilterBuf \<Rightarrow> SubscriptionId list" where
  "subscribers s key = map fst (filter (\<lambda>e. snd e = key) (sys_subscribed s))"

definition sink_of :: "'k router_sys \<Rightarrow> SubscriptionId \<rightharpoonup> 'k" where
  "sink_of s = map_of (rev (sys_sinks s))"

definition logs_ok :: "'k router_sys \<Rightarrow> bool" where
  "logs_ok s \<longleftrightarrow>
     subscriptions (sys_router s) = sink_of s \<and>
     (\<forall>key. map_of (subscription_topics (sys_router s)) key =
        (if subscribers s key = [] then None else Some (subscribers s key)))"

lemma router_step_logs:
  assumes "router_step iter s s'" and "logs_ok s"
  shows "logs_ok s'"
  using assms
proof (cases rule: router_step.cases)
  case (topic i f key r)
  then have "r = (sys_router s)\<lparr>subscription_topics := entry_push key i (subscription_topics (sys_router s))\<rparr>"
    by (simp add: add_subscription_to_topic_def)
  with topic(1) assms(2) show ?thesis
    by (auto simp: logs_ok_def sink_of_def subscribers_def map_of_entry_push)
qed (auto simp: logs_ok_def sink_of_def subscribers_def add_subscription_sink_def Let_def)

lemma router_reachable_logs: "router_reachable iter s \<Longrightarrow> logs_ok s"
  unfolding router_reachable_def
proof (induction rule: rtranclp_induct)
  case base
  show ?case by (simp add: logs_ok_def sink_of_def subscribers_def router_init_def Router_new_def)
qed (rule router_step_logs)

section \<open>What is delivered\<close>

text \<open>The filter of an entry matches, as the code decides it.\<close>

definition entry_matches :: "TopicNameBuf \<Rightarrow> TopicFilterBuf \<times> 'b \<Rightarrow> bool" where
  "entry_matches n e \<longleftrightarrow> topic_matches n (fst e) = Return True"

text \<open>Every subscriber in the list is sent the packet, in the order of subscribing.\<close>

definition send_all :: "'k Router \<Rightarrow> MqttPacket \<Rightarrow> SubscriptionId list \<Rightarrow> ('k \<times> MqttPacket) list" where
  "send_all r p ids = map (\<lambda>i. (the (subscriptions r i), p)) ids"

lemma find_unique:
  assumes "e \<in> set m" and "P e" and "\<And>f. f \<in> set m \<Longrightarrow> P f \<Longrightarrow> f = e"
  shows "find P m = Some e"
proof (cases "find P m")
  case None
  with assms(1,2) show ?thesis by (auto simp: find_None_iff)
next
  case (Some f)
  then have "f \<in> set m" "P f" by (auto simp: find_Some_iff)
  with Some assms(3) show ?thesis by simp
qed

lemma find_filter_cases:
  assumes "\<And>e. e \<in> set m \<Longrightarrow> filter_levels (fst e) \<noteq> []"
  shows "find_filter n m = Return (map_option snd (find (entry_matches n) m))"
  using assms
proof (induction m)
  case (Cons e m)
  obtain key ids where e: "e = (key, ids)" by fastforce
  have "filter_levels key \<noteq> []" using Cons.prems [of e] e by simp
  then show ?case
    using Cons by (simp add: e topic_matches_common entry_matches_def)
qed simp

lemma send_all_filter:
  "set ids \<subseteq> dom (subscriptions r) \<Longrightarrow>
     List.map_filter (\<lambda>i. case subscriptions r i of None \<Rightarrow> None | Some s \<Rightarrow> Some (s, p)) ids =
     send_all r p ids"
  by (induction ids) (auto simp: send_all_def List.map_filter_simps)

lemma route_publish:
  assumes "router_ok r" and "\<And>m. set (iter m) = set m"
    and "TopicNameBuf_new (pub_topic_name p) = Inr n"
  shows "route_packet iter r (Publish p) =
    Return (case find (entry_matches n) (iter (subscription_topics r)) of
              None \<Rightarrow> [] | Some e \<Rightarrow> send_all r (Publish p) (snd e))"
proof -
  have ok: "\<And>e. e \<in> set (iter (subscription_topics r)) \<Longrightarrow> entry_ok r e"
    using assms(1,2) by (simp add: router_ok_def)
  then have found: "find_filter n (iter (subscription_topics r)) =
      Return (map_option snd (find (entry_matches n) (iter (subscription_topics r))))"
    by (intro find_filter_cases) (auto simp: entry_ok_def)
  show ?thesis
  proof (cases "find (entry_matches n) (iter (subscription_topics r))")
    case None
    with found assms(3) show ?thesis by (simp add: route_packet_def)
  next
    case (Some e)
    then have "e \<in> set (iter (subscription_topics r))"
      by (auto simp: find_Some_iff)
    then have "set (snd e) \<subseteq> dom (subscriptions r)"
      using ok by (simp add: entry_ok_def)
    with found assms(3) Some show ?thesis by (simp add: route_packet_def send_all_filter)
  qed
qed

lemma route_publish_invalid:
  "TopicNameBuf_new (pub_topic_name p) = Inl e \<Longrightarrow> route_packet iter r (Publish p) = Return []"
  by (simp add: route_packet_def)

lemma route_publish_Return:
  assumes "router_ok r" and "\<And>m. set (iter m) = set m"
  shows "\<exists>sends. route_packet iter r (Publish p) = Return sends"
  using route_publish [OF assms, of p] route_publish_invalid [of p _ iter r]
  by (cases "TopicNameBuf_new (pub_topic_name p)") auto

text \<open>The entries of the table are the filters that were subscribed to.\<close>

definition asked_filters :: "'k router_sys \<Rightarrow> TopicFilterBuf set" where
  "asked_filters s = snd ` set (sys_subscribed s)"

lemma subscribers_Nil: "subscribers s key = [] \<longleftrightarrow> key \<notin> asked_filters s"
  by (auto simp: subscribers_def asked_filters_def filter_empty_conv)

lemma logged_entries:
  assumes "router_reachable iter s"
  shows "e \<in> set (subscription_topics (sys_router s)) \<longleftrightarrow>
    fst e \<in> asked_filters s \<and> snd e = subscribers s (fst e)"
proof -
  have d: "distinct (map fst (subscription_topics (sys_router s)))"
    using router_reachable_ok [OF assms] by (simp add: router_ok_def)
  have "map_of (subscription_topics (sys_router s)) (fst e) =
      (if fst e \<in> asked_filters s then Some (subscribers s (fst e)) else None)"
    using router_reachable_logs [OF assms] by (simp add: logs_ok_def subscribers_Nil)
  then show ?thesis using map_of_eq_Some_iff [OF d, of "fst e" "snd e"] by (auto split: if_splits)
qed

lemma router_delivers_logged:
  assumes "router_reachable iter s" and "\<And>m. set (iter m) = set m"
    and "TopicNameBuf_new (pub_topic_name p) = Inr n"
  shows "if \<exists>f \<in> asked_filters s. topic_matches n f = Return True
    then \<exists>f \<in> asked_filters s. topic_matches n f = Return True \<and>
      route_packet iter (sys_router s) (Publish p) =
        Return (map (\<lambda>i. (the (sink_of s i), Publish p)) (subscribers s f))
    else route_packet iter (sys_router s) (Publish p) = Return []"
proof -
  note route = route_publish [OF router_reachable_ok [OF assms(1)] assms(2,3)]
  note entries = logged_entries [OF assms(1)]
  have sinks: "subscriptions (sys_router s) = sink_of s"
    using router_reachable_logs [OF assms(1)] by (simp add: logs_ok_def)
  show ?thesis
  proof (cases "find (entry_matches n) (iter (subscription_topics (sys_router s)))")
    case None
    have "topic_matches n f \<noteq> Return True" if "f \<in> asked_filters s" for f
    proof -
      have "(f, subscribers s f) \<in> set (subscription_topics (sys_router s))" using that entries by simp
      with None assms(2) show ?thesis by (auto simp: find_None_iff entry_matches_def)
    qed
    then show ?thesis using route by (auto simp: None)
  next
    case (Some e)
    then have e: "e \<in> set (subscription_topics (sys_router s))" "entry_matches n e"
      using assms(2) by (auto simp: find_Some_iff dest: nth_mem)
    then have f: "fst e \<in> asked_filters s" "topic_matches n (fst e) = Return True"
      using entries [of e] by (auto simp: entry_matches_def)
    have "\<exists>f \<in> asked_filters s. topic_matches n f = Return True" using f by blast
    moreover have "route_packet iter (sys_router s) (Publish p) =
        Return (map (\<lambda>i. (the (sink_of s i), Publish p)) (subscribers s (fst e)))"
      using route entries [of e] e(1) by (simp add: Some send_all_def sinks)
    ultimately show ?thesis using f by (simp only: if_True) blast
  qed
qed

section \<open>Properties\<close>

definition example_filter :: TopicFilterBuf where
  "example_filter = \<lparr>filter_levels = [Path [0x61], TopicLevelSeperator], has_end_wildcard = False\<rparr>"

definition example_filter2 :: TopicFilterBuf where
  "example_filter2 = \<lparr>filter_levels = [Path [0x61], Path [0x62]], has_end_wildcard = False\<rparr>"

definition example_message :: MPublish where
  "example_message =
     \<lparr>pub_duplicate = False, pub_quality_of_service = AtMostOnce, pub_retain = False,
      pub_topic_name = [0x61, 0x2F, 0x62], pub_packet_identifier = None,
      pub_properties = props_new PublishProperties, pub_payload = []\<rparr>"

definition example_router :: "nat Router" where
  "example_router =
     \<lparr>next_subscription_id = 2, subscriptions = [0 \<mapsto> 7, 1 \<mapsto> 8],
      subscription_topics = [(example_filter, [0]), (example_filter2, [1])]\<rparr>"

text \<open>
  Two filters match the message. Which one the iteration meets first decides who gets it, and
  the subscriber of the other one never does.
\<close>

lemma router_first_match_example:
  "route_packet id example_router (Publish example_message) = Return [(7, Publish example_message)] \<and>
   route_packet rev example_router (Publish example_message) = Return [(8, Publish example_message)]"
  by (simp add: example_router_def example_filter_def example_filter2_def example_message_def
      route_packet_def topic_defs List.map_filter_simps)

lemma example_topic:
  "TopicFilterBuf_new [0x61, 0x2F, 0x2B] = Inr example_filter"
  "TopicNameBuf_new (pub_topic_name example_message) = Inr \<lparr>name_levels = [[0x61], [0x62]]\<rparr>"
  by (simp_all add: example_filter_def example_message_def topic_defs)

text \<open>One subscriber with two subscriptions to one filter.\<close>

definition example_system :: "nat router_sys" where
  "example_system =
     \<lparr>sys_router = \<lparr>next_subscription_id = 2, subscriptions = [0 \<mapsto> 7, 1 \<mapsto> 8],
        subscription_topics = [(example_filter, [1, 0, 1])]\<rparr>,
      sys_running = True, sys_sent = [], sys_sinks = [(0, 7), (1, 8)],
      sys_subscribed = [(1, example_filter), (0, example_filter), (1, example_filter)]\<rparr>"

lemma example_reachable: "router_reachable id example_system"
proof -
  define st where "st ids log =
     \<lparr>sys_router = \<lparr>next_subscription_id = 2, subscriptions = [0 \<mapsto> 7, 1 \<mapsto> (8 :: nat)],
        subscription_topics = (if ids = [] then [] else [(example_filter, ids)])\<rparr>,
      sys_running = True, sys_sent = [], sys_sinks = [(0, 7), (1, 8)], sys_subscribed = log\<rparr>" for ids log
  define s1 where "s1 = \<lparr>sys_router = \<lparr>next_subscription_id = 1, subscriptions = [0 \<mapsto> (7 :: nat)], subscription_topics = []\<rparr>,
       sys_running = True, sys_sent = [], sys_sinks = [(0, 7)], sys_subscribed = []\<rparr>"
  have "router_step id router_init s1"
    using router_step.sink [of router_init "7 :: nat" 0 _ id]
    by (simp add: router_init_def Router_new_def add_subscription_sink_def Let_def s1_def)
  moreover have "router_step id s1 (st [] [])"
    using router_step.sink [of s1 "8 :: nat" 1 _ id]
    by (simp add: s1_def st_def add_subscription_sink_def Let_def)
  moreover have "router_step id (st ids log) (st (ids @ [i]) (log @ [(i, example_filter)]))"
    if "i = 0 \<or> i = 1" for i ids log
    using that router_step.topic [of i "st ids log" "[0x61, 0x2F, 0x2B]" example_filter _ id]
    by (auto simp: st_def add_subscription_to_topic_def example_topic entry_push_def)
  from this [of 1 "[]" "[]"] this [of 0 "[1]" "[(1, example_filter)]"]
    this [of 1 "[1, 0]" "[(1, example_filter), (0, example_filter)]"]
  have "router_step id (st [] []) (st [1] [(1, example_filter)])"
    "router_step id (st [1] [(1, example_filter)]) (st [1, 0] [(1, example_filter), (0, example_filter)])"
    "router_step id (st [1, 0] [(1, example_filter), (0, example_filter)]) example_system"
    by (simp_all add: st_def example_system_def)
  ultimately show ?thesis unfolding router_reachable_def by (meson rtranclp.rtrancl_refl rtranclp.rtrancl_into_rtrancl)
qed

text \<open>
  C25. In a router that started empty, routing a publish never panics. One whose topic is no
  topic name the code accepts is sent to nobody, nor is one whose topic no filter matches that was
  subscribed to; otherwise there is a matching filter whose subscribers, and only they, are sent the
  packet, once for each time they subscribed to it and in the order in which they did.
\<close>

theorem router_delivers:
  assumes "router_reachable iter s" and "\<And>m. set (iter m) = set m"
  shows "case TopicNameBuf_new (pub_topic_name p) of
      Inl e \<Rightarrow> route_packet iter (sys_router s) (Publish p) = Return []
    | Inr n \<Rightarrow>
        if \<exists>f \<in> snd ` set (sys_subscribed s). topic_matches n f = Return True
        then \<exists>f \<in> snd ` set (sys_subscribed s). topic_matches n f = Return True \<and>
          route_packet iter (sys_router s) (Publish p) =
            Return (map (\<lambda>(i, _). (the (map_of (rev (sys_sinks s)) i), Publish p))
              (filter (\<lambda>(_, g). g = f) (sys_subscribed s)))
        else route_packet iter (sys_router s) (Publish p) = Return []"
proof (cases "TopicNameBuf_new (pub_topic_name p)")
  case (Inl e)
  then show ?thesis by (simp add: route_publish_invalid)
next
  case (Inr n)
  from router_delivers_logged [OF assms Inr] show ?thesis
    unfolding Inr sum.case subscribers_def sink_of_def asked_filters_def map_map comp_def case_prod_unfold .
qed

theorem router_delivers_witness:
  "route_packet id (sys_router example_system) (Publish example_message) =
     Return [(8, Publish example_message), (7, Publish example_message), (8, Publish example_message)]"
proof -
  have "topic_matches \<lparr>name_levels = [[0x61], [0x62]]\<rparr> example_filter = Return True"
    by (simp add: example_filter_def topic_matches_def filter_first_def)
  then show ?thesis
    using router_delivers [OF example_reachable, of example_message]
    by (simp add: example_topic) (simp add: example_system_def)
qed

text \<open>
  Subscribing works: after a sink has been added and subscribed to a filter that matches
  the topic, and no other filter matches it, a publish on the topic is sent into the sink.
\<close>

lemma subscriber_receives:
  assumes "router_reachable iter s" and "\<And>m. set (iter m) = set m"
    and "add_subscription_sink (sys_router s) k = (i, r)"
    and "add_subscription_to_topic r i f = Return r'"
    and "TopicFilterBuf_new f = Inr key" and "TopicNameBuf_new (pub_topic_name p) = Inr n"
    and "topic_matches n key = Return True"
    and "\<And>e. e \<in> set (subscription_topics (sys_router s)) \<Longrightarrow> entry_matches n e \<Longrightarrow> fst e = key"
  shows "\<exists>sends. route_packet iter r' (Publish p) = Return sends \<and> (k, Publish p) \<in> set sends"
proof -
  have ok: "router_ok r"
    using router_reachable_ok [OF assms(1)] assms(3) by (rule add_sink_ok)
  have r: "subscription_topics r = subscription_topics (sys_router s)" "subscriptions r i = Some k"
    using assms(3) by (auto simp: add_subscription_sink_def Let_def)
  then have ok': "router_ok r'"
    using add_topic_ok [OF ok _ assms(4)] by blast
  define ids where "ids = (case map_of (subscription_topics r) key of None \<Rightarrow> [i] | Some vs \<Rightarrow> vs @ [i])"
  have r': "subscriptions r' i = Some k"
    "set (subscription_topics r') = insert (key, ids) {e \<in> set (subscription_topics r). fst e \<noteq> key}"
    using assms(4,5) r(2) ok
    by (auto simp: add_subscription_to_topic_def set_entry_push router_ok_def ids_def)
  have "i \<in> set ids" by (simp add: ids_def split: option.split)
  have only: "e = (key, ids)" if "e \<in> set (iter (subscription_topics r'))" "entry_matches n e" for e
    using that(1) assms(2) assms(8) [OF _ that(2)] r' r by auto
  have mem: "(key, ids) \<in> set (iter (subscription_topics r'))" "entry_matches n (key, ids)"
    using assms(2,7) r' by (simp_all add: entry_matches_def)
  have "find (entry_matches n) (iter (subscription_topics r')) = Some (key, ids)"
    using mem only by (rule find_unique)
  then show ?thesis
    using route_publish [OF ok' assms(2,6)] \<open>i \<in> set ids\<close> r' by (force simp: send_all_def)
qed

end
