(* ===== verification/Cloudmqtt_Client.thy ===== *)
theory Cloudmqtt_Client
  imports Core_Client Router
begin

text \<open>
  \<open>cloudmqtt/src/lib.rs\<close>: the client a program uses, a \<open>CoreClient\<close> and a \<open>Router\<close>
  together: publishing, and subscribing through the builder. \<open>AsRef\<close> conversions are the
  values they give; a sink is a handle, as in theory Router.
\<close>

section \<open>The client\<close>

record ('s, 'k) CloudmqttClient =
  core_client :: "'s core"
  router :: "'k Router"

definition CloudmqttClient_new :: "'s \<Rightarrow> ('s, 'k) CloudmqttClient" where
  "CloudmqttClient_new pis = \<lparr>core_client = core_new pis, router = Router_new\<rparr>"

definition CloudmqttClient_new_from_connection :: "'s \<Rightarrow> io \<Rightarrow> ('s, 'k) CloudmqttClient" where
  "CloudmqttClient_new_from_connection pis connection =
     \<lparr>core_client = core_new_and_connect pis connection, router = Router_new\<rparr>"

text \<open>
  \<open>lookup_host\<close> and \<open>TcpStream::connect\<close> are parameters; each \<open>expect\<close> panics. Waiting for
  shutdown is waiting for a future that is never ready.
\<close>

definition CloudmqttClient_new_with_address ::
    "(rstr \<Rightarrow> 'addr list option) \<Rightarrow> ('addr \<Rightarrow> io option) \<Rightarrow> 's \<Rightarrow> rstr \<Rightarrow> ('s, 'k) CloudmqttClient outcome" where
  "CloudmqttClient_new_with_address lookup_host tcp_connect pis address =
     (case lookup_host address of
        None \<Rightarrow> Panic
      | Some [] \<Rightarrow> Panic
      | Some (socket # _) \<Rightarrow>
          (case tcp_connect socket of
             None \<Rightarrow> Panic
           | Some connection \<Rightarrow> Return (CloudmqttClient_new_from_connection pis connection)))"

definition wait_for_shutdown :: "('s, 'k) CloudmqttClient \<Rightarrow> unit option" where
  "wait_for_shutdown self = None"

definition cloud_connect :: "('s, 'k) CloudmqttClient \<Rightarrow> io \<Rightarrow> (core_error + unit) \<times> ('s, 'k) CloudmqttClient" where
  "cloud_connect self connection =
     (case core_connect (core_client self) connection of (r, c) \<Rightarrow> (r, self\<lparr>core_client := c\<rparr>))"

section \<open>Publishing\<close>

definition cloud_publish_packet :: "bytes \<Rightarrow> rstr \<Rightarrow> MPublish" where
  "cloud_publish_packet message topic =
     \<lparr>pub_duplicate = False, pub_quality_of_service = AtMostOnce, pub_retain = False,
      pub_topic_name = topic, pub_packet_identifier = None,
      pub_properties = props_new PublishProperties, pub_payload = message\<rparr>"

text \<open>\<open>None\<close> stands for a call that waits for room in the channel, as in \<open>core_send\<close>.\<close>

definition cloud_publish :: "winnow \<Rightarrow> ('s, 'k) CloudmqttClient \<Rightarrow> bytes \<Rightarrow> rstr \<Rightarrow>
    ((core_error + unit) \<times> ('s, 'k) CloudmqttClient) option outcome" where
  "cloud_publish W self message topic =
     (case MqttPacket_new W (Publish (cloud_publish_packet message topic)) of
        Panic \<Rightarrow> Panic
      | Return packet \<Rightarrow>
          Return (map_option (\<lambda>(r, c). (r, self\<lparr>core_client := c\<rparr>)) (core_publish (core_client self) packet)))"

section \<open>Subscribing\<close>

text \<open>A builder is its list of filters; the client it belongs to is an argument of \<open>build\<close>.\<close>

type_synonym SubscriptionBuilder = "rstr list"

definition with_subscription :: "SubscriptionBuilder \<Rightarrow> rstr \<Rightarrow> SubscriptionBuilder" where
  "with_subscription topic_filters flt = topic_filters @ [flt]"

definition builder_subscription :: "rstr \<Rightarrow> Subscription" where
  "builder_subscription flt =
     \<lparr>topic_filter = flt,
      options = \<lparr>so_quality_of_service = AtMostOnce, so_no_local = True, so_retain_as_published = True,
        so_retain_handling = SendRetainedMessagesAlways\<rparr>\<rparr>"

text \<open>The bytes of the subscriptions; \<open>unwrap\<close> panics on the first that cannot be written.\<close>

definition builder_buffer :: "rstr list \<Rightarrow> bytes outcome" where
  "builder_buffer topic_filters =
     (case w_seq (map (\<lambda>flt. Subscription_write (builder_subscription flt)) topic_filters) [] of
        (WOk, bytes) \<Rightarrow> Return bytes
      | _ \<Rightarrow> Panic)"

definition Subscriptions_parse_complete :: "winnow \<Rightarrow> bytes \<Rightarrow> err_mode + bytes" where
  "Subscriptions_parse_complete W input =
     (case Subscriptions_parse W input of POk s r \<Rightarrow> Inr s | PErr e \<Rightarrow> Inl e)"

definition builder_packet :: "bytes \<Rightarrow> MSubscribe" where
  "builder_packet subs =
     \<lparr>sub_packet_identifier = 1, sub_properties = props_new SubscribeProperties, sub_subscriptions = subs\<rparr>"

text \<open>The loop over the filters; what was added before a panic stays in the shared table.\<close>

fun add_topics :: "'k Router \<Rightarrow> SubscriptionId \<Rightarrow> rstr list \<Rightarrow> unit outcome \<times> 'k Router" where
  "add_topics r i [] = (Return (), r)"
| "add_topics r i (flt # flts) =
     (case add_subscription_to_topic r i flt of
        Panic \<Rightarrow> (Panic, r)
      | Return r' \<Rightarrow> add_topics r' i flts)"

text \<open>\<open>SubscriptionBuilder::build\<close>; \<open>sink\<close> is the sender of the new channel.\<close>

definition builder_build :: "winnow \<Rightarrow> ('s, 'k) CloudmqttClient \<Rightarrow> rstr list \<Rightarrow> 'k \<Rightarrow>
    (core_error + SubscriptionId) option outcome \<times> ('s, 'k) CloudmqttClient" where
  "builder_build W self topic_filters sink =
     (case builder_buffer topic_filters of
        Panic \<Rightarrow> (Panic, self)
      | Return buf \<Rightarrow>
          (case Subscriptions_parse_complete W buf of
             Inl e \<Rightarrow> (Panic, self)
           | Inr subs \<Rightarrow>
               (case MqttPacket_new W (Subscribe (builder_packet subs)) of
                  Panic \<Rightarrow> (Panic, self)
                | Return packet \<Rightarrow>
                    (case core_subscribe (core_client self) packet of
                       None \<Rightarrow> (Return None, self)
                     | Some (Inl e, c) \<Rightarrow> (Return (Some (Inl e)), self\<lparr>core_client := c\<rparr>)
                     | Some (Inr _, c) \<Rightarrow>
                         (case add_subscription_sink (router self) sink of
                            (subscription_id, r) \<Rightarrow>
                              (case add_topics r subscription_id topic_filters of
                                 (Panic, r') \<Rightarrow> (Panic, self\<lparr>core_client := c, router := r'\<rparr>)
                               | (Return _, r') \<Rightarrow>
                                   (Return (Some (Inr subscription_id)), self\<lparr>core_client := c, router := r'\<rparr>)))))))"

definition cloud_subscribe :: "winnow \<Rightarrow> ('s, 'k) CloudmqttClient \<Rightarrow> rstr \<Rightarrow> 'k \<Rightarrow>
    (core_error + SubscriptionId) option outcome \<times> ('s, 'k) CloudmqttClient" where
  "cloud_subscribe W self flt sink = builder_build W self (with_subscription [] flt) sink"

lemmas cloud_defs [defs] =
  CloudmqttClient_new_def CloudmqttClient_new_from_connection_def CloudmqttClient_new_with_address_def
  wait_for_shutdown_def cloud_connect_def
  cloud_publish_packet_def cloud_publish_def with_subscription_def builder_subscription_def builder_buffer_def
  Subscriptions_parse_complete_def builder_packet_def builder_build_def cloud_subscribe_def

section \<open>Lemmas\<close>

definition enc_filters :: "rstr list \<Rightarrow> bytes" where
  "enc_filters flts = concat (map (\<lambda>flt. enc_sub (builder_subscription flt)) flts)"

text \<open>The subscription is entered under each of the filters.\<close>

definition subscribed :: "'k Router \<Rightarrow> SubscriptionId \<Rightarrow> rstr \<Rightarrow> bool" where
  "subscribed r i flt \<longleftrightarrow>
     (case TopicFilterBuf_new flt of
        Inl e \<Rightarrow> False
      | Inr key \<Rightarrow> (case map_of (subscription_topics r) key of None \<Rightarrow> False | Some ids \<Rightarrow> i \<in> set ids))"

lemma topic_filter_builder [simp]: "topic_filter (builder_subscription flt) = flt"
  by (simp add: builder_subscription_def)

lemma add_subscription_to_topic_cases:
  "case add_subscription_to_topic r i flt of
     Return r' \<Rightarrow> accepted_filter flt \<and> subscribed r' i flt \<and> subscriptions r' = subscriptions r \<and>
       (\<forall>g. subscribed r i g \<longrightarrow> subscribed r' i g)
   | Panic \<Rightarrow> \<not> accepted_filter flt"
  using filter_new_cases [of flt]
  by (auto simp: add_subscription_to_topic_def subscribed_def map_of_entry_push
      split: sum.splits option.splits)

lemma add_topics_cases:
  "case add_topics r i flts of
     (Return _, r') \<Rightarrow> list_all accepted_filter flts \<and> list_all (subscribed r' i) flts \<and>
       subscriptions r' = subscriptions r \<and> (\<forall>g. subscribed r i g \<longrightarrow> subscribed r' i g)
   | (Panic, r') \<Rightarrow> \<not> list_all accepted_filter flts"
proof (induction flts arbitrary: r)
  case (Cons flt flts)
  show ?case
  proof (cases "add_subscription_to_topic r i flt")
    case (Return r')
    then show ?thesis
      using Cons.IH [of r'] add_subscription_to_topic_cases [where r = r and i = i and flt = flt]
      by (auto split: outcome.splits prod.splits)
  next
    case Panic
    then show ?thesis using add_subscription_to_topic_cases [where r = r and i = i and flt = flt] by simp
  qed
qed simp

context winnow_spec begin

lemma builder_buffer_enc:
  "list_all str_ok flts \<Longrightarrow> builder_buffer flts = Return (enc_filters flts)"
proof -
  assume "list_all str_ok flts"
  then have "writes (w_seq (map Subscription_write (map builder_subscription flts)))
      (concat (map enc_sub (map builder_subscription flts)))"
    by (intro writes_map subs.item_write_enc) (auto simp: list_all_iff)
  then show ?thesis by (simp add: builder_buffer_def enc_filters_def writesD comp_def)
qed

lemma builder_slice_ok:
  "list_all str_ok flts \<Longrightarrow> flts \<noteq> [] \<Longrightarrow> slice_ok (Subscription_parse W) (enc_filters flts)"
  using subs.slice_ok_concat [of "map builder_subscription flts"]
  by (auto simp: enc_filters_def list_all_iff comp_def)

lemma builder_packet_ok:
  assumes "list_all str_ok flts" and "flts \<noteq> []" and "length (enc_filters flts) \<le> 268435452"
  shows "packet_ok W (Subscribe (builder_packet (enc_filters flts)))"
  using builder_slice_ok [OF assms(1,2)] assms(3)
  by (simp add: packet_ok_def subscribe_ok_def builder_packet_def SubscribeProperties_def
      enc_subscribe_def fits_def)

lemma builder_empty: "builder_build W self [] sink = (Panic, self)"
proof -
  have "Subscriptions_parse W [] \<noteq> POk x r" for x r
    using subs.slice_parse_sound [of "[]" x r]
    by (auto simp: Subscriptions_parse_def slice_ok_def slice_iter_def)
  then show ?thesis
    by (cases "Subscriptions_parse W []")
      (auto simp: builder_build_def builder_buffer_def Subscriptions_parse_complete_def)
qed

lemma builder_build_exact:
  assumes "list_all str_ok flts" and "flts \<noteq> []" and "length (enc_filters flts) \<le> 268435452"
  shows "case core_subscribe (core_client self)
      (packet_canon W (Subscribe (builder_packet (enc_filters flts)))) of
    None \<Rightarrow> builder_build W self flts sink = (Return None, self)
  | Some (Inl e, c) \<Rightarrow> builder_build W self flts sink = (Return (Some (Inl e)), self\<lparr>core_client := c\<rparr>)
  | Some (Inr _, c) \<Rightarrow>
      (case builder_build W self flts sink of (r, self') \<Rightarrow>
        core_client self' = c \<and>
        (if list_all accepted_filter flts
         then r = Return (Some (Inr (next_subscription_id (router self)))) \<and>
           subscriptions (router self') (next_subscription_id (router self)) = Some sink \<and>
           list_all (subscribed (router self') (next_subscription_id (router self))) flts
         else r = Panic))"
proof -
  have p: "Subscriptions_parse_complete W (enc_filters flts) = Inr (enc_filters flts)"
    using subs.slice_parse_enc [OF builder_slice_ok [OF assms(1,2)]]
    by (simp add: Subscriptions_parse_complete_def Subscriptions_parse_def)
  obtain i r where s: "add_subscription_sink (router self) sink = (i, r)"
    and i: "i = next_subscription_id (router self)" "subscriptions r i = Some sink"
    by (simp add: add_subscription_sink_def Let_def)
  have b: "builder_build W self flts sink =
      (case core_subscribe (core_client self)
          (packet_canon W (Subscribe (builder_packet (enc_filters flts)))) of
         None \<Rightarrow> (Return None, self)
       | Some (Inl e, c) \<Rightarrow> (Return (Some (Inl e)), self\<lparr>core_client := c\<rparr>)
       | Some (Inr _, c) \<Rightarrow>
           (case add_topics r i flts of
              (Panic, r') \<Rightarrow> (Panic, self\<lparr>core_client := c, router := r'\<rparr>)
            | (Return _, r') \<Rightarrow> (Return (Some (Inr i)), self\<lparr>core_client := c, router := r'\<rparr>)))"
    by (simp add: builder_build_def builder_buffer_enc [OF assms(1)] p s
        MqttPacket_new_ok [OF builder_packet_ok [OF assms(1-3)]] split: option.split sum.split)
  show ?thesis
    using add_topics_cases [where r = r and i = i and flts = flts] i
    by (auto simp: b split: outcome.splits prod.splits option.splits sum.splits)
qed

text \<open>A filter that is too long for a string of MQTT panics in the loop that fills the buffer.\<close>

lemma w_seq_fails:
  assumes "w \<in> set ws" and "\<forall>b. fst (w b) \<noteq> WOk"
  shows "fst (w_seq ws buf) \<noteq> WOk"
  using assms(1)
proof (induction ws arbitrary: buf)
  case (Cons v ws)
  obtain c b where v: "v buf = (c, b)" by fastforce
  have "v \<noteq> w \<or> c \<noteq> WOk" using assms(2) v by (metis fst_conv)
  with Cons show ?case by (cases c) (auto simp: v)
qed simp

lemma builder_long_panics:
  assumes "\<not> list_all (\<lambda>flt. length flt \<le> 65535) flts"
  shows "builder_build W self flts sink = (Panic, self)"
proof -
  obtain flt where flt: "flt \<in> set flts" "\<not> length flt \<le> 65535" using assms by (auto simp: list_all_iff)
  have "\<forall>b. fst (Subscription_write (builder_subscription flt) b) \<noteq> WOk"
    using flt(2) by (simp add: Subscription_write_def write_string_def u16_try_from_def w_fail_def)
  then have "fst (w_seq (map (\<lambda>flt. Subscription_write (builder_subscription flt)) flts) []) \<noteq> WOk"
    using flt(1) by (intro w_seq_fails) auto
  then have "builder_buffer flts = Panic"
    by (auto simp: builder_buffer_def split: prod.splits wresult.splits)
  then show ?thesis by (simp add: builder_build_def)
qed

text \<open>A message, from the call of \<open>publish\<close> to the bytes on the connection.\<close>

lemma props_canon_new [simp]: "props_canon W (props_new ks) = props_new ks"
  by (induction ks) (simp_all add: props_new_def)

lemma cloud_publish_canon [simp]:
  "publish_canon W (cloud_publish_packet message topic) = cloud_publish_packet message topic"
  by (simp add: publish_canon_def cloud_publish_packet_def)

lemma cloud_publish_ok:
  assumes "str_ok topic" and "0x23 \<notin> set topic" and "0x2A \<notin> set topic"
    and "length topic + length message \<le> 268435452"
  shows "packet_ok W (Publish (cloud_publish_packet message topic))"
  using assms sanity_check_bytes [of topic]
  by (simp add: packet_ok_def publish_ok_def cloud_publish_packet_def str_ok_def opt_ok_def
      enc_publish_def enc_opt_def fits_def)

lemma packet_canon_ok: "packet_ok W p \<Longrightarrow> packet_ok W (packet_canon W p)"
  using packet.parse_enc [of p "[]"] MqttPacket_parse_sound by blast

end

context core_contract begin

lemma message_received:
  assumes "inv (client_pis m)" and "connection_state m = Connected con" and "router_open out"
    and "packet_ok W (Publish p)" and "pub_quality_of_service p = AtMostOnce"
  shows "\<exists>q m'. decode W (enc_packet W (Publish p) @ r) = (Return (Inr (Some (Publish q))), r) \<and>
    connection_incoming W S fx now m out (Publish q) =
      Return (m', out\<lparr>to_router := to_router out @ [packet_canon W (Publish q)]\<rparr>) \<and>
    q = publish_canon W p"
proof -
  have ok: "packet_ok W (Publish (publish_canon W p))"
    using packet_canon_ok [OF assms(4)] by simp
  have "core_accepts con (used (client_pis m)) (Publish (publish_canon W p))"
    using assms(5) by (simp add: publish_canon_def)
  then show ?thesis
    using connection_incoming_exact [OF assms(1,2) ok assms(3), of fx now] decode_enc [OF assms(4), of r]
    by (auto split: outcome.splits)
qed

end

section \<open>Properties\<close>

definition example_client :: "(UsizeStore, nat) CloudmqttClient" where
  "example_client = CloudmqttClient_new_from_connection UsizeStore_new example_io"

definition example_idle_fsm :: "UsizeStore fsm" where
  "example_idle_fsm =
     \<lparr>data = \<lparr>keep_alive = 0, client_id_hash = Some 7, last_time_run = 3\<rparr>,
      connection_state = Connected example_data, client_pis = UsizeStore_new\<rparr>"

lemma example_client_connected:
  "core_state (core_client example_client) = ConnectedTo 0"
  "receiver_alive (core_client example_client) 0"
  "core_queue (core_client example_client) 0 = []"
  by (simp_all add: example_client_def CloudmqttClient_new_from_connection_def core_new_and_connect_def
      receiver_alive_def)

text \<open>
  C32. Subscribing to one or more filters (strings, so valid UTF-8, that fit into one packet): a
  filter of more than 65535 bytes is a panic before anything is sent. Otherwise the SUBSCRIBE packet
  is handed to the client core, and if that waits or fails, so does the call, with no sink entered. If the
  packet was taken into the channel and \<open>TopicFilterBuf\<close> accepts all filters, the new sink is entered under
  every one of them; if it refuses one, the call panics, with the packet already on its way to the
  server.
\<close>

theorem subscribe_exact:
  assumes "winnow_spec W" and "list_all utf8_valid flts" and "flts \<noteq> []"
    and "length (enc_filters flts) \<le> 268435452"
  shows "if list_all (\<lambda>flt. length flt \<le> 65535) flts
    then case core_subscribe (core_client self)
        (packet_canon W (Subscribe (builder_packet (enc_filters flts)))) of
      None \<Rightarrow> builder_build W self flts sink = (Return None, self)
    | Some (Inl e, c) \<Rightarrow> builder_build W self flts sink = (Return (Some (Inl e)), self\<lparr>core_client := c\<rparr>)
    | Some (Inr _, c) \<Rightarrow>
        (case builder_build W self flts sink of (r, self') \<Rightarrow>
          core_client self' = c \<and>
          (if list_all accepted_filter flts
           then r = Return (Some (Inr (next_subscription_id (router self)))) \<and>
             subscriptions (router self') (next_subscription_id (router self)) = Some sink \<and>
             list_all (subscribed (router self') (next_subscription_id (router self))) flts
           else r = Panic))
    else builder_build W self flts sink = (Panic, self)"
proof (cases "list_all (\<lambda>flt. length flt \<le> 65535) flts")
  case True
  with assms(2) have "list_all str_ok flts" by (simp add: list_all_iff str_ok_def)
  then show ?thesis
    unfolding if_P [OF True] by (rule winnow_spec.builder_build_exact [OF assms(1) _ assms(3,4)])
next
  case False
  show ?thesis
    unfolding if_not_P [OF False] by (rule winnow_spec.builder_long_panics [OF assms(1) False])
qed

theorem subscribe_exact_witness:
  "fst (builder_build winnow_ref example_client [[0x61, 0x23]] 7) = Panic \<and>
   core_queue (core_client (snd (builder_build winnow_ref example_client [[0x61, 0x23]] 7))) 0 \<noteq> []"
proof -
  let ?f = "[[0x61, 0x23]] :: rstr list"
  obtain c where c: "core_subscribe (core_client example_client)
      (packet_canon winnow_ref (Subscribe (builder_packet (enc_filters ?f)))) = Some (Inr (), c)"
    and q: "core_queue c 0 \<noteq> []"
    using example_client_connected by (simp add: core_send_def)
  have "list_all utf8_valid ?f" by code_simp
  moreover have "length (enc_filters ?f) \<le> 268435452"
    by (simp add: enc_filters_def enc_sub_def builder_subscription_def)
  moreover have "\<not> list_all accepted_filter ?f"
    using filter_new_cases [of "[0x61, 0x23]"] by (simp add: topic_defs)
  ultimately show ?thesis
    using subscribe_exact [OF winnow_ref_spec, of ?f example_client 7] c q
    by (auto split: prod.splits)
qed

text \<open>A builder without filters panics, before anything is sent.\<close>

lemma subscribe_nothing_panics:
  assumes "winnow_spec W"
  shows "builder_build W self [] sink = (Panic, self)"
  by (rule winnow_spec.builder_empty [OF assms])

end
