(* ===== verification/Delivery.thy ===== *)
theory Delivery
  imports Router
begin

text \<open>
  From the router to the subscriptions: the task of \<open>cloudmqtt/src/router.rs\<close> at the grain of
  its \<open>await\<close> points, the channels into which it sends, and the \<open>Stream\<close> of a
  \<open>Subscription\<close> (\<open>cloudmqtt/src/lib.rs\<close>). Theory Router computes what is to be sent; here
  the sending takes time, may wait, and goes on beside new subscriptions and the streams being
  polled and dropped. A channel of \<open>tokio\<close> is a parameter: a record of its operations, with its
  documented behaviour as a locale.
\<close>

section \<open>Channels\<close>

text \<open>
  \<open>mpsc::channel(1)\<close>. Sending returns whether the value was accepted (it is not when the receiver
  is gone), or \<open>None\<close>: the call waits for room.
\<close>

record ('c, 'a) mpsc =
  chan_new :: 'c
  chan_send :: "'c \<Rightarrow> 'a \<Rightarrow> (bool \<times> 'c) option"
  chan_recv :: "'c \<Rightarrow> 'a option \<times> 'c"
  chan_drop :: "'c \<Rightarrow> 'c"  \<comment> \<open>the receiver is dropped\<close>

locale mpsc_channel =
  fixes M :: "('c, 'a) mpsc" and items :: "'c \<Rightarrow> 'a list" and opened :: "'c \<Rightarrow> bool"
  assumes new_empty: "items (chan_new M) = []" "opened (chan_new M)"
    and send_room: "opened c \<Longrightarrow> items c = [] \<Longrightarrow>
      \<exists>c'. chan_send M c a = Some (True, c') \<and> opened c' \<and> items c' = [a]"
    and send_full: "opened c \<Longrightarrow> items c \<noteq> [] \<Longrightarrow> chan_send M c a = None"
    and send_closed: "\<not> opened c \<Longrightarrow>
      \<exists>c'. chan_send M c a = Some (False, c') \<and> \<not> opened c' \<and> items c' = items c"
    and recv_Nil: "items c = [] \<Longrightarrow> chan_recv M c = (None, c)"
    and recv_Cons: "items c = a # as \<Longrightarrow>
      \<exists>c'. chan_recv M c = (Some a, c') \<and> items c' = as \<and> opened c' = opened c"
    and drop_empty: "items (chan_drop M c) = []" "\<not> opened (chan_drop M c)"
begin

lemma send_accepted:
  assumes "chan_send M c a = Some (True, c')"
  shows "opened c" "items c = []" "opened c'" "items c' = [a]"
  using assms send_room [of c a] send_full [of c a] send_closed [of c a]
  by (cases "opened c"; cases "items c"; auto)+

lemma send_refused:
  assumes "chan_send M c a = Some (False, c')"
  shows "\<not> opened c" "\<not> opened c'" "items c' = items c"
  using assms send_room [of c a] send_full [of c a] send_closed [of c a]
  by (cases "opened c"; cases "items c"; auto)+

lemma recv_cases:
  assumes "chan_recv M c = (x, c')"
  shows "opened c' = opened c" "items c = (case x of None \<Rightarrow> [] | Some a \<Rightarrow> [a]) @ items c'"
  using assms recv_Nil [of c] recv_Cons [of c "hd (items c)" "tl (items c)"]
  by (cases "items c"; auto)+

end

text \<open>A channel that satisfies the laws: the value in it, if any, and whether it is open.\<close>

definition queue_mpsc :: "('a list \<times> bool, 'a) mpsc" where
  "queue_mpsc =
     \<lparr>chan_new = ([], True),
      chan_send = (\<lambda>(q, b) a. if \<not> b then Some (False, (q, b))
        else if q = [] then Some (True, ([a], b)) else None),
      chan_recv = (\<lambda>(q, b). case q of [] \<Rightarrow> (None, ([], b)) | a # as \<Rightarrow> (Some a, (as, b))),
      chan_drop = (\<lambda>c. ([], False))\<rparr>"

interpretation queue: mpsc_channel queue_mpsc fst snd
  by unfold_locales (auto simp: queue_mpsc_def)

lemma queue_mpsc_channel: "mpsc_channel queue_mpsc fst snd"
  by (rule queue.mpsc_channel_axioms)

section \<open>The stream of a subscription\<close>

text \<open>
  \<open>Stream::poll_next\<close> of \<open>Subscription\<close> is \<open>poll_recv\<close> of its channel: the stream ends
  when the channel is empty and no sender is left.
\<close>

datatype 'a poll = Pending | Ready "'a option"

definition Subscription_poll_next :: "('c, 'a) mpsc \<Rightarrow> bool \<Rightarrow> 'c \<Rightarrow> 'a poll \<times> 'c" where
  "Subscription_poll_next M senders receiver =
     (case chan_recv M receiver of
        (Some p, receiver') \<Rightarrow> (Ready (Some p), receiver')
      | (None, receiver') \<Rightarrow> (if senders then Pending else Ready None, receiver'))"

section \<open>The task of the router\<close>

text \<open>
  The \<open>for\<close> loop over the subscribers of a packet: the entry of \<open>subscription_topics\<close> it
  iterates over (its shard of the \<open>DashMap\<close> stays locked for reading), the identifiers left, and
  the sender it is sending into, if any.
\<close>

record 'k send_loop =
  loop_key :: TopicFilterBuf
  loop_ids :: "SubscriptionId list"
  loop_sender :: "'k option"
  loop_packet :: MqttPacket

text \<open>
  A sender or receiver is a handle of type \<open>'k\<close> into \<open>del_channels\<close>; \<open>del_streams\<close> are the
  receivers that have not been dropped. \<open>del_log\<close>, the sends that were accepted, and
  \<open>del_received\<close>, what the streams returned, are for the statements only.
\<close>

record ('k, 'c) delivery =
  del_router :: "'k Router"
  del_client :: bool  \<comment> \<open>the client, which owns the router, exists\<close>
  del_running :: bool  \<comment> \<open>the task runs\<close>
  del_loop :: "'k send_loop option"
  del_channels :: "'k \<rightharpoonup> 'c"
  del_streams :: "'k set"
  del_log :: "('k \<times> MqttPacket) list"
  del_received :: "'k \<Rightarrow> MqttPacket list"

definition delivery_init :: "('k, 'c) delivery" where
  "delivery_init =
     \<lparr>del_router = Router_new, del_client = True, del_running = True, del_loop = None,
      del_channels = Map.empty, del_streams = {}, del_log = [], del_received = (\<lambda>_. [])\<rparr>"

text \<open>\<open>find_filter\<close> with the whole entry as its result.\<close>

fun find_entry :: "TopicNameBuf \<Rightarrow> (TopicFilterBuf \<times> SubscriptionId list) list \<Rightarrow>
    (TopicFilterBuf \<times> SubscriptionId list) option outcome" where
  "find_entry topic [] = Return None"
| "find_entry topic ((key, ids) # m) =
     (case topic_matches topic key of
        Panic \<Rightarrow> Panic
      | Return b \<Rightarrow> if b then Return (Some (key, ids)) else find_entry topic m)"

text \<open>The body of the \<open>while let\<close> up to the loop; every \<open>continue\<close> leaves the state as it is.\<close>

definition router_recv :: "dash_iter \<Rightarrow> ('k, 'c) delivery \<Rightarrow> MqttPacket \<Rightarrow> ('k, 'c) delivery" where
  "router_recv iter d next_packet =
     (case next_packet of
        Publish publish \<Rightarrow>
          (case TopicNameBuf_new (pub_topic_name publish) of
             Inl e \<Rightarrow> d
           | Inr topic_name_buf \<Rightarrow>
               (case find_entry topic_name_buf (iter (subscription_topics (del_router d))) of
                  Panic \<Rightarrow> d\<lparr>del_running := False\<rparr>
                | Return None \<Rightarrow> d
                | Return (Some (key, subscription_ids)) \<Rightarrow>
                    d\<lparr>del_loop := Some \<lparr>loop_key = key, loop_ids = subscription_ids,
                      loop_sender = None, loop_packet = next_packet\<rparr>\<rparr>))
      | _ \<Rightarrow> d\<lparr>del_running := False\<rparr>)"

text \<open>
  One step of the loop: it looks up the next sender, or sends, where an error is only logged, or
  ends. \<open>None\<close>: the task is not in the loop, or the send waits.
\<close>

definition router_send :: "('c, MqttPacket) mpsc \<Rightarrow> ('k, 'c) delivery \<Rightarrow> ('k, 'c) delivery option" where
  "router_send M d =
     (case del_loop d of
        None \<Rightarrow> None
      | Some l \<Rightarrow>
          (case loop_sender l of
             None \<Rightarrow>
               (case loop_ids l of
                  [] \<Rightarrow> Some (d\<lparr>del_loop := None\<rparr>)
                | subscription_id # ids \<Rightarrow>
                    Some (d\<lparr>del_loop := Some (l\<lparr>loop_ids := ids,
                      loop_sender := subscriptions (del_router d) subscription_id\<rparr>)\<rparr>))
           | Some sender \<Rightarrow>
               (case del_channels d sender of
                  None \<Rightarrow> None
                | Some c \<Rightarrow>
                    (case chan_send M c (loop_packet l) of
                       None \<Rightarrow> None
                     | Some (accepted, c') \<Rightarrow>
                         Some (d\<lparr>del_loop := Some (l\<lparr>loop_sender := None\<rparr>),
                           del_channels := (del_channels d)(sender \<mapsto> c'),
                           del_log := del_log d @ (if accepted then [(sender, loop_packet l)] else [])\<rparr>)))))"

text \<open>
  \<open>add_subscription_to_topic\<close> locks the shard of its key for writing and waits while the task
  is in the loop over an entry of the same shard.
\<close>

definition topic_waits :: "(TopicFilterBuf \<Rightarrow> nat) \<Rightarrow> ('k, 'c) delivery \<Rightarrow> rstr \<Rightarrow> bool" where
  "topic_waits shard d flt \<longleftrightarrow>
     (case (del_loop d, TopicFilterBuf_new flt) of
        (Some l, Inr key) \<Rightarrow> shard key = shard (loop_key l)
      | _ \<Rightarrow> False)"

definition poll_stream :: "('c, MqttPacket) mpsc \<Rightarrow> ('k, 'c) delivery \<Rightarrow> 'k \<Rightarrow> 'c \<Rightarrow> ('k, 'c) delivery" where
  "poll_stream M d k c =
     (case Subscription_poll_next M (del_client d \<or> del_running d) c of
        (res, c') \<Rightarrow> d\<lparr>del_channels := (del_channels d)(k \<mapsto> c'),
          del_received := (del_received d)(k := del_received d k @
            (case res of Ready (Some p) \<Rightarrow> [p] | _ \<Rightarrow> []))\<rparr>)"

lemmas delivery_defs [defs] =
  Subscription_poll_next_def delivery_init_def router_recv_def router_send_def topic_waits_def
  poll_stream_def

section \<open>Steps\<close>

datatype 'k event =
    Ev_Recv MqttPacket  \<comment> \<open>the task takes a packet from the connection\<close>
  | Ev_Send  \<comment> \<open>a step of its loop\<close>
  | Ev_Finish  \<comment> \<open>the task ends, all senders of packets are gone\<close>
  | Ev_Sink 'k
  | Ev_Topic SubscriptionId rstr
  | Ev_Poll 'k
  | Ev_Drop 'k
  | Ev_Client_Dropped

inductive delivery_step :: "('c, MqttPacket) mpsc \<Rightarrow> dash_iter \<Rightarrow> (TopicFilterBuf \<Rightarrow> nat) \<Rightarrow>
    ('k, 'c) delivery \<Rightarrow> 'k event \<Rightarrow> ('k, 'c) delivery \<Rightarrow> bool" for M iter shard where
  recv: "del_running d \<Longrightarrow> del_loop d = None \<Longrightarrow>
    delivery_step M iter shard d (Ev_Recv p) (router_recv iter d p)"
| send: "del_running d \<Longrightarrow> router_send M d = Some d' \<Longrightarrow> delivery_step M iter shard d Ev_Send d'"
| finish: "del_running d \<Longrightarrow> del_loop d = None \<Longrightarrow>
    delivery_step M iter shard d Ev_Finish (d\<lparr>del_running := False\<rparr>)"
| sink: "del_client d \<Longrightarrow> del_channels d k = None \<Longrightarrow> add_subscription_sink (del_router d) k = (i, r) \<Longrightarrow>
    delivery_step M iter shard d (Ev_Sink k) (d\<lparr>del_router := r,
      del_channels := (del_channels d)(k \<mapsto> chan_new M), del_streams := insert k (del_streams d)\<rparr>)"
| topic: "del_client d \<Longrightarrow> i \<in> dom (subscriptions (del_router d)) \<Longrightarrow> \<not> topic_waits shard d flt \<Longrightarrow>
    add_subscription_to_topic (del_router d) i flt = Return r \<Longrightarrow>
    delivery_step M iter shard d (Ev_Topic i flt) (d\<lparr>del_router := r\<rparr>)"
| poll: "k \<in> del_streams d \<Longrightarrow> del_channels d k = Some c \<Longrightarrow>
    delivery_step M iter shard d (Ev_Poll k) (poll_stream M d k c)"
| drop: "k \<in> del_streams d \<Longrightarrow> del_channels d k = Some c \<Longrightarrow>
    delivery_step M iter shard d (Ev_Drop k) (d\<lparr>del_streams := del_streams d - {k},
      del_channels := (del_channels d)(k \<mapsto> chan_drop M c)\<rparr>)"
| client_dropped: "delivery_step M iter shard d Ev_Client_Dropped (d\<lparr>del_client := False\<rparr>)"

inductive delivery_run :: "('c, MqttPacket) mpsc \<Rightarrow> dash_iter \<Rightarrow> (TopicFilterBuf \<Rightarrow> nat) \<Rightarrow>
    ('k, 'c) delivery \<Rightarrow> 'k event list \<Rightarrow> ('k, 'c) delivery \<Rightarrow> bool" for M iter shard where
  none: "delivery_run M iter shard d [] d"
| more: "delivery_step M iter shard d e d' \<Longrightarrow> delivery_run M iter shard d' es d'' \<Longrightarrow>
    delivery_run M iter shard d (e # es) d''"

inductive_cases delivery_stepE: "delivery_step M iter shard d e d'"

text \<open>The same as a function, to run examples; \<open>None\<close>: the event cannot happen now.\<close>

definition delivery_exec :: "('c, MqttPacket) mpsc \<Rightarrow> dash_iter \<Rightarrow> (TopicFilterBuf \<Rightarrow> nat) \<Rightarrow>
    ('k, 'c) delivery \<Rightarrow> 'k event \<Rightarrow> ('k, 'c) delivery option" where
  "delivery_exec M iter shard d e =
     (case e of
        Ev_Recv p \<Rightarrow> if del_running d \<and> del_loop d = None then Some (router_recv iter d p) else None
      | Ev_Send \<Rightarrow> if del_running d then router_send M d else None
      | Ev_Finish \<Rightarrow> if del_running d \<and> del_loop d = None then Some (d\<lparr>del_running := False\<rparr>) else None
      | Ev_Sink k \<Rightarrow>
          if del_client d \<and> del_channels d k = None
          then Some (d\<lparr>del_router := snd (add_subscription_sink (del_router d) k),
            del_channels := (del_channels d)(k \<mapsto> chan_new M), del_streams := insert k (del_streams d)\<rparr>)
          else None
      | Ev_Topic i flt \<Rightarrow>
          if del_client d \<and> subscriptions (del_router d) i \<noteq> None \<and> \<not> topic_waits shard d flt
          then (case add_subscription_to_topic (del_router d) i flt of
                  Panic \<Rightarrow> None | Return r \<Rightarrow> Some (d\<lparr>del_router := r\<rparr>))
          else None
      | Ev_Poll k \<Rightarrow> if k \<in> del_streams d then map_option (poll_stream M d k) (del_channels d k) else None
      | Ev_Drop k \<Rightarrow>
          if k \<in> del_streams d
          then map_option (\<lambda>c. d\<lparr>del_streams := del_streams d - {k},
            del_channels := (del_channels d)(k \<mapsto> chan_drop M c)\<rparr>) (del_channels d k)
          else None
      | Ev_Client_Dropped \<Rightarrow> Some (d\<lparr>del_client := False\<rparr>))"

fun delivery_execs :: "('c, MqttPacket) mpsc \<Rightarrow> dash_iter \<Rightarrow> (TopicFilterBuf \<Rightarrow> nat) \<Rightarrow>
    ('k, 'c) delivery \<Rightarrow> 'k event list \<Rightarrow> ('k, 'c) delivery option" where
  "delivery_execs M iter shard d [] = Some d"
| "delivery_execs M iter shard d (e # es) =
     (case delivery_exec M iter shard d e of None \<Rightarrow> None | Some d' \<Rightarrow> delivery_execs M iter shard d' es)"

lemma delivery_exec_step:
  "delivery_exec M iter shard d e = Some d' \<longleftrightarrow> delivery_step M iter shard d e d'"
proof
  show "delivery_exec M iter shard d e = Some d' \<Longrightarrow> delivery_step M iter shard d e d'"
    by (cases e) (auto simp: delivery_exec_def dom_def intro: delivery_step.intros
          delivery_step.sink [OF _ _ surjective_pairing] split: if_splits outcome.splits)
  show "delivery_step M iter shard d e d' \<Longrightarrow> delivery_exec M iter shard d e = Some d'"
    by (cases rule: delivery_step.cases) (auto simp: delivery_exec_def)
qed

lemma delivery_execs_run:
  "delivery_execs M iter shard d es = Some d' \<longleftrightarrow> delivery_run M iter shard d es d'"
proof
  show "delivery_execs M iter shard d es = Some d' \<Longrightarrow> delivery_run M iter shard d es d'"
    by (induction es arbitrary: d)
      (auto simp: delivery_exec_step intro: delivery_run.intros split: option.splits)
  show "delivery_run M iter shard d es d' \<Longrightarrow> delivery_execs M iter shard d es = Some d'"
    by (induction rule: delivery_run.induct) (simp_all flip: delivery_exec_step)
qed

section \<open>The loop without interruption\<close>

fun router_sends :: "('c, MqttPacket) mpsc \<Rightarrow> nat \<Rightarrow> ('k, 'c) delivery \<Rightarrow> ('k, 'c) delivery option" where
  "router_sends M 0 d = Some d"
| "router_sends M (Suc n) d = (case router_send M d of None \<Rightarrow> None | Some d' \<Rightarrow> router_sends M n d')"

lemma router_sends_add:
  "router_sends M m d = Some d' \<Longrightarrow> router_sends M (m + n) d = router_sends M n d'"
  by (induction m arbitrary: d) (auto split: option.splits)

text \<open>The channel of a sink is open; it takes a value at once.\<close>

definition sink_open :: "('c \<Rightarrow> bool) \<Rightarrow> ('k, 'c) delivery \<Rightarrow> 'k \<Rightarrow> bool" where
  "sink_open opened d k = (case del_channels d k of None \<Rightarrow> False | Some c \<Rightarrow> opened c)"

definition sink_ready :: "('c \<Rightarrow> 'a list) \<Rightarrow> ('c \<Rightarrow> bool) \<Rightarrow> ('k, 'c) delivery \<Rightarrow> 'k \<Rightarrow> bool" where
  "sink_ready items opened d k =
     (case del_channels d k of None \<Rightarrow> False | Some c \<Rightarrow> \<not> opened c \<or> items c = [])"

lemma find_filter_entry:
  "find_filter n m =
     (case find_entry n m of Panic \<Rightarrow> Panic | Return x \<Rightarrow> Return (map_option snd x))"
  by (induction n m rule: find_entry.induct) (auto split: outcome.splits)

text \<open>The sinks of a list of subscriptions.\<close>

abbreviation targets :: "'k Router \<Rightarrow> SubscriptionId list \<Rightarrow> 'k list" where
  "targets r ids \<equiv> List.map_filter (subscriptions r) ids"

lemma targets_send:
  "List.map_filter (\<lambda>i. case subscriptions r i of None \<Rightarrow> None | Some s \<Rightarrow> Some (s, p)) ids =
   map (\<lambda>k. (k, p)) (targets r ids)"
  by (induction ids) (simp_all add: List.map_filter_simps split: option.split)

text \<open>Taking a packet enters the loop over what theory Router says is to be sent.\<close>

lemma router_recv_route:
  assumes "route_packet iter (del_router d) p = Return sends"
  obtains (skipped) "router_recv iter d p = d" and "sends = []"
  | (looping) key ids where "sends = map (\<lambda>k. (k, p)) (targets (del_router d) ids)"
      and "router_recv iter d p = d\<lparr>del_loop := Some \<lparr>loop_key = key, loop_ids = ids,
        loop_sender = None, loop_packet = p\<rparr>\<rparr>"
  using assms
  by (auto simp: route_packet_def router_recv_def find_filter_entry targets_send
      split: MqttPacket.splits sum.splits outcome.splits option.splits)

section \<open>What a subscriber gets\<close>

definition packets_to :: "'k \<Rightarrow> ('k \<times> MqttPacket) list \<Rightarrow> MqttPacket list" where
  "packets_to k log = map snd (filter (\<lambda>e. fst e = k) log)"

lemma packets_to_simps [simp]:
  "packets_to k [] = []"
  "packets_to k (log @ log') = packets_to k log @ packets_to k log'"
  "packets_to k [(k', p)] = (if k' = k then [p] else [])"
  by (simp_all add: packets_to_def)

lemma router_recv_simps [simp]:
  "del_channels (router_recv iter d p) = del_channels d"
  "del_streams (router_recv iter d p) = del_streams d"
  "del_log (router_recv iter d p) = del_log d"
  "del_received (router_recv iter d p) = del_received d"
  "del_router (router_recv iter d p) = del_router d"
  by (simp_all add: router_recv_def split: MqttPacket.split sum.split outcome.split option.split)

lemma poll_stream_simps [simp]:
  "del_router (poll_stream M d k c) = del_router d"
  "del_loop (poll_stream M d k c) = del_loop d"
  "del_streams (poll_stream M d k c) = del_streams d"
  "del_log (poll_stream M d k c) = del_log d"
  "del_running (poll_stream M d k c) = del_running d"
  by (simp_all add: poll_stream_def split: prod.split)

text \<open>Sending touches the channel it sends into and the log, or only the loop.\<close>

lemma router_send_cases:
  assumes "router_send M d = Some d'"
  obtains (loop) l' where "d' = d\<lparr>del_loop := l'\<rparr>"
  | (send) l k c b c' where "del_loop d = Some l" and "loop_sender l = Some k" and "del_channels d k = Some c"
      and "chan_send M c (loop_packet l) = Some (b, c')"
      and "d' = d\<lparr>del_loop := Some (l\<lparr>loop_sender := None\<rparr>), del_channels := (del_channels d)(k \<mapsto> c'),
        del_log := del_log d @ (if b then [(k, loop_packet l)] else [])\<rparr>"
  using assms by (auto simp: router_send_def split: option.splits list.splits prod.splits)

locale packet_channel = mpsc_channel M items opened
  for M :: "('c, MqttPacket) mpsc" and items :: "'c \<Rightarrow> MqttPacket list" and opened :: "'c \<Rightarrow> bool"
begin

text \<open>
  A live stream has returned, or has in its channel, exactly what was sent to it, in that order;
  a dropped one has returned a prefix of it.
\<close>

definition stream_ok :: "('k, 'c) delivery \<Rightarrow> 'k \<Rightarrow> bool" where
  "stream_ok d k \<longleftrightarrow>
     (case del_channels d k of
        None \<Rightarrow> k \<notin> del_streams d \<and> del_received d k = [] \<and> packets_to k (del_log d) = []
      | Some c \<Rightarrow> opened c = (k \<in> del_streams d) \<and> length (items c) \<le> 1 \<and>
          (if opened c then del_received d k @ items c = packets_to k (del_log d)
           else items c = [] \<and> prefix (del_received d k) (packets_to k (del_log d))))"

lemma stream_ok_same:
  "stream_ok d k \<Longrightarrow> del_channels d' k = del_channels d k \<Longrightarrow> (k \<in> del_streams d') = (k \<in> del_streams d) \<Longrightarrow>
   packets_to k (del_log d') = packets_to k (del_log d) \<Longrightarrow> del_received d' k = del_received d k \<Longrightarrow>
   stream_ok d' k"
  by (simp add: stream_ok_def split: option.splits)

lemma init_ok: "stream_ok delivery_init k"
  by (simp add: stream_ok_def delivery_init_def)

lemma send_ok:
  assumes "router_send M d = Some d'" and "stream_ok d k"
  shows "stream_ok d' k"
  using assms(1)
proof (cases rule: router_send_cases)
  case (loop l')
  show ?thesis by (rule stream_ok_same [OF assms(2)]) (simp_all add: loop)
next
  case (send l j c b c')
  show ?thesis
  proof (cases "j = k")
    case False
    show ?thesis by (rule stream_ok_same [OF assms(2)]) (use send False in simp_all)
  next
    case True
    show ?thesis
    proof (cases b)
      case b: True
      with send(4) have "chan_send M c (loop_packet l) = Some (True, c')" by simp
      from send_accepted [OF this] send assms(2) True b show ?thesis by (simp add: stream_ok_def)
    next
      case b: False
      with send(4) have "chan_send M c (loop_packet l) = Some (False, c')" by simp
      from send_refused [OF this] send assms(2) True b show ?thesis by (simp add: stream_ok_def)
    qed
  qed
qed

lemma poll_ok:
  assumes "j \<in> del_streams d" and "del_channels d j = Some c" and "stream_ok d k"
  shows "stream_ok (poll_stream M d j c) k"
proof (cases "j = k")
  case False
  show ?thesis
    by (rule stream_ok_same [OF assms(3)]) (use False in \<open>simp_all add: poll_stream_def split: prod.split\<close>)
next
  case True
  obtain x c' where r: "chan_recv M c = (x, c')" by fastforce
  have o: "opened c" using assms True by (simp add: stream_ok_def)
  have d: "poll_stream M d j c = d\<lparr>del_channels := (del_channels d)(j \<mapsto> c'),
      del_received := (del_received d)(j := del_received d j @ (case x of None \<Rightarrow> [] | Some p \<Rightarrow> [p]))\<rparr>"
    by (simp add: poll_stream_def Subscription_poll_next_def r split: option.split)
  show ?thesis
    unfolding stream_ok_def d
    using assms True o recv_cases [OF r] by (simp add: stream_ok_def split: option.splits)
qed

lemma received_prefix:
  assumes "stream_ok d k" and "del_channels d k = Some c"
  shows "prefix (del_received d k) (packets_to k (del_log d))"
proof (cases "opened c")
  case True
  then have "packets_to k (del_log d) = del_received d k @ items c" using assms by (simp add: stream_ok_def)
  then show ?thesis by (rule prefixI)
qed (use assms in \<open>simp add: stream_ok_def\<close>)

lemma step_ok:
  assumes "delivery_step M iter shard d e d'" and "stream_ok d k"
  shows "stream_ok d' k"
  using assms(1)
proof (cases rule: delivery_step.cases)
  case recv
  show ?thesis by (rule stream_ok_same [OF assms(2)]) (simp_all add: recv)
next
  case send
  show ?thesis by (rule send_ok [OF send(3) assms(2)])
next
  case finish
  show ?thesis by (rule stream_ok_same [OF assms(2)]) (simp_all add: finish)
next
  case (sink j i r)
  show ?thesis
  proof (cases "j = k")
    case True
    then show ?thesis using assms(2) sink new_empty by (simp add: stream_ok_def)
  next
    case False
    show ?thesis by (rule stream_ok_same [OF assms(2)]) (use sink False in simp_all)
  qed
next
  case (topic i flt r)
  show ?thesis by (rule stream_ok_same [OF assms(2)]) (simp_all add: topic)
next
  case (poll j c)
  show ?thesis unfolding poll(2) by (rule poll_ok [OF poll(3,4) assms(2)])
next
  case (drop j c)
  show ?thesis
  proof (cases "j = k")
    case True
    then show ?thesis
      using received_prefix [OF assms(2), of c] drop drop_empty by (simp add: stream_ok_def)
  next
    case False
    show ?thesis by (rule stream_ok_same [OF assms(2)]) (use drop False in simp_all)
  qed
next
  case client_dropped
  show ?thesis by (rule stream_ok_same [OF assms(2)]) (simp_all add: client_dropped)
qed

lemma run_ok:
  "delivery_run M iter shard d es d' \<Longrightarrow> stream_ok d k \<Longrightarrow> stream_ok d' k"
  by (induction rule: delivery_run.induct) (auto intro: step_ok)

lemma run_fifo:
  assumes "delivery_run M iter shard delivery_init es d" and "del_channels d k = Some c"
  shows "length (items c) \<le> 1 \<and>
    (if k \<in> del_streams d
     then del_received d k @ items c = packets_to k (del_log d)
     else prefix (del_received d k) (packets_to k (del_log d)))"
  using run_ok [OF assms(1) init_ok, of k] assms(2) by (auto simp: stream_ok_def)

text \<open>Sinks that are ready, each of them once, are all served.\<close>

lemma send_ready:
  assumes "del_loop d = Some l" and "loop_sender l = Some k" and "sink_ready items opened d k"
  obtains c where "router_send M d = Some (d\<lparr>del_loop := Some (l\<lparr>loop_sender := None\<rparr>),
      del_channels := (del_channels d)(k \<mapsto> c),
      del_log := del_log d @ (if sink_open opened d k then [(k, loop_packet l)] else [])\<rparr>)"
proof -
  obtain c0 where c0: "del_channels d k = Some c0" "\<not> opened c0 \<or> items c0 = []"
    using assms(3) by (auto simp: sink_ready_def split: option.splits)
  obtain c where "chan_send M c0 (loop_packet l) = Some (opened c0, c)"
    using send_room [of c0 "loop_packet l"] send_closed [of c0 "loop_packet l"] c0(2)
    by (cases "opened c0") auto
  then show ?thesis using that assms c0 by (simp add: router_send_def sink_open_def)
qed

text \<open>One round of the loop, for the identifier \<open>i\<close>.\<close>

lemma loop_round:
  assumes "del_loop d = Some l" and "loop_sender l = None" and "loop_ids l = i # is"
    and "list_all (sink_ready items opened d) (targets (del_router d) [i])"
  obtains m d2 l2 where "router_sends M m d = Some d2" and "del_loop d2 = Some l2"
    and "loop_sender l2 = None" and "loop_ids l2 = is" and "loop_packet l2 = loop_packet l"
    and "del_router d2 = del_router d"
    and "del_log d2 = del_log d @
      map (\<lambda>k. (k, loop_packet l)) (filter (sink_open opened d) (targets (del_router d) [i]))"
    and "\<And>k. k \<notin> set (targets (del_router d) [i]) \<Longrightarrow> del_channels d2 k = del_channels d k"
proof -
  define l1 where "l1 = l\<lparr>loop_ids := is, loop_sender := subscriptions (del_router d) i\<rparr>"
  define d1 where "d1 = d\<lparr>del_loop := Some l1\<rparr>"
  have s1: "router_send M d = Some d1" using assms by (simp add: router_send_def d1_def l1_def)
  show ?thesis
  proof (cases "subscriptions (del_router d) i")
    case None
    have "router_sends M 1 d = Some d1" using s1 by simp
    from that [OF this, of l1] show ?thesis using None by (simp add: d1_def l1_def List.map_filter_simps)
  next
    case (Some k)
    have "sink_ready items opened d1 k"
      using assms(4) Some by (simp add: sink_ready_def d1_def List.map_filter_simps)
    then obtain c where s2: "router_send M d1 = Some (d1\<lparr>del_loop := Some (l1\<lparr>loop_sender := None\<rparr>),
        del_channels := (del_channels d1)(k \<mapsto> c),
        del_log := del_log d1 @ (if sink_open opened d1 k then [(k, loop_packet l1)] else [])\<rparr>)"
      using send_ready [of d1 l1 k] Some by (auto simp: d1_def l1_def)
    then have "router_sends M 2 d = router_send M d1" using s1 by (simp add: numeral_2_eq_2)
    from that [OF trans [OF this s2], of "l1\<lparr>loop_sender := None\<rparr>"] show ?thesis
      using Some by (simp add: d1_def l1_def sink_open_def List.map_filter_simps)
  qed
qed

lemma loop_completes:
  assumes "del_loop d = Some l" and "loop_sender l = None" and "loop_ids l = ids"
    and "distinct (targets (del_router d) ids)"
    and "list_all (sink_ready items opened d) (targets (del_router d) ids)"
  shows "\<exists>n d'. router_sends M n d = Some d' \<and> del_loop d' = None \<and>
    del_log d' = del_log d @
      map (\<lambda>k. (k, loop_packet l)) (filter (sink_open opened d) (targets (del_router d) ids))"
  using assms
proof (induction ids arbitrary: d l)
  case Nil
  have "router_sends M 1 d = Some (d\<lparr>del_loop := None\<rparr>)" using Nil by (simp add: router_send_def)
  then show ?case
    by (intro exI [of _ 1] exI [of _ "d\<lparr>del_loop := None\<rparr>"]) (simp add: List.map_filter_simps)
next
  case (Cons i ids)
  let ?r = "del_router d"
  have t: "targets ?r (i # ids) = targets ?r [i] @ targets ?r ids"
    by (simp add: List.map_filter_simps split: option.split)
  have "list_all (sink_ready items opened d) (targets ?r [i])" using Cons.prems(5) by (simp only: t list_all_append)
  from loop_round [OF Cons.prems(1-3) this] obtain m d2 l2 where m: "router_sends M m d = Some d2"
    "del_loop d2 = Some l2" "loop_sender l2 = None" "loop_ids l2 = ids" "loop_packet l2 = loop_packet l"
    "del_router d2 = ?r" "del_log d2 = del_log d @
      map (\<lambda>k. (k, loop_packet l)) (filter (sink_open opened d) (targets ?r [i]))"
    and same: "\<And>k. k \<notin> set (targets ?r [i]) \<Longrightarrow> del_channels d2 k = del_channels d k" by blast
  have "del_channels d2 k = del_channels d k" if "k \<in> set (targets ?r ids)" for k
    using same [of k] that Cons.prems(4) unfolding t by auto
  then have "sink_ready items opened d2 k = sink_ready items opened d k"
    "sink_open opened d2 k = sink_open opened d k" if "k \<in> set (targets ?r ids)" for k
    using that by (simp_all add: sink_ready_def sink_open_def)
  then have same': "list_all (sink_ready items opened d2) (targets ?r ids)"
    "filter (sink_open opened d2) (targets ?r ids) = filter (sink_open opened d) (targets ?r ids)"
    using Cons.prems(5) unfolding t by (auto simp: list_all_iff cong: filter_cong)
  have "distinct (targets (del_router d2) ids)" using Cons.prems(4) unfolding m t by simp
  from Cons.IH [OF m(2-4) this] same'(1) obtain n d' where n: "router_sends M n d2 = Some d'"
    "del_loop d' = None" "del_log d' = del_log d2 @
      map (\<lambda>k. (k, loop_packet l)) (filter (sink_open opened d) (targets ?r ids))"
    unfolding m same'(2) by blast
  from router_sends_add [OF m(1), of n] n m(7) show ?case unfolding t by auto
qed

text \<open>A full channel stops the loop until its stream is polled or dropped.\<close>

definition loop_stuck :: "('k, 'c) delivery \<Rightarrow> 'k send_loop \<Rightarrow> 'k \<Rightarrow> bool" where
  "loop_stuck d l k \<longleftrightarrow>
     del_loop d = Some l \<and> loop_sender l = Some k \<and>
     (case del_channels d k of None \<Rightarrow> False | Some c \<Rightarrow> opened c \<and> items c \<noteq> [])"

lemma stuck_send: "loop_stuck d l k \<Longrightarrow> router_send M d = None"
  by (auto simp: loop_stuck_def router_send_def send_full split: option.splits)

lemma stuck_topic:
  "loop_stuck d l k \<Longrightarrow> TopicFilterBuf_new flt = Inr key \<Longrightarrow> shard key = shard (loop_key l) \<Longrightarrow>
    topic_waits shard d flt"
  by (simp add: loop_stuck_def topic_waits_def)

lemma stuck_step:
  assumes "delivery_step M iter shard d e d'" and "loop_stuck d l k" and "e \<noteq> Ev_Poll k" and "e \<noteq> Ev_Drop k"
  shows "loop_stuck d' l k \<and> del_log d' = del_log d"
  using assms(1)
proof (cases rule: delivery_step.cases)
  case send
  then show ?thesis using stuck_send [OF assms(2)] by simp
next
  case (poll j c)
  then show ?thesis using assms by (auto simp: loop_stuck_def poll_stream_def split: prod.split)
qed (use assms in \<open>auto simp: loop_stuck_def\<close>)

lemma stuck_run:
  "delivery_run M iter shard d es d' \<Longrightarrow> loop_stuck d l k \<Longrightarrow> Ev_Poll k \<notin> set es \<Longrightarrow> Ev_Drop k \<notin> set es \<Longrightarrow>
    loop_stuck d' l k \<and> del_log d' = del_log d"
proof (induction rule: delivery_run.induct)
  case (more d e d1 es d2)
  then show ?case using stuck_step [OF more.hyps(1) more.prems(1)] by auto
qed simp

lemma recv_completes:
  fixes d :: "('k, 'c) delivery"
  assumes "del_loop d = None" and "route_packet iter (del_router d) p = Return sends"
    and "distinct (map fst sends)" and "list_all (\<lambda>e. sink_ready items opened d (fst e)) sends"
  shows "\<exists>n d'. router_sends M n (router_recv iter d p) = Some d' \<and> del_loop d' = None \<and>
    del_log d' = del_log d @ filter (\<lambda>e. sink_open opened d (fst e)) sends"
  using assms(2)
proof (cases rule: router_recv_route)
  case skipped
  then have "router_sends M 0 (router_recv iter d p) = Some d" by simp
  then show ?thesis using assms(1) skipped by (intro exI [of _ 0] exI [of _ d]) simp
next
  case (looping key ids)
  define l :: "'k send_loop" where "l = \<lparr>loop_key = key, loop_ids = ids, loop_sender = None, loop_packet = p\<rparr>"
  have l: "loop_sender l = None" "loop_ids l = ids" "loop_packet l = p" by (simp_all add: l_def)
  let ?d = "d\<lparr>del_loop := Some l\<rparr>" and ?t = "targets (del_router d) ids"
  have same: "sink_ready items opened ?d = sink_ready items opened d" "sink_open opened ?d = sink_open opened d"
    by (auto simp: sink_ready_def sink_open_def)
  have "distinct ?t" "list_all (sink_ready items opened d) ?t"
    using assms(3,4) by (simp_all add: looping(1) comp_def list.pred_map)
  then obtain n d' where "router_sends M n ?d = Some d'" "del_loop d' = None"
    "del_log d' = del_log d @ map (\<lambda>k. (k, p)) (filter (sink_open opened d) ?t)"
    using loop_completes [of ?d l ids] by (auto simp: same l)
  then show ?thesis by (auto simp: looping filter_map comp_def l_def)
qed

end

interpretation queue_packets: packet_channel queue_mpsc fst snd ..

section \<open>Properties\<close>

type_synonym example_delivery = "(nat, MqttPacket list \<times> bool) delivery"

text \<open>The task has put one message into the channel of sink 7 and comes with a second one.\<close>

definition example_full :: example_delivery where
  "example_full =
     \<lparr>del_router = \<lparr>next_subscription_id = 1, subscriptions = [0 \<mapsto> 7],
        subscription_topics = [(example_filter, [0])]\<rparr>,
      del_client = True, del_running = True,
      del_loop = Some \<lparr>loop_key = example_filter, loop_ids = [], loop_sender = Some 7,
        loop_packet = Publish example_message\<rparr>,
      del_channels = [7 \<mapsto> ([Publish example_message], True)], del_streams = {7},
      del_log = [(7, Publish example_message)], del_received = (\<lambda>_. [])\<rparr>"

definition example_idle :: example_delivery where
  "example_idle = example_full\<lparr>del_loop := None, del_channels := [7 \<mapsto> ([], True)], del_log := []\<rparr>"

text \<open>
  C26. Every subscriber gets, in order, without loss and without duplicates, what the router sends
  to it: whatever the interleaving of the router with new subscriptions and with streams being polled and
  dropped, the packets its stream has returned, followed by the one in its channel, are those
  accepted for it; at most one is waiting. A dropped stream has returned a prefix of them.
\<close>

theorem delivery_fifo:
  assumes "mpsc_channel M items opened" and "delivery_run M iter shard delivery_init es d"
    and "del_channels d k = Some c"
  shows "length (items c) \<le> 1 \<and>
    (if k \<in> del_streams d
     then del_received d k @ items c = packets_to k (del_log d)
     else prefix (del_received d k) (packets_to k (del_log d)))"
  by (rule packet_channel.run_fifo [OF packet_channel.intro [OF assms(1)] assms(2,3)])

lemma example_run:
  "delivery_run queue_mpsc id (\<lambda>_. 0) delivery_init
     [Ev_Sink 7, Ev_Topic 0 [0x61, 0x2F, 0x2B], Ev_Recv (Publish example_message), Ev_Send, Ev_Send, Ev_Send,
      Ev_Recv (Publish example_message), Ev_Send] example_full"
proof -
  have m: "find_entry \<lparr>name_levels = [[0x61], [0x62]]\<rparr> [(example_filter, ids)] = Return (Some (example_filter, ids))" for ids
    by (simp add: example_filter_def topic_matches_def filter_first_def)
  show ?thesis
    unfolding delivery_execs_run [symmetric]
    by (simp add: delivery_exec_def delivery_init_def Router_new_def add_subscription_sink_def Let_def
        topic_waits_def add_subscription_to_topic_def example_topic entry_push_def router_recv_def m
        router_send_def queue_mpsc_def example_full_def del: find_entry.simps)
qed

theorem delivery_fifo_witness:
  "del_received example_full 7 @ [Publish example_message] = packets_to 7 (del_log example_full)"
  using delivery_fifo [OF queue_mpsc_channel example_run, of 7] by (simp add: example_full_def)

text \<open>
  C27. A packet that arrives while the router waits for the next one is delivered to every sink it is to
  be sent to: if no sink is to be served twice, and the channel of each is empty or its receiver is gone, the
  loop of the task runs
  to its end without waiting and what was accepted are exactly the sends of \<open>route_packet\<close>
  into the open channels, in that order.
\<close>

theorem delivery_completes:
  assumes "mpsc_channel M items opened" and "del_loop d = None"
    and "route_packet iter (del_router d) p = Return sends" and "distinct (map fst sends)"
    and "list_all (\<lambda>e. sink_ready items opened d (fst e)) sends"
  shows "\<exists>n d'. router_sends M n (router_recv iter d p) = Some d' \<and> del_loop d' = None \<and>
    del_log d' = del_log d @ filter (\<lambda>e. sink_open opened d (fst e)) sends"
  by (rule packet_channel.recv_completes [OF packet_channel.intro [OF assms(1)] assms(2-)])

theorem delivery_completes_witness:
  "\<exists>n d'. router_sends queue_mpsc n (router_recv id example_idle (Publish example_message)) = Some d' \<and>
    del_loop d' = None \<and> del_log d' = [(7, Publish example_message)]"
proof -
  have "route_packet id (del_router example_idle) (Publish example_message) = Return [(7, Publish example_message)]"
    by (simp add: example_idle_def example_full_def route_packet_def example_topic example_filter_def
        topic_matches_def filter_first_def List.map_filter_simps)
  from delivery_completes [OF queue_mpsc_channel _ this] show ?thesis
    by (simp add: example_idle_def example_full_def sink_ready_def sink_open_def)
qed

text \<open>
  C28. One subscriber who does not read stops everything: while the task waits for room in the full
  channel of a live stream, nothing is sent to anybody, whatever else happens, until this stream is
  polled or dropped; and every subscription to a filter in the shard of the
  \<open>DashMap\<close> that the task holds locked waits as well.
\<close>

theorem full_sink_stalls:
  assumes "mpsc_channel M items opened" and "delivery_run M iter shard d es d'"
    and "del_loop d = Some l" and "loop_sender l = Some k" and "del_channels d k = Some c"
    and "opened c" and "items c \<noteq> []" and "Ev_Poll k \<notin> set es" and "Ev_Drop k \<notin> set es"
    and "TopicFilterBuf_new flt = Inr key" and "shard key = shard (loop_key l)"
  shows "del_log d' = del_log d \<and> del_loop d' = Some l \<and> router_send M d' = None \<and> topic_waits shard d' flt"
proof -
  note pc = packet_channel.intro [OF assms(1)]
  have "packet_channel.loop_stuck items opened d l k"
    using assms(3-7) by (simp add: packet_channel.loop_stuck_def [OF pc])
  from packet_channel.stuck_run [OF pc assms(2) this assms(8,9)]
  have s: "packet_channel.loop_stuck items opened d' l k" "del_log d' = del_log d" by simp_all
  show ?thesis
    using s packet_channel.stuck_send [OF pc s(1)] packet_channel.stuck_topic [OF pc s(1) assms(10,11)]
    by (simp add: packet_channel.loop_stuck_def [OF pc])
qed

theorem full_sink_stalls_witness:
  "\<exists>d'. delivery_run queue_mpsc id (\<lambda>_. 0) example_full [Ev_Sink 8, Ev_Client_Dropped] d' \<and>
    del_log d' = del_log example_full \<and> router_send queue_mpsc d' = None \<and>
    topic_waits (\<lambda>_. 0) d' [0x61, 0x2F, 0x2B]"
proof -
  obtain d' where r: "delivery_run queue_mpsc id (\<lambda>_. 0) example_full [Ev_Sink 8, Ev_Client_Dropped] d'"
    unfolding delivery_execs_run [symmetric] by (simp add: delivery_exec_def example_full_def)
  from full_sink_stalls [OF queue_mpsc_channel this _ _ _ _ _ _ _ example_topic(1)] r show ?thesis
    by (auto simp: example_full_def)
qed

end
