(* ===== verification/Reception.thy ===== *)
theory Reception
  imports Cloudmqtt_Client Delivery
begin

text \<open>
  The way of a message through the client, from the bytes on the connection to the stream of a
  subscription: the codec and the state machine of \<open>client.rs\<close> (theory Core_Client), the task of
  the router and the channels of the subscribers (theory Delivery).
\<close>

section \<open>Lemmas\<close>

lemma delivery_step_router_ok:
  "delivery_step M iter shard d e d' \<Longrightarrow> router_ok (del_router d) \<Longrightarrow> router_ok (del_router d')"
  by (cases rule: delivery_step.cases)
    (auto intro: add_sink_ok add_topic_ok elim!: router_send_cases)

lemma delivery_run_router_ok:
  "delivery_run M iter shard d es d' \<Longrightarrow> router_ok (del_router d) \<Longrightarrow> router_ok (del_router d')"
  by (induction rule: delivery_run.induct) (auto intro: delivery_step_router_ok)

lemma delivery_run_append:
  "delivery_run M iter shard d es d1 \<Longrightarrow> delivery_run M iter shard d1 fs d2 \<Longrightarrow>
    delivery_run M iter shard d (es @ fs) d2"
  by (induction rule: delivery_run.induct) (auto intro: delivery_run.more)

text \<open>The loop of the router is a run of the system, and no stream is touched by it.\<close>

lemma router_send_keeps:
  assumes "router_send M d = Some d'"
  shows "del_running d' = del_running d" and "del_streams d' = del_streams d"
    and "del_received d' = del_received d"
  using assms by (auto elim!: router_send_cases)

lemma router_sends_run:
  assumes "router_sends M n d = Some d'" and "del_running d"
  shows "delivery_run M iter shard d (replicate n Ev_Send) d' \<and> del_streams d' = del_streams d \<and>
    del_received d' = del_received d"
  using assms
proof (induction n arbitrary: d)
  case 0
  then show ?case by (simp add: delivery_run.none)
next
  case (Suc n)
  then obtain d1 where d1: "router_send M d = Some d1" "router_sends M n d1 = Some d'"
    by (auto split: option.splits)
  with Suc.IH [OF d1(2)] Suc.prems(2) router_send_keeps [OF d1(1)] show ?case
    by (auto intro: delivery_run.more delivery_step.send)
qed

lemma send_all_targets:
  "set ids \<subseteq> dom (subscriptions r) \<Longrightarrow> send_all r p ids = map (\<lambda>k. (k, p)) (targets r ids)"
  by (induction ids) (auto simp: send_all_def List.map_filter_simps)

lemma packets_to_once:
  "distinct ks \<Longrightarrow> k \<in> set ks \<Longrightarrow> packets_to k (filter (\<lambda>e. P (fst e)) (map (\<lambda>k. (k, p)) ks)) = (if P k then [p] else [])"
  by (induction ks) (auto simp: packets_to_def filter_empty_conv)

context packet_channel begin

text \<open>A packet for a sink that is open and empty is in its channel when the loop has ended.\<close>

lemma recv_fills:
  assumes "delivery_run M iter shard delivery_init es d" and "del_running d" and "del_loop d = None"
    and "route_packet iter (del_router d) p = Return (map (\<lambda>k. (k, p)) ks)" and "distinct ks"
    and "list_all (sink_ready items opened d) ks" and "k \<in> set ks" and "k \<in> del_streams d"
  shows "\<exists>es' d' c. delivery_run M iter shard d es' d' \<and> del_loop d' = None \<and>
    k \<in> del_streams d' \<and> del_channels d' k = Some c \<and> items c = [p]"
proof -
  obtain n d' where d': "router_sends M n (router_recv iter d p) = Some d'" "del_loop d' = None"
    "del_log d' = del_log d @ filter (\<lambda>e. sink_open opened d (fst e)) (map (\<lambda>k. (k, p)) ks)"
    using recv_completes [OF assms(3,4)] assms(5,6) by (auto simp: comp_def list.pred_map)
  have run: "del_running (router_recv iter d p)"
    using router_recv_route [OF assms(4)] assms(2) by cases simp_all
  have r: "delivery_run M iter shard d (Ev_Recv p # replicate n Ev_Send) d'"
    "del_streams d' = del_streams d" "del_received d' = del_received d"
    using router_sends_run [OF d'(1) run, of iter shard]
      delivery_run.more [OF delivery_step.recv [OF assms(2,3)]] by simp_all
  have ok: "stream_ok d k" by (rule run_ok [OF assms(1) init_ok])
  have ok': "stream_ok d' k" by (rule run_ok [OF r(1) ok])
  obtain c0 where c0: "del_channels d k = Some c0" "opened c0" "items c0 = []"
    using ok assms(6-8) by (auto simp: stream_ok_def sink_ready_def list_all_iff split: option.splits)
  then have "packets_to k (del_log d') = del_received d k @ [p]"
    using ok packets_to_once [OF assms(5,7), of "sink_open opened d" p]
    by (simp add: d'(3) stream_ok_def sink_open_def)
  with ok' r(2,3) assms(8) obtain c where "del_channels d' k = Some c" "items c = [p]"
    by (auto simp: stream_ok_def split: option.splits)
  with r d'(2) assms(8) show ?thesis by blast
qed

lemma poll_filled:
  "items c = [p] \<Longrightarrow> \<exists>c'. Subscription_poll_next M senders c = (Ready (Some p), c') \<and> items c' = []"
  using recv_Cons [of c p "[]"] by (auto simp: Subscription_poll_next_def)

end

section \<open>Properties\<close>

text \<open>
  C31. From the wire to the hands of a subscriber: when the bytes of a publish of quality of service
  0 that satisfies \<open>packet_ok\<close> arrive at a connected client whose router is at work, the codec
  decodes them, and the task of the client hands the message to the router unchanged. Suppose that just one
  entry of the router's table matches the topic, that no sink is in its list twice, that the task of the router
  is waiting and the subscribers it has to serve have read what they were sent before, or are gone. Then it
  puts the message into the channel of every subscriber of the entry, so that the stream of each that still
  exists returns it when it is polled next. (A sink that is in the list twice would block the task at its second send.)
\<close>

theorem message_reaches_subscriber:
  assumes "winnow_spec W" and "mpsc_channel M items opened"
    and "Usize_inv (client_pis m)" and "connection_state m = Connected con" and "router_open out"
    and "packet_ok W (Publish p)" and "pub_quality_of_service p = AtMostOnce"
    and "delivery_run M iter shard delivery_init es d" and "del_running d" and "del_loop d = None"
    and "\<And>m. set (iter m) = set m" and "TopicNameBuf_new (pub_topic_name p) = Inr n"
    and "e \<in> set (subscription_topics (del_router d))" and "entry_matches n e"
    and "\<And>f. f \<in> set (subscription_topics (del_router d)) \<Longrightarrow> entry_matches n f \<Longrightarrow> f = e"
    and "distinct (targets (del_router d) (snd e))"
    and "list_all (sink_ready items opened d) (targets (del_router d) (snd e))"
    and "k \<in> set (targets (del_router d) (snd e))" and "k \<in> del_streams d"
  shows "\<exists>q m' es' d' c c'. decode W (enc_packet W (Publish p) @ rest) = (Return (Inr (Some (Publish q))), rest) \<and>
    connection_incoming W Usize_pis fx now m out (Publish q) =
      Return (m', out\<lparr>to_router := to_router out @ [packet_canon W (Publish q)]\<rparr>) \<and>
    delivery_run M iter shard d es' d' \<and> del_loop d' = None \<and>
    k \<in> del_streams d' \<and> del_channels d' k = Some c \<and>
    Subscription_poll_next M senders c = (Ready (Some (packet_canon W (Publish q))), c') \<and>
    pub_topic_name q = pub_topic_name p \<and> pub_payload q = pub_payload p"
proof -
  note pc = packet_channel.intro [OF assms(2)]
  obtain q m' where q: "decode W (enc_packet W (Publish p) @ rest) = (Return (Inr (Some (Publish q))), rest)"
    "connection_incoming W Usize_pis fx now m out (Publish q) =
      Return (m', out\<lparr>to_router := to_router out @ [packet_canon W (Publish q)]\<rparr>)"
    "q = publish_canon W p"
    using core_contract.message_received [OF core_client_Usize [OF assms(1)] assms(3-7), of rest fx now] by auto
  let ?q = "publish_canon W q" and ?r = "del_router d"
  have r: "router_ok ?r"
    using delivery_run_router_ok [OF assms(8)] by (simp add: delivery_init_def router_new_ok)
  then have ids: "set (snd e) \<subseteq> dom (subscriptions ?r)"
    using assms(13) by (simp add: router_ok_def entry_ok_def)
  have "find (entry_matches n) (iter (subscription_topics ?r)) = Some e"
    using assms(11,13-15) by (intro find_unique) blast+
  moreover have "TopicNameBuf_new (pub_topic_name ?q) = Inr n"
    using assms(12) q(3) by (simp add: publish_canon_def)
  ultimately have "route_packet iter ?r (Publish ?q) = Return (map (\<lambda>k. (k, Publish ?q)) (targets ?r (snd e)))"
    using route_publish [OF r assms(11)] send_all_targets [OF ids] by simp
  from packet_channel.recv_fills [OF pc assms(8-10) this assms(16-19)] obtain es' d' c where
    d': "delivery_run M iter shard d es' d'" "del_loop d' = None" "k \<in> del_streams d'"
      "del_channels d' k = Some c" "items c = [Publish ?q]" by blast
  from packet_channel.poll_filled [OF pc d'(5), of senders] q d' show ?thesis
    by (auto simp: publish_canon_def)
qed

text \<open>A router with a subscription to \<open>a/+\<close>, which waits for the first packet.\<close>

definition example_waiting :: example_delivery where
  "example_waiting =
     \<lparr>del_router = \<lparr>next_subscription_id = 1, subscriptions = [0 \<mapsto> 7],
        subscription_topics = [(example_filter, [0])]\<rparr>,
      del_client = True, del_running = True, del_loop = None, del_channels = [7 \<mapsto> ([], True)],
      del_streams = {7}, del_log = [], del_received = (\<lambda>_. [])\<rparr>"

lemma example_waiting_run:
  "delivery_run queue_mpsc id (\<lambda>_. 0) delivery_init [Ev_Sink 7, Ev_Topic 0 [0x61, 0x2F, 0x2B]] example_waiting"
  unfolding delivery_execs_run [symmetric]
  by (simp add: delivery_exec_def delivery_init_def Router_new_def add_subscription_sink_def Let_def
      topic_waits_def add_subscription_to_topic_def example_topic entry_push_def queue_mpsc_def example_waiting_def)

theorem message_reaches_subscriber_witness:
  "\<exists>q m' es' d' c c'. decode winnow_ref (enc_packet winnow_ref (Publish example_message) @ [0xC0]) =
      (Return (Inr (Some (Publish q))), [0xC0]) \<and>
    connection_incoming winnow_ref Usize_pis (\<lambda>_. 7) 5 example_idle_fsm example_io (Publish q) =
      Return (m', example_io\<lparr>to_router := [packet_canon winnow_ref (Publish q)]\<rparr>) \<and>
    delivery_run queue_mpsc id (\<lambda>_. 0) example_waiting es' d' \<and> del_channels d' 7 = Some c \<and>
    Subscription_poll_next queue_mpsc True c = (Ready (Some (packet_canon winnow_ref (Publish q))), c')"
proof -
  have ok: "packet_ok winnow_ref (Publish example_message)" by code_simp
  have m: "entry_matches \<lparr>name_levels = [[0x61], [0x62]]\<rparr> (example_filter, [0 :: u64])"
    by (simp add: entry_matches_def example_filter_def topic_matches_def filter_first_def)
  have i: "Usize_inv (client_pis example_idle_fsm)" "connection_state example_idle_fsm = Connected example_data"
    "router_open example_io" "pub_quality_of_service example_message = AtMostOnce"
    by (simp_all add: example_idle_fsm_def example_io_def example_message_def UsizeStore_new_inv)
  have t: "targets (del_router example_waiting) [0] = [7]"
    by (simp add: example_waiting_def List.map_filter_simps)
  have d: "del_running example_waiting" "del_loop example_waiting = None"
    "(example_filter, [0]) \<in> set (subscription_topics (del_router example_waiting))" "7 \<in> del_streams example_waiting"
    "list_all (sink_ready fst snd example_waiting) [7]"
    by (simp_all add: example_waiting_def sink_ready_def)
  have u: "f = (example_filter, [0])" if "f \<in> set (subscription_topics (del_router example_waiting))" for f
    using that by (simp add: example_waiting_def)
  from message_reaches_subscriber [OF winnow_ref_spec queue_mpsc_channel i(1-3) ok i(4) example_waiting_run d(1,2) _
      example_topic(2) d(3) m u, of 7 "[0xC0]" "\<lambda>_. 7" 5 True] t d(4,5)
  show ?thesis by (fastforce simp: example_io_def)
qed

end
