(* ===== verification/Test_Harness.thy ===== *)
theory Test_Harness
  imports Cloudmqtt_Client "HOL-Library.Sublist"
begin

text \<open>
  \<open>cloudmqtt/src/test_harness\<close>: the brokers and clients the integration tests script. A broker
  accepts any number of connections, sends what it is told to and records what it receives. The two
  tasks of a connection are a step relation, as the task of a client is.
\<close>

section \<open>Errors\<close>

datatype TestHarnessError =
    BrokerNotFound rstr
  | ClientNotFound rstr
  | ChannelError
  | ClientError core_error
  | CodecError codec_error
  | StreamClosed rstr
  | PacketNotExpected MqttPacket
  | UnexpectedClientIdentifier rstr rstr
  | PacketNotReceived rstr
  | UnexpectedTopic rstr rstr
  | PayloadNotUtf8

section \<open>The broker\<close>

text \<open>
  \<open>packet_queue\<close> is what the channel of packets to send holds, \<open>last_packet\<close> the one value
  the broadcast channel between the two tasks has room for: sending another one before it was
  received overwrites it, and the receiver is told so before it gets the new one. \<open>read_buffer\<close>
  and \<open>write_buffer\<close> are the two directions of the stream.
\<close>

record BrokerConnection =
  packet_queue :: "MqttPacket list"
  received_packets :: "MqttPacket list"
  last_packet :: "MqttPacket option"
  lagged :: bool
  read_buffer :: bytes
  write_buffer :: bytes
  task_running :: bool

record Broker =
  broker_name :: rstr
  connections :: "rstr \<rightharpoonup> BrokerConnection"

definition Broker_new :: "rstr \<Rightarrow> Broker" where
  "Broker_new name = \<lparr>broker_name = name, connections = Map.empty\<rparr>"

definition connection_new :: BrokerConnection where
  "connection_new =
     \<lparr>packet_queue = [], received_packets = [], last_packet = None, lagged = False,
      read_buffer = [], write_buffer = [], task_running = True\<rparr>"

definition broker_connect :: "Broker \<Rightarrow> rstr \<Rightarrow> (TestHarnessError + unit) \<times> Broker" where
  "broker_connect self client_name =
     (Inr (), self\<lparr>connections := (connections self)(client_name \<mapsto> connection_new)\<rparr>)"

text \<open>\<open>None\<close>: the call waits for room in the channel.\<close>

definition broker_send :: "winnow \<Rightarrow> Broker \<Rightarrow> rstr \<Rightarrow> MqttPacket \<Rightarrow>
    ((TestHarnessError + unit) \<times> Broker) option outcome" where
  "broker_send W self client_name packet =
     (case connections self client_name of
        None \<Rightarrow> Return (Some (Inl (ClientNotFound client_name), self))
      | Some c \<Rightarrow>
          (case MqttPacket_new W packet of
             Panic \<Rightarrow> Panic
           | Return p \<Rightarrow>
               Return
                 (if \<not> task_running c then Some (Inl ChannelError, self)
                  else if packet_queue c = [] then
                    Some (Inr (), self\<lparr>connections := (connections self)(client_name \<mapsto> c\<lparr>packet_queue := [p]\<rparr>)\<rparr>)
                  else None)))"

definition broker_connack :: MConnack where
  "broker_connack =
     \<lparr>connack_session_present = False, connack_reason_code = Success,
      connack_properties = props_new ConnackProperties\<rparr>"

definition send_connack :: "winnow \<Rightarrow> Broker \<Rightarrow> rstr \<Rightarrow>
    ((TestHarnessError + unit) \<times> Broker) option outcome" where
  "send_connack W self client_name = broker_send W self client_name (Connack broker_connack)"

text \<open>The loop over the recorded packets: the first answer other than \<open>Ok(false)\<close> counts.\<close>

fun check_packets :: "(MqttPacket \<Rightarrow> TestHarnessError + bool) \<Rightarrow> MqttPacket list \<Rightarrow> TestHarnessError + bool" where
  "check_packets func [] = Inr False"
| "check_packets func (packet # packets) =
     (case func packet of
        Inl e \<Rightarrow> Inl e
      | Inr b \<Rightarrow> if b then Inr True else check_packets func packets)"

definition has_received_packet :: "Broker \<Rightarrow> rstr \<Rightarrow> (MqttPacket \<Rightarrow> TestHarnessError + bool) \<Rightarrow>
    TestHarnessError + bool" where
  "has_received_packet self client_name func =
     (case connections self client_name of
        None \<Rightarrow> Inl (ClientNotFound client_name)
      | Some c \<Rightarrow> check_packets func (received_packets c))"

text \<open>
  The tasks of a connection. \<open>arrive\<close> is the client writing to the stream; \<open>stop\<close> covers
  the ends of the connection task: the stream is closed, a packet does not decode, the broker is
  dropped, or a packet cannot be written. The collecting task has no end: after \<open>stop\<close> the sender of the
  broadcast channel is gone, and \<open>recv\<close> returns \<open>Err(Closed)\<close> at once, every time, so that the task
  goes round its loop forever, writing a warning each time. Since that changes nothing that is recorded, it is
  no step here; what it takes from the other tasks of a single-threaded runtime is not modelled.
\<close>

inductive connection_step :: "winnow \<Rightarrow> BrokerConnection \<Rightarrow> BrokerConnection \<Rightarrow> bool" for W where
  receive: "task_running c \<Longrightarrow> decode W (read_buffer c) = (Return (Inr (Some p)), src) \<Longrightarrow>
    connection_step W c (c\<lparr>read_buffer := src, last_packet := Some p, lagged := (last_packet c \<noteq> None \<or> lagged c)\<rparr>)"
| send: "task_running c \<Longrightarrow> packet_queue c = p # ps \<Longrightarrow>
    encode W p (write_buffer c) = (Return (Inr ()), dst) \<Longrightarrow>
    connection_step W c (c\<lparr>packet_queue := ps, write_buffer := dst\<rparr>)"
| stop: "task_running c \<Longrightarrow> connection_step W c (c\<lparr>task_running := False\<rparr>)"
| collect_lagged: "lagged c \<Longrightarrow> connection_step W c (c\<lparr>lagged := False\<rparr>)"
| collect: "\<not> lagged c \<Longrightarrow> last_packet c = Some p \<Longrightarrow>
    connection_step W c (c\<lparr>last_packet := None, received_packets := received_packets c @ [p]\<rparr>)"

text \<open>
  The states of a connection, with all bytes that have arrived; in \<open>deliver\<close> some of those
  written reach the other side.
\<close>

inductive connection_reachable :: "winnow \<Rightarrow> bytes \<Rightarrow> BrokerConnection \<Rightarrow> bool" for W where
  new: "connection_reachable W [] connection_new"
| arrive: "connection_reachable W arrived c \<Longrightarrow>
    connection_reachable W (arrived @ bs) (c\<lparr>read_buffer := read_buffer c @ bs\<rparr>)"
| queue: "connection_reachable W arrived c \<Longrightarrow> packet_queue c = [] \<Longrightarrow>
    connection_reachable W arrived (c\<lparr>packet_queue := [p]\<rparr>)"
| deliver: "connection_reachable W arrived c \<Longrightarrow> write_buffer c = xs @ ys \<Longrightarrow>
    connection_reachable W arrived (c\<lparr>write_buffer := ys\<rparr>)"
| step: "connection_reachable W arrived c \<Longrightarrow> connection_step W c c' \<Longrightarrow> connection_reachable W arrived c'"

section \<open>The client of the harness\<close>

record ('s, 'k) HarnessClient =
  harness_client :: "('s, 'k) CloudmqttClient"
  client_name :: rstr

definition HarnessClient_new :: "'s \<Rightarrow> rstr \<Rightarrow> ('s, 'k) HarnessClient" where
  "HarnessClient_new pis name = \<lparr>harness_client = CloudmqttClient_new pis, client_name = name\<rparr>"

text \<open>
  The client's end of a new stream. The channel to the router is not part of the stream:
  \<open>core_connect\<close> puts the state of the client's own in the place of \<open>router_open\<close>.
\<close>

definition duplex_io :: io where
  "duplex_io = \<lparr>wire = [], to_router = [], wire_open = True, router_open = True\<rparr>"

text \<open>All three \<open>unwrap\<close>s are panics.\<close>

definition connect_to_and_ack :: "winnow \<Rightarrow> ('s, 'k) HarnessClient \<Rightarrow> Broker \<Rightarrow>
    (('s, 'k) HarnessClient \<times> Broker) option outcome" where
  "connect_to_and_ack W self broker =
     (case cloud_connect (harness_client self) duplex_io of
        (Inl e, c) \<Rightarrow> Panic
      | (Inr _, c) \<Rightarrow>
          (case broker_connect broker (client_name self) of
             (Inl e, broker') \<Rightarrow> Panic
           | (Inr _, broker') \<Rightarrow>
               (case send_connack W broker' (client_name self) of
                  Panic \<Rightarrow> Panic
                | Return None \<Rightarrow> Return None
                | Return (Some (Inl e, broker'')) \<Rightarrow> Panic
                | Return (Some (Inr _, broker'')) \<Rightarrow>
                    Return (Some (self\<lparr>harness_client := c\<rparr>, broker'')))))"

definition client_publish :: "winnow \<Rightarrow> ('s, 'k) HarnessClient \<Rightarrow> bytes \<Rightarrow> rstr \<Rightarrow>
    ((TestHarnessError + unit) \<times> ('s, 'k) HarnessClient) option outcome" where
  "client_publish W self payload topic =
     (case cloud_publish W (harness_client self) payload topic of
        Panic \<Rightarrow> Panic
      | Return None \<Rightarrow> Return None
      | Return (Some (r, c)) \<Rightarrow>
          Return (Some (case r of Inl e \<Rightarrow> Inl (ClientError e) | Inr u \<Rightarrow> Inr u,
            self\<lparr>harness_client := c\<rparr>)))"

section \<open>The harness\<close>

record ('s, 'k) TestHarness =
  brokers :: "rstr \<rightharpoonup> Broker"
  clients :: "rstr \<rightharpoonup> ('s, 'k) HarnessClient"

definition TestHarness_new :: "('s, 'k) TestHarness" where
  "TestHarness_new = \<lparr>brokers = Map.empty, clients = Map.empty\<rparr>"

definition start_broker :: "('s, 'k) TestHarness \<Rightarrow> rstr \<Rightarrow> (TestHarnessError + unit) \<times> ('s, 'k) TestHarness" where
  "start_broker self name = (Inr (), self\<lparr>brokers := (brokers self)(name \<mapsto> Broker_new name)\<rparr>)"

definition create_client :: "'s \<Rightarrow> ('s, 'k) TestHarness \<Rightarrow> rstr \<Rightarrow>
    (TestHarnessError + unit) \<times> ('s, 'k) TestHarness" where
  "create_client pis self name =
     (Inr (), self\<lparr>clients := (clients self)(name \<mapsto> HarnessClient_new pis name)\<rparr>)"

text \<open>\<open>block_on\<close> of a call that waits lets the tasks go on; \<open>None\<close> is the call at that point.\<close>

definition connect_client_to_broker :: "winnow \<Rightarrow> ('s, 'k) TestHarness \<Rightarrow> rstr \<Rightarrow> rstr \<Rightarrow>
    ((TestHarnessError + unit) \<times> ('s, 'k) TestHarness) option outcome" where
  "connect_client_to_broker W self client broker =
     (case brokers self broker of
        None \<Rightarrow> Return (Some (Inl (BrokerNotFound broker), self))
      | Some b \<Rightarrow>
          (case clients self client of
             None \<Rightarrow> Return (Some (Inl (ClientNotFound client), self))
           | Some c \<Rightarrow>
               (case connect_to_and_ack W c b of
                  Panic \<Rightarrow> Panic
                | Return None \<Rightarrow> Return None
                | Return (Some (c', b')) \<Rightarrow>
                    Return (Some (Inr (), self\<lparr>brokers := (brokers self)(broker \<mapsto> b'),
                      clients := (clients self)(client \<mapsto> c')\<rparr>)))))"

definition harness_publish :: "winnow \<Rightarrow> ('s, 'k) TestHarness \<Rightarrow> rstr \<Rightarrow> rstr \<Rightarrow> rstr \<Rightarrow>
    ((TestHarnessError + unit) \<times> ('s, 'k) TestHarness) option outcome" where
  "harness_publish W self client payload topic =
     (case clients self client of
        None \<Rightarrow> Return (Some (Inl (ClientNotFound client), self))
      | Some c \<Rightarrow>
          (case client_publish W c payload topic of
             Panic \<Rightarrow> Panic
           | Return None \<Rightarrow> Return None
           | Return (Some (r, c')) \<Rightarrow>
               Return (Some (r, self\<lparr>clients := (clients self)(client \<mapsto> c')\<rparr>))))"

definition harness_message :: "rstr \<Rightarrow> rstr \<Rightarrow> MPublish" where
  "harness_message payload topic =
     \<lparr>pub_duplicate = False, pub_quality_of_service = AtLeastOnce, pub_retain = False,
      pub_topic_name = topic, pub_packet_identifier = None,
      pub_properties = props_new PublishProperties, pub_payload = payload\<rparr>"

definition publish_to_client :: "winnow \<Rightarrow> ('s, 'k) TestHarness \<Rightarrow> rstr \<Rightarrow> rstr \<Rightarrow> rstr \<Rightarrow> rstr \<Rightarrow>
    ((TestHarnessError + unit) \<times> ('s, 'k) TestHarness) option outcome" where
  "publish_to_client W self broker client payload topic =
     (case brokers self broker of
        None \<Rightarrow> Return (Some (Inl (BrokerNotFound broker), self))
      | Some b \<Rightarrow>
          (case broker_send W b client (Publish (harness_message payload topic)) of
             Panic \<Rightarrow> Panic
           | Return None \<Rightarrow> Return None
           | Return (Some (r, b')) \<Rightarrow>
               Return (Some (r, self\<lparr>brokers := (brokers self)(broker \<mapsto> b')\<rparr>))))"

text \<open>The closures that look at the recorded packets; a payload that differs is only logged.\<close>

definition check_publish :: "rstr \<Rightarrow> rstr \<Rightarrow> MqttPacket \<Rightarrow> TestHarnessError + bool" where
  "check_publish expected_payload expected_topic packet =
     (case packet of
        Publish p \<Rightarrow>
          if pub_topic_name p \<noteq> expected_topic
          then Inl (UnexpectedTopic expected_topic (pub_topic_name p))
          else
            (case from_utf8 (pub_payload p) of
               None \<Rightarrow> Inl PayloadNotUtf8
             | Some payload \<Rightarrow> Inr True)
      | _ \<Rightarrow> Inr False)"

definition check_for_publish_on_broker :: "('s, 'k) TestHarness \<Rightarrow> rstr \<Rightarrow> rstr \<Rightarrow> rstr \<Rightarrow> rstr \<Rightarrow>
    TestHarnessError + bool" where
  "check_for_publish_on_broker self broker client expected_payload expected_topic =
     (case brokers self broker of
        None \<Rightarrow> Inl (BrokerNotFound broker)
      | Some b \<Rightarrow> has_received_packet b client (check_publish expected_payload expected_topic))"

definition check_connect :: "rstr \<Rightarrow> MqttPacket \<Rightarrow> TestHarnessError + bool" where
  "check_connect client_identifier packet =
     (case packet of
        Connect c \<Rightarrow>
          if con_client_identifier c = client_identifier then Inr True
          else Inl (UnexpectedClientIdentifier (con_client_identifier c) client_identifier)
      | _ \<Rightarrow> Inr False)"

definition check_for_connect_on_broker :: "('s, 'k) TestHarness \<Rightarrow> rstr \<Rightarrow> rstr \<Rightarrow> rstr \<Rightarrow>
    TestHarnessError + bool" where
  "check_for_connect_on_broker self broker client client_identifier =
     (case brokers self broker of
        None \<Rightarrow> Inl (BrokerNotFound broker)
      | Some b \<Rightarrow> has_received_packet b client (check_connect client_identifier))"

lemmas harness_defs [defs] =
  Broker_new_def connection_new_def broker_connect_def broker_send_def broker_connack_def
  send_connack_def has_received_packet_def HarnessClient_new_def duplex_io_def
  connect_to_and_ack_def client_publish_def TestHarness_new_def start_broker_def create_client_def
  connect_client_to_broker_def harness_publish_def harness_message_def publish_to_client_def
  check_publish_def check_for_publish_on_broker_def check_connect_def
  check_for_connect_on_broker_def

section \<open>What a broker records\<close>

text \<open>What was collected, and what is about to be.\<close>

definition recorded :: "BrokerConnection \<Rightarrow> MqttPacket list" where
  "recorded c = received_packets c @ (case last_packet c of None \<Rightarrow> [] | Some p \<Rightarrow> [p])"

context winnow_spec begin

lemma decode_stream_prefix:
  assumes "list_all (packet_ok W) ps" and "prefix src (concat (map (enc_packet W) ps))"
    and "decode W src = (Return (Inr (Some p)), src')"
  shows "\<exists>q qs. ps = q # qs \<and> p = packet_canon W q \<and> src = enc_packet W q @ src'"
proof (cases ps)
  case Nil
  with assms(2,3) show ?thesis by (simp add: decode_def)
next
  case (Cons q qs)
  then have q: "packet_ok W q" using assms(1) by simp
  from assms(2) Cons obtain t where t: "enc_packet W q @ concat (map (enc_packet W) qs) = src @ t"
    by (auto simp: prefix_def)
  then consider "strict_prefix src (enc_packet W q)" | r where "src = enc_packet W q @ r"
    by (auto simp: append_eq_append_conv2 strict_prefix_def prefix_def)
  then show ?thesis
  proof cases
    case 1
    with decode_prefix [OF q] assms(3) show ?thesis by simp
  next
    case 2
    with decode_enc [OF q] assms(3) Cons show ?thesis by simp
  qed
qed

lemma connection_records:
  assumes "connection_reachable W arrived c" and "list_all (packet_ok W) ps"
    and "prefix arrived (concat (map (enc_packet W) ps))"
  shows "\<exists>qs rs. ps = qs @ rs \<and> arrived = concat (map (enc_packet W) qs) @ read_buffer c \<and>
    subseq (recorded c) (map (packet_canon W) qs)"
  using assms
proof (induction rule: connection_reachable.induct)
  case new
  then show ?case
    by (intro exI [of _ "[]"] exI [of _ ps]) (simp add: connection_new_def recorded_def)
next
  case (arrive arrived c bs)
  then have "prefix arrived (concat (map (enc_packet W) ps))" by (blast dest: append_prefixD)
  with arrive show ?case by (fastforce simp: recorded_def)
next
  case (queue arrived c p)
  then show ?case by (simp add: recorded_def)
next
  case (deliver arrived c xs ys)
  then show ?case by (simp add: recorded_def)
next
  case (step arrived c c')
  then obtain qs rs where i: "ps = qs @ rs" "arrived = concat (map (enc_packet W) qs) @ read_buffer c"
    "subseq (recorded c) (map (packet_canon W) qs)" by blast
  then have keep: ?case if "read_buffer c' = read_buffer c" "recorded c' = recorded c"
    using that by auto
  from step.hyps(2) show ?case
  proof cases
    case (receive p src)
    have "prefix (read_buffer c) (concat (map (enc_packet W) rs))" "list_all (packet_ok W) rs"
      using step.prems i(1,2) by simp_all
    from decode_stream_prefix [OF this(2,1) receive(3)] obtain q rs' where
      q: "rs = q # rs'" "p = packet_canon W q" "read_buffer c = enc_packet W q @ src" by blast
    have "subseq (received_packets c) (map (packet_canon W) qs)"
      using i(3) by (auto simp: recorded_def intro: subseq_order.trans)
    with i q receive(1) show ?thesis
      by (intro exI [of _ "qs @ [q]"] exI [of _ rs']) (simp add: recorded_def list_emb_append_mono)
  qed (rule keep; simp add: recorded_def)+
qed

text \<open>
  The harness sends messages of quality of service 1 without an identifier. The bytes are those of
  the message of quality of service 0 behind a different first byte, and are read with the length
  of the properties and the first byte of the payload as identifier and the second one as length.
\<close>

definition harness_body :: "rstr \<Rightarrow> rstr \<Rightarrow> bytes" where
  "harness_body payload topic = enc_data topic @ 0 # payload"

lemma unat_ucast_u8: "unat (ucast (b :: u8) :: u16) = unat b" "unat (ucast b :: u32) = unat b"
  using unat_u8_less [of b] by (simp_all add: unsigned_ucast_eq take_bit_nat_eq_self)

lemma identifier_zero_byte:
  "PacketIdentifier_parse W (0 # a # r) =
     (if a = 0 then PErr Backtrack else POk (ucast a) r)"
proof -
  have "(word_cat (0 :: u8) a :: u16) = ucast a"
    by (rule bit_word_eqI) (auto simp: bit_simps)
  then show ?thesis
    by (simp add: PacketIdentifier_parse_def parse_u16_nonzero_def p_try_map_def be_u16_Cons
        word_unat_eq_iff unat_ucast_u8)
qed

lemma harness_message_parse:
  assumes "str_ok topic" and "list_all (\<lambda>b. unat b < 128) payload"
    and "case payload of a # b # bs \<Rightarrow> length bs < unat b | _ \<Rightarrow> True"
  shows "\<exists>e. MPublish_parse W False AtLeastOnce False (harness_body payload topic) = PErr e"
proof (cases "sanity_check_topic_name topic")
  case False
  then show ?thesis
    using assms(1) by (simp add: MPublish_parse_def p_bind_def harness_body_def str.parse_enc p_fail_def)
next
  case True
  consider "payload = []" | a where "payload = [a]" | a b bs where "payload = a # b # bs"
    by (metis list.exhaust)
  then have "\<exists>e. p_bind (p_map Some (PacketIdentifier_parse W))
      (\<lambda>i. p_bind (props_parse W PublishProperties) (g i)) (0 # payload) = PErr e"
    for g :: "PacketIdentifier option \<Rightarrow> props \<Rightarrow> MPublish parser"
  proof cases
    case 1
    then show ?thesis
      by (simp add: p_bind_def p_map_def PacketIdentifier_parse_def parse_u16_nonzero_def p_try_map_def
          be_u16_short)
  next
    case 2
    have "parse_variable_u32 W False [] = PErr Backtrack"
      by (rule parse_var_cases [of "[]" False]) auto
    with 2 show ?thesis
      by (simp add: p_bind_def p_map_def identifier_zero_byte props_parse_def length_take)
  next
    case 3
    then have b: "unat b < 128" "length bs < unat b" using assms(2,3) by auto
    then have "parse_variable_u32 W False (b # bs) = POk (word_of_nat (unat b)) bs"
      using parse_var_front [of "[]" b False bs] by (simp add: var_cont_def high_bit)
    with 3 b(2) show ?thesis
      by (simp add: p_bind_def p_map_def identifier_zero_byte props_parse_def length_take unat_ucast_u8)
  qed
  then show ?thesis
    using assms(1) True by (simp add: MPublish_parse_def p_bind_def harness_body_def str.parse_enc)
qed

text \<open>So the packet cannot be made, and sending it panics.\<close>

lemma harness_message_panics:
  assumes "str_ok topic" and "0x23 \<notin> set topic" and "0x2A \<notin> set topic"
    and "list_all (\<lambda>b. unat b < 128) payload"
    and "case payload of a # b # bs \<Rightarrow> length bs < unat b | _ \<Rightarrow> True"
    and "length topic + length payload \<le> 268435452"
  shows "MqttPacket_new W (Publish (harness_message payload topic)) = Panic"
proof -
  define p q where "p = harness_message payload topic" and "q = cloud_publish_packet payload topic"
  define body where "body = harness_body payload topic"
  have n: "length body \<le> 268435455" using assms(6) by (simp add: body_def harness_body_def)
  have q: "packet_ok W (Publish q)"
    unfolding q_def by (rule cloud_publish_ok) (use assms in simp_all)
  have enc: "enc_body W (Publish q) = body"
    by (simp add: q_def cloud_publish_packet_def enc_publish_def enc_opt_def harness_body_def body_def)
  have same: "packet_write W (Publish p) = packet_write W (Publish q)"
    "packet_size W (Publish p) = packet_size W (Publish q)"
    by (simp_all add: p_def q_def harness_message_def cloud_publish_packet_def MPublish_write_def
        MPublish_binary_size_def)
  have "writes (MqttPacket_write W (Publish p))
      ([header_byte (header_of (Publish p))] @ enc_var (word_of_nat (length body)) @ body)"
    using packet_write_enc [of "Publish q"] packet_size_enc [of "Publish q"] q
    unfolding same [symmetric] packet_ok_def enc by (intro MqttPacket_write_body n) simp_all
  moreover obtain e where e: "parse_packet W (header_of (Publish p)) body = PErr e"
    using harness_message_parse [OF assms(1,4,5)]
    by (auto simp: p_map_def p_def harness_message_def body_def)
  ultimately show ?thesis
    using MqttPacket_parse_body [OF n, of "header_of (Publish p)" "[]"] unfolding p_def [symmetric]
    by (simp add: MqttPacket_new_def writesD parse_complete_def e del: header_of.simps split: option.split)
qed

text \<open>The answer of the broker is a packet both sides can represent.\<close>

lemma broker_connack_ok: "packet_ok W (Connack broker_connack)"
  by (simp add: packet_ok_def broker_connack_def connack_ok_def enc_connack_def fits_def ConnackProperties_def
      reason_ok_def ConnackReasonCode_def)

lemma broker_connack_canon: "packet_canon W (Connack broker_connack) = Connack broker_connack"
  by (simp add: broker_connack_def connack_canon_def)

end

section \<open>What the checks say\<close>

text \<open>The first PUBLISH the broker has recorded decides, whatever its payload.\<close>

fun first_publish :: "MqttPacket list \<Rightarrow> MPublish option" where
  "first_publish [] = None"
| "first_publish (p # ps) = (case p of Publish q \<Rightarrow> Some q | _ \<Rightarrow> first_publish ps)"

lemma check_publish_first:
  "check_packets (check_publish payload topic) ps =
     (case first_publish ps of
        None \<Rightarrow> Inr False
      | Some p \<Rightarrow>
          if pub_topic_name p \<noteq> topic then Inl (UnexpectedTopic topic (pub_topic_name p))
          else if utf8_valid (pub_payload p) then Inr True
          else Inl PayloadNotUtf8)"
  by (induction ps) (auto simp: check_publish_def from_utf8_def split: MqttPacket.split)

section \<open>Properties\<close>

definition example_publish :: "rstr \<Rightarrow> MqttPacket" where
  "example_publish payload = Publish (cloud_publish_packet payload [0x61])"

lemma example_publish_ok: "list_all (packet_ok winnow_ref) [example_publish [0x31], example_publish [0x32]]"
proof -
  have "str_ok [0x61]" by code_simp
  then show ?thesis by (simp add: example_publish_def winnow_spec.cloud_publish_ok [OF winnow_ref_spec])
qed

text \<open>
  Two messages that arrive together are decoded before the collecting task runs: the first one is
  overwritten and never recorded.
\<close>

lemma broker_loses_packet:
  "connection_reachable winnow_ref
     (enc_packet winnow_ref (example_publish [0x31]) @ enc_packet winnow_ref (example_publish [0x32]))
     (connection_new\<lparr>received_packets := [example_publish [0x32]]\<rparr>)"
proof -
  define a b where "a = enc_packet winnow_ref (example_publish [0x31])"
    and "b = enc_packet winnow_ref (example_publish [0x32])"
  have ok: "packet_ok winnow_ref (example_publish [0x31])" "packet_ok winnow_ref (example_publish [0x32])"
    using example_publish_ok by simp_all
  have canon: "packet_canon winnow_ref (example_publish x) = example_publish x" for x
    by (simp add: example_publish_def winnow_spec.cloud_publish_canon [OF winnow_ref_spec])
  note arrived = connection_reachable.arrive [OF connection_reachable.new, where bs = "a @ b" and W = winnow_ref]
  note first = connection_reachable.step [OF arrived connection_step.receive
      [where p = "example_publish [0x31]" and src = b]]
  note second = connection_reachable.step [OF first connection_step.receive
      [where p = "example_publish [0x32]" and src = "[]"]]
  note warned = connection_reachable.step [OF second connection_step.collect_lagged]
  note collected = connection_reachable.step [OF warned connection_step.collect
      [where p = "example_publish [0x32]"]]
  show ?thesis
    using collected winnow_spec.decode_enc [OF winnow_ref_spec ok(1), of b]
      winnow_spec.decode_enc [OF winnow_ref_spec ok(2), of "[]"]
    by (simp add: connection_new_def canon a_def b_def)
qed

text \<open>
  C33. \<open>publish_to_client\<close> never gets a short text message to a client: it builds a PUBLISH of
  quality of service 1 without packet identifier, whose bytes \<open>MqttPacket::new\<close> cannot read
  back, so that it panics for every valid topic and every payload of at most 33 printable ASCII
  characters, as soon as the broker knows the client.
\<close>

theorem publish_to_client_panics:
  assumes "winnow_spec W" and "brokers h broker = Some b" and "connections b client = Some c"
    and "str_ok topic" and "0x23 \<notin> set topic" and "0x2A \<notin> set topic"
    and "list_all (\<lambda>x. 0x20 \<le> x \<and> x < 0x80) payload" and "length payload \<le> 33"
  shows "publish_to_client W h broker client payload topic = Panic"
proof -
  have "length topic \<le> 65535" using assms(4) by (simp add: str_ok_def)
  moreover have "case payload of x # y # ys \<Rightarrow> length ys < unat y | _ \<Rightarrow> True"
    using assms(7,8) by (auto simp: word_le_nat_alt split: list.split)
  moreover have "list_all (\<lambda>x. unat x < 128) payload"
    using assms(7) by (auto simp: list_all_iff word_less_nat_alt)
  ultimately have "MqttPacket_new W (Publish (harness_message payload topic)) = Panic"
    using assms(4-6,8) by (intro winnow_spec.harness_message_panics [OF assms(1)]) simp_all
  with assms(2,3) show ?thesis by (simp add: publish_to_client_def broker_send_def)
qed

definition example_harness :: "(UsizeStore, nat) TestHarness" where
  "example_harness =
     TestHarness_new\<lparr>brokers := [[0x62] \<mapsto> (Broker_new [0x62])\<lparr>connections := [[0x63] \<mapsto> connection_new]\<rparr>]\<rparr>"

theorem publish_to_client_panics_witness:
  "publish_to_client winnow_ref example_harness [0x62] [0x63] [0x68, 0x65, 0x6C, 0x6C, 0x6F] [0x61] = Panic"
proof (rule publish_to_client_panics [OF winnow_ref_spec, where c = connection_new
      and b = "(Broker_new [0x62])\<lparr>connections := [[0x63] \<mapsto> connection_new]\<rparr>"])
  show "str_ok [0x61]" by code_simp
qed (simp_all add: example_harness_def)

text \<open>
  What \<open>check_for_publish_on_broker\<close> tells: only the first PUBLISH the broker has recorded
  counts. Another topic there is an error even if the expected message follows, and the expected
  payload plays no part.
\<close>

lemma check_for_publish_exact:
  "check_for_publish_on_broker h broker client payload topic =
     (case brokers h broker of
        None \<Rightarrow> Inl (BrokerNotFound broker)
      | Some b \<Rightarrow>
          (case connections b client of
             None \<Rightarrow> Inl (ClientNotFound client)
           | Some c \<Rightarrow>
               (case first_publish (received_packets c) of
                  None \<Rightarrow> Inr False
                | Some p \<Rightarrow>
                    if pub_topic_name p \<noteq> topic then Inl (UnexpectedTopic topic (pub_topic_name p))
                    else if utf8_valid (pub_payload p) then Inr True
                    else Inl PayloadNotUtf8)))"
  by (simp add: check_for_publish_on_broker_def has_received_packet_def check_publish_first
      split: option.split)

end
