(* ===== verification/Test_Runner.thy ===== *)
theory Test_Runner
  imports Test_Harness
begin

text \<open>
  \<open>cloudmqtt/tests/check_cases.rs\<close>: the verbs and conditions of the test scripts and what they
  call, and the system they drive: a harness whose clients and brokers are connected by streams, the
  tasks of both ends running. Parsing a script is the work of another crate, \<open>test_dsl\<close>, and a
  parameter, as is the parsing of durations.
\<close>

section \<open>The system\<close>

text \<open>
  The stream between a client and a broker, under their names: the task at the client's end, by the
  number of its channel, the bytes on their way to the broker and those that have arrived at the
  client. The broker's end is part of its \<open>BrokerConnection\<close>, which has the same names.
  \<open>pipe_core\<close> is the \<open>CoreClient\<close> the task belongs to: \<open>None\<close> is that of the client now known
  under the name, \<open>Some\<close> that of one it has replaced, whose task goes on all the same. In the same way
  \<open>pipe_left\<close> is the broker's end when the broker has been replaced: its tasks go on, and
  \<open>receiver.recv()\<close> yields what is still queued before it tells that the sender is gone. The stream
  of the code has room for 100 bytes; a task that waits for room is here one that has not run yet. A client
  that connects to a broker again under the same names gets a new pipe in place of the old one, whose
  ends no condition of a script can see any more.
\<close>

record 's pipe =
  pipe_core :: "'s core option"
  pipe_task :: nat
  pipe_out :: bytes
  pipe_in :: bytes
  pipe_left :: "BrokerConnection option"

record ('s, 'k) harness_sys =
  sys_harness :: "('s, 'k) TestHarness"
  sys_pipes :: "rstr \<times> rstr \<rightharpoonup> 's pipe"  \<comment> \<open>client, broker\<close>

definition sys_new :: "('s, 'k) harness_sys" where
  "sys_new = \<lparr>sys_harness = TestHarness_new, sys_pipes = Map.empty\<rparr>"

abbreviation client_core :: "('s, 'k) HarnessClient \<Rightarrow> 's core" where
  "client_core cl \<equiv> core_client (harness_client cl)"

abbreviation sys_client :: "('s, 'k) harness_sys \<Rightarrow> rstr \<Rightarrow> ('s, 'k) HarnessClient option" where
  "sys_client s n \<equiv> clients (sys_harness s) n"

definition core_of :: "('s, 'k) harness_sys \<Rightarrow> rstr \<Rightarrow> 's pipe \<Rightarrow> 's core option" where
  "core_of s n p =
     (case pipe_core p of Some core \<Rightarrow> Some core | None \<Rightarrow> map_option client_core (sys_client s n))"

definition set_pipe :: "('s, 'k) harness_sys \<Rightarrow> rstr \<Rightarrow> rstr \<Rightarrow> 's pipe \<Rightarrow> ('s, 'k) harness_sys" where
  "set_pipe s n b p = s\<lparr>sys_pipes := (sys_pipes s)((n, b) \<mapsto> p)\<rparr>"

text \<open>The client's end of a stream after a step of its task.\<close>

definition set_end :: "('s, 'k) harness_sys \<Rightarrow> rstr \<Rightarrow> rstr \<Rightarrow> 's pipe \<Rightarrow> 's core \<Rightarrow> ('s, 'k) harness_sys" where
  "set_end s n b p core =
     (case pipe_core p of
        Some _ \<Rightarrow> set_pipe s n b (p\<lparr>pipe_core := Some core\<rparr>)
      | None \<Rightarrow>
          set_pipe (s\<lparr>sys_harness := (sys_harness s)\<lparr>clients := (clients (sys_harness s))
            (n := map_option (\<lambda>cl. cl\<lparr>harness_client := (harness_client cl)\<lparr>core_client := core\<rparr>\<rparr>) (sys_client s n))\<rparr>\<rparr>)
            n b p)"

definition connection_of :: "('s, 'k) harness_sys \<Rightarrow> rstr \<Rightarrow> rstr \<Rightarrow> BrokerConnection option" where
  "connection_of s n b =
     (case brokers (sys_harness s) b of None \<Rightarrow> None | Some broker \<Rightarrow> connections broker n)"

definition set_connection :: "('s, 'k) harness_sys \<Rightarrow> rstr \<Rightarrow> rstr \<Rightarrow> BrokerConnection \<Rightarrow> ('s, 'k) harness_sys" where
  "set_connection s n b conn =
     (case brokers (sys_harness s) b of
        None \<Rightarrow> s
      | Some broker \<Rightarrow> s\<lparr>sys_harness := (sys_harness s)\<lparr>brokers := (brokers (sys_harness s))
          (b \<mapsto> broker\<lparr>connections := (connections broker)(n \<mapsto> conn)\<rparr>)\<rparr>\<rparr>)"

text \<open>
  The broker's end of a stream; whether it has been dropped; and whether, beyond that, all it has sent
  has arrived.
\<close>

definition peer_of :: "('s, 'k) harness_sys \<Rightarrow> rstr \<Rightarrow> rstr \<Rightarrow> 's pipe \<Rightarrow> BrokerConnection option" where
  "peer_of s n b p =
     (case connection_of s n b of Some conn \<Rightarrow> Some conn | None \<Rightarrow> pipe_left p)"

definition peer_dropped :: "BrokerConnection option \<Rightarrow> bool" where
  "peer_dropped peer = (case peer of None \<Rightarrow> True | Some conn \<Rightarrow> \<not> task_running conn)"

definition peer_gone :: "BrokerConnection option \<Rightarrow> bool" where
  "peer_gone peer =
     (case peer of None \<Rightarrow> True | Some conn \<Rightarrow> \<not> task_running conn \<and> write_buffer conn = [])"

section \<open>Its tasks\<close>

text \<open>
  The task of a client with the bytes it reads; \<open>task_run\<close> of theory Core_Client leaves open which
  packets arrive.
\<close>

inductive client_task :: "winnow \<Rightarrow> 's pis \<Rightarrow> (rstr \<Rightarrow> u64) \<Rightarrow> 's conn_task \<Rightarrow> SendUsage list \<Rightarrow> bytes \<Rightarrow>
    ('s fsm \<times> io) outcome \<Rightarrow> SendUsage list \<Rightarrow> bytes \<Rightarrow> bool" for W S fx where
  start: "task_stage t = Starting \<Longrightarrow>
    client_task W S fx t us buf (connection_start W fx now (task_fsm t) (task_io t)) us buf"
| incoming: "task_stage t = Looping \<Longrightarrow> decode W buf = (Return (Inr (Some p)), rest) \<Longrightarrow>
    client_task W S fx t us buf (connection_incoming W S fx now (task_fsm t) (task_io t) p) us rest"
| to_send: "task_stage t = Looping \<Longrightarrow> is_connected (connection_state (task_fsm t)) \<Longrightarrow>
    client_task W S fx t (u # us) buf (connection_to_send W S fx clock now (task_fsm t) (task_io t) u) us buf"

text \<open>
  The steps of a client's end, with what it puts on the stream. A loop ends when there is nothing
  more to read or what there is does not decode. A write fails as soon as the broker's end has been
  dropped (\<open>hangup\<close>), also while there is something left to read; the end of a router closes the
  channel to it.
\<close>

inductive end_step :: "winnow \<Rightarrow> 's pis \<Rightarrow> (rstr \<Rightarrow> u64) \<Rightarrow> BrokerConnection option \<Rightarrow> nat \<Rightarrow>
    's core \<Rightarrow> bytes \<Rightarrow> 's core \<Rightarrow> bytes \<Rightarrow> bytes \<Rightarrow> bool" for W S fx peer k where
  run: "core_tasks c k = Some t \<Longrightarrow>
    client_task W S fx t (core_queue c k) buf (Return (m, out)) us rest \<Longrightarrow>
    end_step W S fx peer k c buf
      (c\<lparr>core_tasks := (core_tasks c)(k \<mapsto> \<lparr>task_fsm = m, task_io = out, task_stage = Looping\<rparr>),
         core_queue := (core_queue c)(k := us)\<rparr>)
      rest (drop (length (wire (task_io t))) (wire out))"
| crash: "core_tasks c k = Some t \<Longrightarrow>
    client_task W S fx t (core_queue c k) buf Panic us rest \<Longrightarrow>
    end_step W S fx peer k c buf (c\<lparr>core_tasks := (core_tasks c)(k := None)\<rparr>) rest []"
| close: "core_tasks c k = Some t \<Longrightarrow> task_stage t = Looping \<Longrightarrow>
    decode W buf = (Return (Inl e), rest) \<or> peer_gone peer \<and> decode W buf = (Return (Inr None), rest) \<Longrightarrow>
    end_step W S fx peer k c buf
      (c\<lparr>core_tasks := (core_tasks c)(k \<mapsto> t\<lparr>task_stage := Closing\<rparr>)\<rparr>) rest []"
| finish: "core_tasks c k = Some t \<Longrightarrow> task_stage t = Closing \<Longrightarrow>
    end_step W S fx peer k c buf
      (c\<lparr>core_tasks := (core_tasks c)(k := None),
         core_state := Unconnected (connection_lost S (task_fsm t) now)\<rparr>) buf []"
| hangup: "core_tasks c k = Some t \<Longrightarrow> peer_dropped peer \<Longrightarrow>
    end_step W S fx peer k c buf
      (c\<lparr>core_tasks := (core_tasks c)(k \<mapsto> t\<lparr>task_io := (task_io t)\<lparr>wire_open := False\<rparr>\<rparr>)\<rparr>) buf []"
| router_ends: "end_step W S fx peer k c buf (router_closed c) buf []"

inductive harness_step :: "winnow \<Rightarrow> 's pis \<Rightarrow> (rstr \<Rightarrow> u64) \<Rightarrow>
    ('s, 'k) harness_sys \<Rightarrow> ('s, 'k) harness_sys \<Rightarrow> bool" for W S fx where
  client: "sys_pipes s (n, b) = Some p \<Longrightarrow> core_of s n p = Some core \<Longrightarrow>
    end_step W S fx (peer_of s n b p) (pipe_task p) core (pipe_in p) core' rest written \<Longrightarrow>
    harness_step W S fx s (set_end s n b (p\<lparr>pipe_in := rest, pipe_out := pipe_out p @ written\<rparr>) core')"
| broker: "connection_of s n b = Some conn \<Longrightarrow> connection_step W conn conn' \<Longrightarrow>
    harness_step W S fx s (set_connection s n b conn')"
| to_broker: "sys_pipes s (n, b) = Some p \<Longrightarrow> pipe_out p = xs @ ys \<Longrightarrow> connection_of s n b = Some conn \<Longrightarrow>
    harness_step W S fx s (set_connection (set_pipe s n b (p\<lparr>pipe_out := ys\<rparr>)) n b
      (conn\<lparr>read_buffer := read_buffer conn @ xs\<rparr>))"
| to_client: "sys_pipes s (n, b) = Some p \<Longrightarrow> connection_of s n b = Some conn \<Longrightarrow> write_buffer conn = xs @ ys \<Longrightarrow>
    harness_step W S fx s (set_pipe (set_connection s n b (conn\<lparr>write_buffer := ys\<rparr>))
      n b (p\<lparr>pipe_in := pipe_in p @ xs\<rparr>))"
| left: "sys_pipes s (n, b) = Some p \<Longrightarrow> connection_of s n b = None \<Longrightarrow> pipe_left p = Some conn \<Longrightarrow>
    connection_step W conn conn' \<Longrightarrow>
    harness_step W S fx s (set_pipe s n b (p\<lparr>pipe_left := Some conn'\<rparr>))"
| to_left: "sys_pipes s (n, b) = Some p \<Longrightarrow> connection_of s n b = None \<Longrightarrow> pipe_left p = Some conn \<Longrightarrow>
    pipe_out p = xs @ ys \<Longrightarrow>
    harness_step W S fx s (set_pipe s n b
      (p\<lparr>pipe_out := ys, pipe_left := Some (conn\<lparr>read_buffer := read_buffer conn @ xs\<rparr>)\<rparr>))"
| from_left: "sys_pipes s (n, b) = Some p \<Longrightarrow> connection_of s n b = None \<Longrightarrow> pipe_left p = Some conn \<Longrightarrow>
    write_buffer conn = xs @ ys \<Longrightarrow>
    harness_step W S fx s (set_pipe s n b
      (p\<lparr>pipe_in := pipe_in p @ xs, pipe_left := Some (conn\<lparr>write_buffer := ys\<rparr>)\<rparr>))"

section \<open>Verbs and conditions\<close>

text \<open>The closures \<open>setup_test_dsl\<close> registers, under their names, with their arguments.\<close>

datatype verb =
    Start_Broker rstr
  | Sleep rstr
  | Create_Client rstr
  | Connect_To_Broker rstr rstr  \<comment> \<open>client, broker\<close>
  | Publish_Verb rstr rstr rstr  \<comment> \<open>client, payload, topic\<close>
  | Publish_To_Client rstr rstr rstr rstr  \<comment> \<open>broker, client, payload, topic\<close>

datatype condition =
    Connect_Received rstr rstr rstr  \<comment> \<open>broker, client, client identifier\<close>
  | Publish_Received rstr rstr rstr rstr  \<comment> \<open>broker, client, payload, topic\<close>

datatype diagnostic = Harness_Diagnostic TestHarnessError | Duration_Diagnostic

definition into_diagnostic :: "TestHarnessError + 'a \<Rightarrow> diagnostic + 'a" where
  "into_diagnostic r = (case r of Inl e \<Rightarrow> Inl (Harness_Diagnostic e) | Inr x \<Rightarrow> Inr x)"

definition on_harness :: "('s, 'k) harness_sys \<Rightarrow> ((TestHarnessError + unit) \<times> ('s, 'k) TestHarness) option outcome \<Rightarrow>
    ((diagnostic + unit) \<times> ('s, 'k) harness_sys) option outcome" where
  "on_harness s r =
     (case r of
        Panic \<Rightarrow> Panic
      | Return x \<Rightarrow> Return (map_option (\<lambda>(res, h). (into_diagnostic res, s\<lparr>sys_harness := h\<rparr>)) x))"

text \<open>
  What the calls do to the streams: a client that connects gets a new one; a client that is replaced
  leaves its task behind, and so does a broker.
\<close>

definition connect_pipe :: "('s, 'k) harness_sys \<Rightarrow> rstr \<Rightarrow> rstr \<Rightarrow> rstr \<times> rstr \<rightharpoonup> 's pipe" where
  "connect_pipe s client broker =
     (case sys_client s client of
        None \<Rightarrow> sys_pipes s
      | Some cl \<Rightarrow> (sys_pipes s)((client, broker) \<mapsto>
          \<lparr>pipe_core = None, pipe_task = core_next (client_core cl), pipe_out = [], pipe_in = [],
            pipe_left = None\<rparr>))"

definition leave_pipes :: "('s, 'k) harness_sys \<Rightarrow> rstr \<Rightarrow> rstr \<times> rstr \<rightharpoonup> 's pipe" where
  "leave_pipes s client =
     (\<lambda>(n, b). map_option (\<lambda>p. if n = client then p\<lparr>pipe_core := core_of s n p\<rparr> else p) (sys_pipes s (n, b)))"

definition detach_pipes :: "('s, 'k) harness_sys \<Rightarrow> rstr \<Rightarrow> rstr \<times> rstr \<rightharpoonup> 's pipe" where
  "detach_pipes s broker =
     (\<lambda>(n, b). map_option (\<lambda>p. if b = broker then p\<lparr>pipe_left := peer_of s n b p\<rparr> else p) (sys_pipes s (n, b)))"

fun run_verb :: "winnow \<Rightarrow> (rstr \<Rightarrow> 'd option) \<Rightarrow> 's \<Rightarrow> ('s, 'k) harness_sys \<Rightarrow> verb \<Rightarrow>
    ((diagnostic + unit) \<times> ('s, 'k) harness_sys) option outcome" where
  "run_verb W parse_duration pis s (Start_Broker name) =
     on_harness (s\<lparr>sys_pipes := detach_pipes s name\<rparr>) (Return (Some (start_broker (sys_harness s) name)))"
| "run_verb W parse_duration pis s (Sleep duration) =
     Return (Some (case parse_duration duration of None \<Rightarrow> Inl Duration_Diagnostic | Some _ \<Rightarrow> Inr (), s))"
| "run_verb W parse_duration pis s (Create_Client name) =
     on_harness (s\<lparr>sys_pipes := leave_pipes s name\<rparr>) (Return (Some (create_client pis (sys_harness s) name)))"
| "run_verb W parse_duration pis s (Connect_To_Broker client broker) =
     (case on_harness s (connect_client_to_broker W (sys_harness s) client broker) of
        Return (Some (Inr _, s')) \<Rightarrow> Return (Some (Inr (), s'\<lparr>sys_pipes := connect_pipe s client broker\<rparr>))
      | r \<Rightarrow> r)"
| "run_verb W parse_duration pis s (Publish_Verb client payload topic) =
     on_harness s (harness_publish W (sys_harness s) client payload topic)"
| "run_verb W parse_duration pis s (Publish_To_Client broker client payload topic) =
     on_harness s (publish_to_client W (sys_harness s) broker client payload topic)"

fun run_condition :: "('s, 'k) harness_sys \<Rightarrow> condition \<Rightarrow> diagnostic + bool" where
  "run_condition s (Connect_Received broker client client_identifier) =
     into_diagnostic (check_for_connect_on_broker (sys_harness s) broker client client_identifier)"
| "run_condition s (Publish_Received broker client payload topic) =
     (case check_for_publish_on_broker (sys_harness s) broker client payload topic of
        Inl (PacketNotExpected _) \<Rightarrow> Inr False
      | other \<Rightarrow> into_diagnostic other)"

text \<open>\<open>check_cases\<close>: each test case runs on a harness of its own.\<close>

datatype case_error = Parse_Failed | No_Testcases | At_Least_One_Error

definition any_testcase_fails :: "('t \<Rightarrow> ('s, 'k) harness_sys \<Rightarrow> diagnostic + unit) \<Rightarrow> 't list \<Rightarrow> bool" where
  "any_testcase_fails run testcases \<longleftrightarrow> length (filter isl (map (\<lambda>t. run t sys_new) testcases)) \<noteq> 0"

definition check_cases :: "(rstr \<Rightarrow> ('e + 't list)) \<Rightarrow> ('t \<Rightarrow> ('s, 'k) harness_sys \<Rightarrow> diagnostic + unit) \<Rightarrow>
    rstr \<Rightarrow> case_error + unit" where
  "check_cases parse_testcase run contents =
     (case parse_testcase contents of
        Inl e \<Rightarrow> Inl Parse_Failed
      | Inr testcases \<Rightarrow>
          if testcases = [] then Inl No_Testcases
          else if any_testcase_fails run testcases then Inl At_Least_One_Error
          else Inr ())"

section \<open>Running a script\<close>

text \<open>
  The steps of a test case in order, until one fails. The runtime has a single thread, that of the
  test: tasks run while a call waits, above all in \<open>sleep\<close>.
\<close>

datatype script_step = Do verb | Assert condition

inductive script_run :: "winnow \<Rightarrow> 's pis \<Rightarrow> (rstr \<Rightarrow> u64) \<Rightarrow> (rstr \<Rightarrow> 'd option) \<Rightarrow> 's \<Rightarrow>
    ('s, 'k) harness_sys \<Rightarrow> script_step list \<Rightarrow> (diagnostic option + unit) outcome \<Rightarrow> ('s, 'k) harness_sys \<Rightarrow> bool"
  for W S fx dur pis where
  passed: "script_run W S fx dur pis s [] (Return (Inr ())) s"
| verb: "run_verb W dur pis s v = Return (Some (Inr (), s')) \<Longrightarrow>
    script_run W S fx dur pis s' steps r s'' \<Longrightarrow> script_run W S fx dur pis s (Do v # steps) r s''"
| sleeping: "dur d \<noteq> None \<Longrightarrow> harness_step W S fx s s' \<Longrightarrow> script_run W S fx dur pis s' (Do (Sleep d) # steps) r s'' \<Longrightarrow>
    script_run W S fx dur pis s (Do (Sleep d) # steps) r s''"
| waiting: "run_verb W dur pis s v = Return None \<Longrightarrow> harness_step W S fx s s' \<Longrightarrow>
    script_run W S fx dur pis s' (Do v # steps) r s'' \<Longrightarrow> script_run W S fx dur pis s (Do v # steps) r s''"
| failed: "run_verb W dur pis s v = Return (Some (Inl e, s')) \<Longrightarrow>
    script_run W S fx dur pis s (Do v # steps) (Return (Inl (Some e))) s'"
| panicked: "run_verb W dur pis s v = Panic \<Longrightarrow> script_run W S fx dur pis s (Do v # steps) Panic s"
| holds: "run_condition s c = Inr True \<Longrightarrow> script_run W S fx dur pis s steps r s' \<Longrightarrow>
    script_run W S fx dur pis s (Assert c # steps) r s'"
| fails: "run_condition s c = Inr False \<Longrightarrow>
    script_run W S fx dur pis s (Assert c # steps) (Return (Inl None)) s"
| broken: "run_condition s c = Inl e \<Longrightarrow>
    script_run W S fx dur pis s (Assert c # steps) (Return (Inl (Some e))) s"

text \<open>The states of the system, with the calls that have succeeded.\<close>

inductive harness_run :: "winnow \<Rightarrow> 's pis \<Rightarrow> (rstr \<Rightarrow> u64) \<Rightarrow> (rstr \<Rightarrow> 'd option) \<Rightarrow> 's \<Rightarrow>
    verb list \<Rightarrow> ('s, 'k) harness_sys \<Rightarrow> bool" for W S fx dur pis where
  new: "harness_run W S fx dur pis [] sys_new"
| verb: "harness_run W S fx dur pis vs s \<Longrightarrow> run_verb W dur pis s v = Return (Some (Inr (), s')) \<Longrightarrow>
    harness_run W S fx dur pis (vs @ [v]) s'"
| error: "harness_run W S fx dur pis vs s \<Longrightarrow> run_verb W dur pis s v = Return (Some (Inl e, s')) \<Longrightarrow>
    harness_run W S fx dur pis vs s'"
| tasks: "harness_run W S fx dur pis vs s \<Longrightarrow> harness_step W S fx s s' \<Longrightarrow>
    harness_run W S fx dur pis vs s'"

lemmas runner_defs [defs] =
  sys_new_def core_of_def set_pipe_def set_end_def connection_of_def set_connection_def peer_of_def peer_dropped_def
  peer_gone_def   into_diagnostic_def on_harness_def connect_pipe_def leave_pipes_def detach_pipes_def any_testcase_fails_def check_cases_def

section \<open>Lemmas\<close>

lemma set_pipe_simps [simp]:
  "sys_harness (set_pipe s n b p) = sys_harness s"
  "sys_pipes (set_pipe s n b p) = (sys_pipes s)((n, b) \<mapsto> p)"
  by (simp_all add: set_pipe_def)

lemma set_connection_simps [simp]:
  "clients (sys_harness (set_connection s n b conn)) = clients (sys_harness s)"
  "sys_pipes (set_connection s n b conn) = sys_pipes s"
  by (simp_all add: set_connection_def split: option.split)

lemma connection_of_set_connection:
  assumes "connection_of s n b = Some conn0"
  shows "connection_of (set_connection s n b conn) n' b' =
    (if b' = b \<and> n' = n then Some conn else connection_of s n' b')"
  using assms by (simp add: connection_of_def set_connection_def split: option.splits)

lemma connection_of_set_same [simp]:
  "connection_of s n b \<noteq> None \<Longrightarrow> connection_of (set_connection s n b conn) n b = Some conn"
  by (auto simp: connection_of_set_connection)

lemma connection_of_set [simp]:
  "connection_of (set_pipe s n b p) = connection_of s"
  "connection_of (set_end s n b p c) = connection_of s"
  by (simp_all add: connection_of_def set_end_def fun_eq_iff split: option.split)

lemma core_of_set [simp]:
  "core_of (set_pipe s n b p) = core_of s"
  "core_of (set_connection s n b conn) = core_of s"
  by (simp_all add: core_of_def fun_eq_iff split: option.split)

lemma core_of_pipe [simp]:
  "core_of s n (p\<lparr>pipe_out := x\<rparr>) = core_of s n p"
  "core_of s n (p\<lparr>pipe_in := y\<rparr>) = core_of s n p"
  "core_of s n (p\<lparr>pipe_left := l\<rparr>) = core_of s n p"
  by (simp_all add: core_of_def)

lemma set_end_simps:
  "sys_pipes (set_end s n b p core) =
     (sys_pipes s)((n, b) \<mapsto> (case pipe_core p of None \<Rightarrow> p | Some _ \<Rightarrow> p\<lparr>pipe_core := Some core\<rparr>))"
  "sys_client (set_end s n b p core) n' =
     (if n' = n \<and> pipe_core p = None
      then map_option (\<lambda>cl. cl\<lparr>harness_client := (harness_client cl)\<lparr>core_client := core\<rparr>\<rparr>) (sys_client s n)
      else sys_client s n')"
  "core_of (set_end s n b p core) n' p' =
     (if n' = n \<and> pipe_core p = None \<and> pipe_core p' = None \<and> sys_client s n \<noteq> None
      then Some core else core_of s n' p')"
  by (auto simp: set_end_def core_of_def split: option.split)

lemma core_of_live: "pipe_core p = None \<Longrightarrow> core_of s n p = map_option client_core (sys_client s n)"
  by (simp add: core_of_def)

lemma into_diagnostic_simps [simp]:
  "into_diagnostic (Inl e) = Inl (Harness_Diagnostic e)" "into_diagnostic (Inr x) = Inr x"
  "into_diagnostic r = Inr x \<longleftrightarrow> r = Inr x" "Inr x = into_diagnostic r \<longleftrightarrow> r = Inr x"
  by (auto simp: into_diagnostic_def split: sum.split)

lemma on_harness_Return:
  assumes "on_harness s x = Return (Some (r, s'))"
  obtains r' h where "x = Return (Some (r', h))" "r = into_diagnostic r'" "s' = s\<lparr>sys_harness := h\<rparr>"
  using assms by (cases x) (auto simp: on_harness_def)

text \<open>Calls on the harness that fail change nothing.\<close>

lemma connect_client_error:
  "connect_client_to_broker W h client broker = Return (Some (Inl e, h')) \<Longrightarrow> h' = h"
  by (auto simp: connect_client_to_broker_def split: option.splits outcome.splits)

lemma core_send_error: "core_send c u = Some (Inl e, c') \<Longrightarrow> c' = c"
  by (auto simp: core_send_def split: CoreState.splits if_splits)

lemma cloud_publish_error:
  "cloud_publish W c payload topic = Return (Some (Inl e, c')) \<Longrightarrow> c' = c"
  by (auto simp: cloud_publish_def split: outcome.splits dest: core_send_error)

lemma harness_publish_error:
  "harness_publish W h client payload topic = Return (Some (Inl e, h')) \<Longrightarrow> h' = h"
  by (auto simp: harness_publish_def client_publish_def split: option.splits outcome.splits sum.splits
      dest!: cloud_publish_error) (simp add: map_upd_triv)+

lemma connect_client_effect:
  assumes "connect_client_to_broker W h client broker = Return (Some (Inr u, h'))"
  obtains b cl c' q where "brokers h broker = Some b" "clients h client = Some cl"
    "core_connect (client_core cl) duplex_io = (Inr (), c')"
    "h' = h\<lparr>brokers := (brokers h)(broker \<mapsto> b\<lparr>connections := (connections b)
        (client_name cl \<mapsto> connection_new\<lparr>packet_queue := [q]\<rparr>)\<rparr>),
      clients := (clients h)(client \<mapsto> cl\<lparr>harness_client := (harness_client cl)\<lparr>core_client := c'\<rparr>\<rparr>)\<rparr>"
proof -
  obtain b cl where h: "brokers h broker = Some b" "clients h client = Some cl"
    using assms by (auto simp: connect_client_to_broker_def split: option.splits)
  then obtain cl' b' where c: "connect_to_and_ack W cl b = Return (Some (cl', b'))"
    "h' = h\<lparr>brokers := (brokers h)(broker \<mapsto> b'), clients := (clients h)(client \<mapsto> cl')\<rparr>"
    using assms by (auto simp: connect_client_to_broker_def split: outcome.splits option.splits)
  obtain c' where cc: "core_connect (client_core cl) duplex_io = (Inr (), c')"
    using c(1) by (cases "core_connect (client_core cl) duplex_io")
      (auto simp: connect_to_and_ack_def cloud_connect_def split: sum.splits)
  let ?b = "b\<lparr>connections := (connections b)(client_name cl \<mapsto> connection_new)\<rparr>"
  obtain q where "broker_send W ?b (client_name cl) (Connack broker_connack) = Return (Some (Inr (), b'))"
    "cl' = cl\<lparr>harness_client := (harness_client cl)\<lparr>core_client := c'\<rparr>\<rparr>"
    using c(1) cc by (auto simp: connect_to_and_ack_def cloud_connect_def send_connack_def broker_connect_def
        split: sum.splits outcome.splits option.splits)
  then show ?thesis
    using that [OF h cc] c(2)
    by (auto simp: broker_send_def connection_new_def split: outcome.splits)
qed

section \<open>What holds of every part holds in the system\<close>

context winnow_spec begin

lemma decode_packet_ok:
  assumes "decode W src = (Return (Inr (Some p)), rest)"
  shows "packet_ok W p"
  using decode_cases [of src]
proof cases
  case (frame k res)
  with assms have "parse_complete W (take k src) = Inr p" by (auto split: sum.splits)
  then obtain r where "MqttPacket_parse W (take k src) = POk p r"
    by (auto simp: parse_complete_def split: presult.splits)
  then show ?thesis by (rule MqttPacket_parse_sound)
qed (use assms in simp_all)

end

text \<open>What a client has to send, as it was given to \<open>publish\<close> and as it is on its way.\<close>

fun published :: "rstr \<Rightarrow> verb list \<Rightarrow> MPublish list" where
  "published n [] = []"
| "published n (v # vs) =
     (case v of
        Publish_Verb client payload topic \<Rightarrow> if client = n then [cloud_publish_packet payload topic] else []
      | _ \<Rightarrow> []) @ published n vs"

definition publishes :: "MqttPacket list \<Rightarrow> MPublish list" where
  "publishes ps = List.map_filter try_into_publish ps"

definition queued :: "SendUsage list \<Rightarrow> MPublish list" where
  "queued us = List.map_filter (\<lambda>u. case u of PublishUsage p \<Rightarrow> try_into_publish p | _ \<Rightarrow> None) us"

lemma published_append [simp]: "published n (vs @ ws) = published n vs @ published n ws"
  by (induction vs) simp_all

lemma publishes_simps [simp]:
  "publishes [] = []"
  "publishes (p # ps) = (case p of Publish q \<Rightarrow> [q] | _ \<Rightarrow> []) @ publishes ps"
  "publishes (ps @ qs) = publishes ps @ publishes qs"
  by (simp_all add: publishes_def List.map_filter_def split: MqttPacket.split)

lemma cloud_publish_qos [simp]: "pub_quality_of_service (cloud_publish_packet payload topic) = AtMostOnce"
  by (simp add: cloud_publish_packet_def)

lemma queued_simps [simp]:
  "queued [] = []"
  "queued (PublishUsage (Publish p) # us) = p # queued us"
  by (simp_all add: queued_def List.map_filter_def)

context core_contract begin

definition client_packet :: "MqttPacket \<Rightarrow> bool" where
  "client_packet p \<longleftrightarrow> packet_ok W p \<and>
     (p = Connect core_connect_packet \<or> p = Pingreq MPingreq \<or>
      (\<exists>payload topic. p = Publish (cloud_publish_packet payload topic)))"

definition queue_ok :: "SendUsage list \<Rightarrow> bool" where
  "queue_ok us \<longleftrightarrow> (\<forall>u\<in>set us. \<exists>payload topic.
     u = PublishUsage (Publish (cloud_publish_packet payload topic)) \<and>
     packet_ok W (Publish (cloud_publish_packet payload topic)))"

lemma consume_run_no_send:
  assumes "consume_run S fx m p t = Return (a, m')"
  shows "a \<noteq> Some (SendPacket q)"
proof (cases "connection_state m")
  case (Connected con)
  then have "connected_consume S m con p \<noteq> Return (Some (SendPacket q), m'')" for m''
    by (cases p) (auto simp: connected_consume_def split: QualityOfService.split option.split PingState.split
        outcome.split)
  with assms Connected show ?thesis by (auto simp: consume_run_cases split: outcome.splits)
next
  case (ConnectingWithoutAuth sent)
  then show ?thesis
  proof (cases "is_connack_success p")
    case True
    then obtain c where "p = Connack c" "connack_reason_code c = Success" by (cases p) auto
    with assms consume_connack [OF ConnectingWithoutAuth, of c S fx t] show ?thesis by auto
  next
    case False
    with assms ConnectingWithoutAuth connecting_Panic [of fx m sent p] show ?thesis
      by (simp add: consume_run_cases)
  qed
qed (use assms in \<open>simp add: consume_run_cases\<close>)

lemma connection_incoming_wire:
  assumes "connection_incoming W S fx now m out p = Return (m', out')"
  shows "wire out' = wire out"
proof -
  obtain a m1 where r: "consume_run S fx m p now = Return (a, m1)" "handle_option W out a = Return out'"
    using assms by (auto simp: connection_incoming_def split: outcome.splits)
  with consume_run_no_send [OF r(1)] show ?thesis
    by (auto simp: handle_option_def handle_action_def
        split: option.splits ExpectedAction.splits ReceivePacket.splits outcome.splits if_splits)
qed

lemma client_packet_send:
  "client_packet (Connect core_connect_packet)" "client_packet (Pingreq MPingreq)"
  by (simp_all add: client_packet_def connect_packet_ok pingreq_ok)

text \<open>Every step of a task writes packets of the client, the publishes in the order of its channel.\<close>

lemma client_task_writes:
  assumes "client_task W S fx t us buf (Return (m, out)) us' rest" and "task_ok fx t" and "queue_ok us"
  shows "\<exists>qs. wire out = wire (task_io t) @ concat (map (enc_packet W) qs) \<and>
    list_all client_packet qs \<and> publishes qs @ queued us' = queued us \<and> queue_ok us'"
  using assms(1)
proof cases
  case (start now)
  have "rest_ok fx (task_fsm t)" using start assms(2) by (simp add: task_ok_def rest_ok_def)
  moreover have "wire_open (task_io t)"
    using start(1) by (auto simp: connection_start_def framed_send_def
        split: outcome.splits ExpectedAction.splits if_splits)
  ultimately obtain m1 where "connection_start W fx now (task_fsm t) (task_io t) =
      Return (m1, (task_io t)\<lparr>wire := wire (task_io t) @ enc_packet W (Connect core_connect_packet)\<rparr>)"
    using connection_start_sends by blast
  with start assms(3) client_packet_send show ?thesis
    by (intro exI [of _ "[Connect core_connect_packet]"]) simp
next
  case (incoming p now)
  with connection_incoming_wire [of fx now "task_fsm t" "task_io t" p m out] assms(3) show ?thesis
    by (intro exI [of _ "[]"]) simp
next
  case (to_send u clock now)
  then obtain payload topic where u: "u = PublishUsage (Publish (cloud_publish_packet payload topic))"
    and ok: "packet_ok W (Publish (cloud_publish_packet payload topic))"
    using assms(3) by (auto simp: queue_ok_def)
  obtain con where con: "connection_state (task_fsm t) = Connected con"
    using to_send by (cases "connection_state (task_fsm t)") auto
  have "wire_open (task_io t)"
  proof (rule ccontr)
    assume "\<not> wire_open (task_io t)"
    then show False using to_send u con
      by (simp add: connection_to_send_def publisher_loop.simps publisher_run_def publish_def inner_run_publish
          handle_action_def framed_send_def)
  qed
  from connection_publish [OF con cloud_publish_qos ok this, of fx clock now] obtain m1 pings where
    r: "connection_to_send W S fx clock now (task_fsm t) (task_io t) u =
      Return (m1, (task_io t)\<lparr>wire := wire (task_io t) @ enc_packet W (Publish (cloud_publish_packet payload topic)) @
        concat (map (enc_packet W) pings)\<rparr>)" and
      "pings = (if ping_due (task_fsm t) (con\<lparr>last_time_sent := clock 0\<rparr>) now then [Pingreq MPingreq] else [])"
    unfolding u by blast
  then have pings: "pings = [] \<or> pings = [Pingreq MPingreq]" by simp
  have c: "client_packet (Publish (cloud_publish_packet payload topic))"
    using ok by (auto simp: client_packet_def)
  have q: "queue_ok us'" using assms(3) to_send by (simp add: queue_ok_def)
  from r pings c q to_send u client_packet_send show ?thesis
    by (intro exI [of _ "Publish (cloud_publish_packet payload topic) # pings"]) auto
qed

definition core_ok :: "(rstr \<Rightarrow> u64) \<Rightarrow> 's core \<Rightarrow> bool" where
  "core_ok fx c \<longleftrightarrow> core_inv fx c \<and> (\<forall>k. queue_ok (core_queue c k)) \<and>
     (\<forall>k. core_next c \<le> k \<longrightarrow> core_queue c k = [])"

lemma client_task_run:
  "client_task W S fx t us buf r us' rest \<Longrightarrow> task_run W S fx t us r us'"
  by (induction rule: client_task.induct)
    (auto intro: task_run.intros dest: decode_packet_ok packet_ok_ids)

lemma end_step_core:
  assumes "end_step W S fx peer k c buf c' rest written"
  shows "core_step W S fx c c'"
  using assms
  by cases (blast intro: core_step.intros client_task_run)+

lemma core_inv_at:
  assumes "core_inv fx c" and "core_tasks c k = Some t"
  shows "task_ok fx t" and "k < core_next c"
  using assms by (auto simp: core_inv_def)

text \<open>What a client's end puts on the stream it takes from its channel.\<close>

lemma end_step_ok:
  assumes "end_step W S fx peer k c buf c' rest written" and "core_ok fx c"
  shows "core_ok fx c'" and "core_next c' = core_next c"
    and "\<exists>qs. written = concat (map (enc_packet W) qs) \<and> list_all client_packet qs \<and>
      publishes qs @ queued (core_queue c' k) = queued (core_queue c k) \<and>
      (\<forall>l. l \<noteq> k \<longrightarrow> core_queue c' l = core_queue c l)"
proof -
  have i: "core_inv fx c'"
    using core_step_inv [OF end_step_core [OF assms(1)]] assms(2) by (simp add: core_ok_def)
  have quiet: "core_next c' = core_next c \<and> core_ok fx c' \<and>
    (\<exists>qs. written = concat (map (enc_packet W) qs) \<and> list_all client_packet qs \<and>
      publishes qs @ queued (core_queue c' k) = queued (core_queue c k) \<and>
      (\<forall>l. l \<noteq> k \<longrightarrow> core_queue c' l = core_queue c l))"
    if "written = []" "core_queue c' = core_queue c" "core_next c' = core_next c"
    using i assms(2) that by (intro conjI exI [of _ "[]"]) (simp_all add: core_ok_def)
  have "core_next c' = core_next c \<and> core_ok fx c' \<and>
    (\<exists>qs. written = concat (map (enc_packet W) qs) \<and> list_all client_packet qs \<and>
      publishes qs @ queued (core_queue c' k) = queued (core_queue c k) \<and>
      (\<forall>l. l \<noteq> k \<longrightarrow> core_queue c' l = core_queue c l))"
    using assms(1)
  proof cases
    case (run t m out us)
    have c: "core_inv fx c" "queue_ok (core_queue c k)" "\<And>l. core_next c \<le> l \<Longrightarrow> core_queue c l = []"
      using assms(2) by (simp_all add: core_ok_def)
    from client_task_writes [OF run(4) core_inv_at(1) [OF c(1) run(3)] c(2)] obtain qs where
      "wire out = wire (task_io t) @ concat (map (enc_packet W) qs)" "list_all client_packet qs"
      "publishes qs @ queued us = queued (core_queue c k)" "queue_ok us" by blast
    with run(1,2) i assms(2) core_inv_at(2) [OF c(1) run(3)] show ?thesis by (auto simp: core_ok_def)
  qed (rule quiet; simp)+
  then show "core_ok fx c'" "core_next c' = core_next c"
    "\<exists>qs. written = concat (map (enc_packet W) qs) \<and> list_all client_packet qs \<and>
      publishes qs @ queued (core_queue c' k) = queued (core_queue c k) \<and>
      (\<forall>l. l \<noteq> k \<longrightarrow> core_queue c' l = core_queue c l)" by blast+
qed

definition stream_ok :: "MPublish list \<Rightarrow> BrokerConnection \<Rightarrow> 's pipe \<Rightarrow> 's core \<Rightarrow> bool" where
  "stream_ok ms conn p core \<longleftrightarrow>
     (\<exists>arrived ps. connection_reachable W arrived conn \<and> arrived @ pipe_out p = concat (map (enc_packet W) ps) \<and>
        list_all client_packet ps \<and> subseq (publishes ps @ queued (core_queue core (pipe_task p))) ms)"

lemma stream_ok_mono:
  assumes "stream_ok ms conn p core" and "subseq ms ms'" and "pipe_out p' = pipe_out p"
    and "pipe_task p' = pipe_task p"
    and "subseq (queued (core_queue core' (pipe_task p))) (queued (core_queue core (pipe_task p)))"
  shows "stream_ok ms' conn p' core'"
proof -
  obtain arrived ps where a: "connection_reachable W arrived conn" "list_all client_packet ps"
    "arrived @ pipe_out p = concat (map (enc_packet W) ps)"
    "subseq (publishes ps @ queued (core_queue core (pipe_task p))) ms"
    using assms(1) by (auto simp: stream_ok_def)
  have "subseq (publishes ps @ queued (core_queue core' (pipe_task p))) ms'"
    using a(4) assms(2,5) by (blast intro: list_emb_append_mono subseq_order.trans)
  with a assms(3,4) show ?thesis unfolding stream_ok_def by auto
qed

lemma stream_ok_end:
  assumes "stream_ok ms conn p core" and "core_ok fx core"
    and "end_step W S fx peer (pipe_task p) core buf core' rest written"
    and "pipe_out p' = pipe_out p @ written" and "pipe_task p' = pipe_task p"
  shows "stream_ok ms conn p' core'"
proof -
  obtain arrived ps where a: "connection_reachable W arrived conn" "list_all client_packet ps"
    "arrived @ pipe_out p = concat (map (enc_packet W) ps)"
    "subseq (publishes ps @ queued (core_queue core (pipe_task p))) ms"
    using assms(1) by (auto simp: stream_ok_def)
  obtain qs where "written = concat (map (enc_packet W) qs)" "list_all client_packet qs"
    "publishes qs @ queued (core_queue core' (pipe_task p)) = queued (core_queue core (pipe_task p))"
    using end_step_ok(3) [OF assms(3,2)] by blast
  with a assms(4,5) show ?thesis
    unfolding stream_ok_def by (intro exI [of _ arrived] exI [of _ "ps @ qs"]) simp
qed

lemma stream_ok_step:
  "stream_ok ms conn p core \<Longrightarrow> connection_step W conn conn' \<Longrightarrow> stream_ok ms conn' p core"
  by (auto simp: stream_ok_def intro: connection_reachable.step)

lemma stream_ok_new:
  assumes "core_queue core k = []"
  shows "stream_ok ms (connection_new\<lparr>packet_queue := [q]\<rparr>)
    \<lparr>pipe_core = None, pipe_task = k, pipe_out = [], pipe_in = [],
            pipe_left = None\<rparr> core"
proof -
  have "connection_reachable W [] (connection_new\<lparr>packet_queue := [q]\<rparr>)"
    by (rule connection_reachable.queue [OF connection_reachable.new]) (simp add: connection_new_def)
  then show ?thesis
    using assms unfolding stream_ok_def by (intro exI [of _ "[]"]) simp
qed

lemma stream_ok_publish:
  assumes "stream_ok ms conn p core" and "core_queue core k = []"
  shows "stream_ok (ms @ [m]) conn p (core\<lparr>core_queue := (core_queue core)(k := [PublishUsage (Publish m)])\<rparr>)"
  using assms by (fastforce simp: stream_ok_def intro: list_emb_append_mono list_emb_append2 subseq_order.trans)

lemma stream_ok_queue:
  "stream_ok ms conn p core \<Longrightarrow> packet_queue conn = [] \<Longrightarrow> stream_ok ms (conn\<lparr>packet_queue := [q]\<rparr>) p core"
  by (auto simp: stream_ok_def intro: connection_reachable.queue)

lemma stream_ok_deliver:
  assumes "stream_ok ms conn p core" and "write_buffer conn = xs @ ys"
  shows "stream_ok ms (conn\<lparr>write_buffer := ys\<rparr>) (p\<lparr>pipe_in := zs\<rparr>) core"
  using assms by (fastforce simp: stream_ok_def intro: connection_reachable.deliver)

lemma stream_ok_arrive:
  assumes "stream_ok ms conn p core" and "pipe_out p = xs @ ys"
  shows "stream_ok ms (conn\<lparr>read_buffer := read_buffer conn @ xs\<rparr>) (p\<lparr>pipe_out := ys\<rparr>) core"
  using assms by (fastforce simp: stream_ok_def intro: connection_reachable.arrive)

definition sys_inv :: "(rstr \<Rightarrow> u64) \<Rightarrow> verb list \<Rightarrow> ('s, 'k) harness_sys \<Rightarrow> bool" where
  "sys_inv fx vs s \<longleftrightarrow>
     (\<forall>n cl. sys_client s n = Some cl \<longrightarrow> client_name cl = n \<and> core_ok fx (client_core cl)) \<and>
     (\<forall>n b p. sys_pipes s (n, b) = Some p \<longrightarrow>
        (\<exists>core. core_of s n p = Some core \<and> core_ok fx core \<and> pipe_task p < core_next core)) \<and>
     (\<forall>n b conn. connection_of s n b = Some conn \<longrightarrow>
        (\<exists>p core. sys_pipes s (n, b) = Some p \<and> core_of s n p = Some core \<and>
           stream_ok (published n vs) conn p core))"

text \<open>Of a state whose parts change little, only what changes is left to show.\<close>

lemma sys_inv_D:
  assumes "sys_inv fx vs s"
  shows "sys_client s n = Some cl \<Longrightarrow> client_name cl = n \<and> core_ok fx (client_core cl)"
    and "sys_pipes s (n, b) = Some p \<Longrightarrow> core_of s n p = Some core \<Longrightarrow> core_ok fx core \<and> pipe_task p < core_next core"
    and "sys_pipes s (n, b) = Some p \<Longrightarrow> \<exists>core. core_of s n p = Some core \<and> core_ok fx core \<and> pipe_task p < core_next core"
    and "connection_of s n b = Some conn \<Longrightarrow>
      \<exists>p core. sys_pipes s (n, b) = Some p \<and> core_of s n p = Some core \<and> stream_ok (published n vs) conn p core"
  using assms unfolding sys_inv_def by (blast | fastforce)+

lemma sys_inv_new: "sys_inv fx [] sys_new"
  by (simp add: sys_inv_def sys_new_def TestHarness_new_def connection_of_def)

lemma sys_inv_client:
  assumes "sys_pipes s (n, b) = Some p" and "core_of s n p = Some core"
    and "end_step W S fx peer (pipe_task p) core (pipe_in p) core' rest written" and "sys_inv fx vs s"
  shows "sys_inv fx vs (set_end s n b (p\<lparr>pipe_in := rest, pipe_out := pipe_out p @ written\<rparr>) core')"
    (is "sys_inv fx vs (set_end s n b ?p core')")
proof -
  let ?s = "set_end s n b ?p core'"
  have c: "core_ok fx core" "pipe_task p < core_next core"
    using sys_inv_D(2) [OF assms(4,1,2)] by simp_all
  note ok = end_step_ok [OF assms(3) c(1)]
  have sub: "subseq (queued (core_queue core' l)) (queued (core_queue core l))" for l
    using ok(3) by (cases "l = pipe_task p") (metis list_emb_append2 subseq_order.order_refl)+
  show ?thesis
    unfolding sys_inv_def
  proof (intro conjI allI impI)
    fix n' cl assume "sys_client ?s n' = Some cl"
    then show "client_name cl = n'" "core_ok fx (client_core cl)"
      using ok(1) sys_inv_D(1) [OF assms(4)] by (auto simp: set_end_simps split: if_splits)
  next
    fix n' b' p' assume p': "sys_pipes ?s (n', b') = Some p'"
    show "\<exists>core. core_of ?s n' p' = Some core \<and> core_ok fx core \<and> pipe_task p' < core_next core"
    proof (cases "(n', b') = (n, b)")
      case True
      with p' assms(2) ok(1,2) c(2) show ?thesis
        by (auto simp: set_end_simps core_of_def split: option.splits if_splits)
    next
      case False
      with p' have "sys_pipes s (n', b') = Some p'" by (auto simp: set_end_simps)
      with sys_inv_D(3) [OF assms(4) this] assms(2) ok(1,2) show ?thesis
        by (auto simp: set_end_simps core_of_def split: option.splits)
    qed
  next
    fix n' b' conn assume "connection_of ?s n' b' = Some conn"
    then obtain q c1 where q: "sys_pipes s (n', b') = Some q" "core_of s n' q = Some c1"
      "stream_ok (published n' vs) conn q c1"
      using sys_inv_D(4) [OF assms(4), of n' b' conn] by auto
    show "\<exists>p core. sys_pipes ?s (n', b') = Some p \<and> core_of ?s n' p = Some core \<and>
        stream_ok (published n' vs) conn p core"
    proof (cases "(n', b') = (n, b)")
      case True
      define p' where "p' = (case pipe_core ?p of None \<Rightarrow> ?p | Some _ \<Rightarrow> ?p\<lparr>pipe_core := Some core'\<rparr>)"
      have "stream_ok (published n vs) conn p core" using q assms(1,2) True by simp
      then have "stream_ok (published n vs) conn p' core'"
        by (rule stream_ok_end [OF _ c(1) assms(3)]) (simp_all add: p'_def split: option.split)
      moreover have "sys_pipes ?s (n, b) = Some p'" "core_of ?s n p' = Some core'"
        using assms(2) by (auto simp: set_end_simps core_of_def p'_def split: option.splits)
      ultimately show ?thesis using True by simp
    next
      case False
      then have p: "sys_pipes ?s (n', b') = Some q" using q(1) by (auto simp: set_end_simps)
      show ?thesis
      proof (cases "n' = n \<and> pipe_core p = None \<and> pipe_core q = None")
        case True
        then have "c1 = core" using q(2) assms(2) by (auto simp: core_of_def)
        with True q p assms(2) stream_ok_mono [OF q(3) subseq_order.order_refl refl refl, of core'] sub
        show ?thesis by (auto simp: set_end_simps core_of_def)
      next
        case False
        with q p show ?thesis by (auto simp: set_end_simps)
      qed
    qed
  qed
qed

text \<open>Bytes that move between the ends of a stream.\<close>

lemma sys_inv_move:
  assumes "sys_inv fx vs s" and "connection_of s n b = Some conn" and "sys_pipes s (n, b) = Some p"
    and "sys_pipes s' = (sys_pipes s)((n, b) \<mapsto> p')" and "clients (sys_harness s') = clients (sys_harness s)"
    and "connection_of s' n b = Some conn'"
    and "\<And>n' b'. (n', b') \<noteq> (n, b) \<Longrightarrow> connection_of s' n' b' = connection_of s n' b'"
    and "pipe_core p' = pipe_core p" and "pipe_task p' = pipe_task p"
    and "\<And>ms core. stream_ok ms conn p core \<Longrightarrow> stream_ok ms conn' p' core"
  shows "sys_inv fx vs s'"
proof -
  have c: "core_of s' n' q = core_of s n' q" for n' q using assms(5) by (simp add: core_of_def split: option.split)
  have p': "core_of s n p' = core_of s n p" using assms(8) by (simp add: core_of_def)
  show ?thesis
    unfolding sys_inv_def
  proof (intro conjI allI impI)
    fix n' cl assume "sys_client s' n' = Some cl"
    then show "client_name cl = n'" "core_ok fx (client_core cl)"
      using sys_inv_D(1) [OF assms(1)] assms(5) by simp_all
  next
    fix n' b' q assume "sys_pipes s' (n', b') = Some q"
    then show "\<exists>core. core_of s' n' q = Some core \<and> core_ok fx core \<and> pipe_task q < core_next core"
      using sys_inv_D(3) [OF assms(1)] assms(3,4,9) p' by (auto simp: c split: if_splits)
  next
    fix n' b' k assume k: "connection_of s' n' b' = Some k"
    show "\<exists>q core. sys_pipes s' (n', b') = Some q \<and> core_of s' n' q = Some core \<and>
        stream_ok (published n' vs) k q core"
    proof (cases "(n', b') = (n, b)")
      case True
      with sys_inv_D(4) [OF assms(1,2)] k assms(3,4,6,10) p' show ?thesis by (auto simp: c)
    next
      case False
      with sys_inv_D(4) [OF assms(1)] k assms(4,7) show ?thesis by (auto simp: c)
    qed
  qed
qed

text \<open>What becomes of a stream whose broker has been replaced concerns no record.\<close>

lemma sys_inv_pipe:
  assumes "sys_inv fx vs s" and "sys_pipes s (n, b) = Some p" and "connection_of s n b = None"
    and "pipe_core p' = pipe_core p" and "pipe_task p' = pipe_task p"
  shows "sys_inv fx vs (set_pipe s n b p')"
proof -
  have p': "core_of s n p' = core_of s n p" using assms(4) by (simp add: core_of_def)
  show ?thesis
    unfolding sys_inv_def
  proof (intro conjI allI impI)
    fix n' cl assume "sys_client (set_pipe s n b p') n' = Some cl"
    then show "client_name cl = n'" "core_ok fx (client_core cl)" using sys_inv_D(1) [OF assms(1)] by simp_all
  next
    fix n' b' q assume "sys_pipes (set_pipe s n b p') (n', b') = Some q"
    then show "\<exists>core. core_of (set_pipe s n b p') n' q = Some core \<and> core_ok fx core \<and> pipe_task q < core_next core"
      using sys_inv_D(3) [OF assms(1)] assms(2,5) p' by (auto split: if_splits)
  next
    fix n' b' k assume "connection_of (set_pipe s n b p') n' b' = Some k"
    then show "\<exists>q core. sys_pipes (set_pipe s n b p') (n', b') = Some q \<and>
        core_of (set_pipe s n b p') n' q = Some core \<and> stream_ok (published n' vs) k q core"
      using sys_inv_D(4) [OF assms(1)] assms(3) by (cases "(n', b') = (n, b)") auto
  qed
qed

lemma sys_inv_step:
  assumes "harness_step W S fx s s'" and "sys_inv fx vs s"
  shows "sys_inv fx vs s'"
  using assms(1)
proof cases
  case (broker n b conn conn')
  then show ?thesis
    using assms(2) stream_ok_step
    by (fastforce simp: sys_inv_def connection_of_set_connection)
next
  case (to_broker n b p xs ys conn)
  show ?thesis
    by (rule sys_inv_move [OF assms(2) to_broker(4,2), where p' = "p\<lparr>pipe_out := ys\<rparr>" and
          conn' = "conn\<lparr>read_buffer := read_buffer conn @ xs\<rparr>"])
      (use to_broker stream_ok_arrive in \<open>auto simp: connection_of_set_connection\<close>)
next
  case (to_client n b p conn xs ys)
  show ?thesis
    by (rule sys_inv_move [OF assms(2) to_client(3,2), where p' = "p\<lparr>pipe_in := pipe_in p @ xs\<rparr>" and
          conn' = "conn\<lparr>write_buffer := ys\<rparr>"])
      (use to_client stream_ok_deliver in \<open>auto simp: connection_of_set_connection\<close>)
next
  case (client n b p core core' rest written)
  with sys_inv_client [OF client(2-4) assms(2)] show ?thesis by simp
next
  case (left n b p conn conn')
  with sys_inv_pipe [OF assms(2) left(2,3)] show ?thesis by simp
next
  case (to_left n b p conn xs ys)
  with sys_inv_pipe [OF assms(2) to_left(2,3)] show ?thesis by simp
next
  case (from_left n b p conn xs ys)
  with sys_inv_pipe [OF assms(2) from_left(2,3)] show ?thesis by simp
qed

text \<open>A script may only publish on topics a PUBLISH can have, and messages that fit into one.\<close>

end

definition verb_ok :: "verb \<Rightarrow> bool" where
  "verb_ok v \<longleftrightarrow>
     (case v of
        Publish_Verb client payload topic \<Rightarrow>
          str_ok topic \<and> 0x23 \<notin> set topic \<and> 0x2A \<notin> set topic \<and> length topic + length payload \<le> 268435452
      | _ \<Rightarrow> True)"

context core_contract begin

lemma core_new_ok: "inv pis \<Longrightarrow> used pis = {} \<Longrightarrow> core_ok fx (core_new pis)"
  using core_reachable_inv [OF core_reachable.new] by (simp add: core_ok_def queue_ok_def core_new_def)

lemma sys_inv_start:
  assumes "sys_inv fx vs s" and "run_verb W dur pis s (Start_Broker name) = Return (Some (r, s'))"
  shows "sys_inv fx vs s'"
proof -
  define d where "d = (\<lambda>n b p. if b = name then p\<lparr>pipe_left := peer_of s n b p\<rparr> else (p :: 's pipe))"
  have s': "clients (sys_harness s') = clients (sys_harness s)"
    "\<And>n b. sys_pipes s' (n, b) = map_option (d n b) (sys_pipes s (n, b))"
    "\<And>n b. connection_of s' n b = (if b = name then None else connection_of s n b)"
    using assms(2) by (auto simp: on_harness_def start_broker_def detach_pipes_def connection_of_def Broker_new_def d_def)
  have d: "pipe_core (d n b p) = pipe_core p" "pipe_task (d n b p) = pipe_task p" for n b p
    by (simp_all add: d_def)
  have c: "core_of s' n q = core_of s n q" "core_of s n (d n' b q) = core_of s n q" for n n' b q
    using s'(1) d by (auto simp: core_of_def split: option.split)
  have same: "b \<noteq> name \<Longrightarrow> d n b p = p" for n b p by (simp add: d_def)
  show ?thesis
    unfolding sys_inv_def s'(1)
    using sys_inv_D [OF assms(1)] by (fastforce simp: s'(2,3) c d same split: if_splits)
qed

lemma sys_inv_create:
  assumes "sys_inv fx vs s" and "run_verb W dur pis s (Create_Client name) = Return (Some (r, s'))"
    and "inv pis" and "used pis = {}"
  shows "sys_inv fx vs s'"
proof -
  define l where "l = (\<lambda>n p. if n = name then p\<lparr>pipe_core := core_of s n p\<rparr> else (p :: 's pipe))"
  have s': "clients (sys_harness s') = (clients (sys_harness s))(name \<mapsto> HarnessClient_new pis name)"
    "\<And>n b. sys_pipes s' (n, b) = map_option (l n) (sys_pipes s (n, b))"
    "connection_of s' = connection_of s"
    using assms(2) by (auto simp: on_harness_def create_client_def leave_pipes_def connection_of_def l_def
        fun_eq_iff)
  have l: "pipe_task (l n p) = pipe_task p" "pipe_out (l n p) = pipe_out p" for n p by (simp_all add: l_def)
  have c: "core_of s' n (l n p) = Some core" if "core_of s n p = Some core" for n p core
    using that by (auto simp: core_of_def l_def s'(1) split: option.splits)
  have st: "stream_ok ms conn (l n p) core" if "stream_ok ms conn p core" for ms conn n p core
    by (rule stream_ok_mono [OF that]) (simp_all add: l)
  show ?thesis
    unfolding sys_inv_def
  proof (intro conjI allI impI)
    fix n cl assume "sys_client s' n = Some cl"
    then show "client_name cl = n" "core_ok fx (client_core cl)"
      using sys_inv_D(1) [OF assms(1)] core_new_ok [OF assms(3,4)]
      by (auto simp: s'(1) HarnessClient_new_def CloudmqttClient_new_def split: if_splits)
  next
    fix n b p assume "sys_pipes s' (n, b) = Some p"
    with sys_inv_D(3) [OF assms(1)] c show "\<exists>core. core_of s' n p = Some core \<and> core_ok fx core \<and> pipe_task p < core_next core"
      by (fastforce simp: s'(2) l)
  next
    fix n b conn assume "connection_of s' n b = Some conn"
    then obtain p core where "sys_pipes s (n, b) = Some p" "core_of s n p = Some core"
      "stream_ok (published n vs) conn p core"
      using sys_inv_D(4) [OF assms(1)] unfolding s'(3) by blast
    with c st show "\<exists>p core. sys_pipes s' (n, b) = Some p \<and> core_of s' n p = Some core \<and>
        stream_ok (published n vs) conn p core"
      by (auto simp: s'(2))
  qed
qed

text \<open>A client that connects has a new stream, and a task that has nothing to send yet.\<close>

lemma core_connect_ok:
  assumes "core_connect c out = (Inr (), c')" and "core_ok fx c"
  shows "core_ok fx c' \<and> core_next c' = Suc (core_next c) \<and> core_queue c' = core_queue c"
  using assms core_connect_inv [OF assms(1)]
  by (auto simp: core_connect_def core_ok_def Let_def split: CoreState.splits)

text \<open>A call on a client changes its core, and may put a new stream in place.\<close>

lemma sys_inv_core:
  assumes "sys_inv fx vs s" and "sys_client s client = Some cl" and "core_ok fx c'"
    and "core_next (client_core cl) \<le> core_next c'"
    and "clients (sys_harness s') = (clients (sys_harness s))(client \<mapsto>
        cl\<lparr>harness_client := (harness_client cl)\<lparr>core_client := c'\<rparr>\<rparr>)"
    and "\<And>n. subseq (published n vs) (published n vs')"
    and "\<And>conn p. stream_ok (published client vs) conn p (client_core cl) \<Longrightarrow> stream_ok (published client vs') conn p c'"
    and "\<And>n b. sys_pipes s' (n, b) = sys_pipes s (n, b) \<and> connection_of s' n b = connection_of s n b \<or>
      n = client \<and> (\<exists>p conn. sys_pipes s' (n, b) = Some p \<and> pipe_core p = None \<and> pipe_task p < core_next c' \<and>
        connection_of s' n b = Some conn \<and> stream_ok (published client vs') conn p c')"
  shows "sys_inv fx vs' s'"
proof -
  have core: "core_of s' n p = (if n = client \<and> pipe_core p = None then Some c' else core_of s n p)" for n p
    using assms(5) by (auto simp: core_of_def split: option.split)
  have old: "core_of s n p = Some (client_core cl)" if "n = client" "pipe_core p = None" for n p
    using that assms(2) by (simp add: core_of_live)
  show ?thesis
    unfolding sys_inv_def
  proof (intro conjI allI impI)
    fix n c assume "sys_client s' n = Some c"
    then show "client_name c = n" "core_ok fx (client_core c)"
      using sys_inv_D(1) [OF assms(1)] assms(2,3) by (auto simp: assms(5) split: if_splits)
  next
    fix n b p assume p: "sys_pipes s' (n, b) = Some p"
    show "\<exists>core. core_of s' n p = Some core \<and> core_ok fx core \<and> pipe_task p < core_next core"
      using assms(8) [of n b] p assms(3,4) sys_inv_D(3) [OF assms(1), of n b p] old [of n p]
      by (auto simp: core)
  next
    fix n b conn assume conn: "connection_of s' n b = Some conn"
    from assms(8) [of n b] show "\<exists>p core. sys_pipes s' (n, b) = Some p \<and> core_of s' n p = Some core \<and>
        stream_ok (published n vs') conn p core"
    proof
      assume "sys_pipes s' (n, b) = sys_pipes s (n, b) \<and> connection_of s' n b = connection_of s n b"
      then obtain p c1 where p: "sys_pipes s' (n, b) = Some p" "core_of s n p = Some c1"
        "stream_ok (published n vs) conn p c1"
        using sys_inv_D(4) [OF assms(1)] conn by metis
      then show ?thesis
        using assms(7) old [of n p] stream_ok_mono [OF p(3) assms(6) refl refl subseq_order.order_refl]
        by (cases "n = client \<and> pipe_core p = None") (auto simp: core)
    qed (use conn in \<open>auto simp: core\<close>)
  qed
qed

lemma sys_inv_connect:
  assumes "sys_inv fx vs s" and "run_verb W dur pis s (Connect_To_Broker client broker) = Return (Some (r, s'))"
  shows "sys_inv fx vs s'"
proof (cases "connect_client_to_broker W (sys_harness s) client broker")
  case (Return x)
  then obtain r' h where x: "connect_client_to_broker W (sys_harness s) client broker = Return (Some (r', h))"
    and s': "case r' of Inl _ \<Rightarrow> s' = s\<lparr>sys_harness := h\<rparr>
      | Inr _ \<Rightarrow> s' = s\<lparr>sys_harness := h, sys_pipes := connect_pipe s client broker\<rparr>"
    using assms(2) by (cases x) (auto simp: on_harness_def into_diagnostic_def split: sum.splits)
  show ?thesis
  proof (cases r')
    case (Inl e)
    with x s' assms(1) connect_client_error show ?thesis by fastforce
  next
    case (Inr u)
    obtain b cl c' q where h: "brokers (sys_harness s) broker = Some b" "sys_client s client = Some cl"
      "core_connect (client_core cl) duplex_io = (Inr (), c')"
      "h = (sys_harness s)\<lparr>brokers := (brokers (sys_harness s))(broker \<mapsto> b\<lparr>connections := (connections b)
          (client_name cl \<mapsto> connection_new\<lparr>packet_queue := [q]\<rparr>)\<rparr>),
        clients := (clients (sys_harness s))
          (client \<mapsto> cl\<lparr>harness_client := (harness_client cl)\<lparr>core_client := c'\<rparr>\<rparr>)\<rparr>"
      using x Inr by (auto elim: connect_client_effect)
    have n: "client_name cl = client" "core_ok fx (client_core cl)"
      using sys_inv_D(1) [OF assms(1) h(2)] by simp_all
    note c' = core_connect_ok [OF h(3) n(2)]
    show ?thesis
    proof (rule sys_inv_core [OF assms(1) h(2)])
      show "stream_ok (published client vs) conn p c'" if "stream_ok (published client vs) conn p (client_core cl)" for conn p
        by (rule stream_ok_mono [OF that]) (simp_all add: c')
      let ?p = "\<lparr>pipe_core = None, pipe_task = core_next (client_core cl), pipe_out = [], pipe_in = [],
            pipe_left = None\<rparr>"
      have "stream_ok (published client vs) (connection_new\<lparr>packet_queue := [q]\<rparr>) ?p c'"
        using c' n(2) by (intro stream_ok_new) (simp add: core_ok_def)
      then show "sys_pipes s' (n, b) = sys_pipes s (n, b) \<and> connection_of s' n b = connection_of s n b \<or>
        n = client \<and> (\<exists>p conn. sys_pipes s' (n, b) = Some p \<and> pipe_core p = None \<and> pipe_task p < core_next c' \<and>
          connection_of s' n b = Some conn \<and> stream_ok (published client vs) conn p c')" for n b
        using h(1,2,4) n(1) s' Inr c' by (auto simp: connect_pipe_def connection_of_def)
    qed (use h(4) s' Inr c' in auto)
  qed
qed (use assms(2) in \<open>simp add: on_harness_def\<close>)

lemma sys_inv_publish:
  assumes "sys_inv fx vs s" and "run_verb W dur pis s (Publish_Verb client payload topic) = Return (Some (Inr (), s'))"
    and "verb_ok (Publish_Verb client payload topic)"
  shows "sys_inv fx (vs @ [Publish_Verb client payload topic]) s'"
proof -
  define m where "m = cloud_publish_packet payload topic"
  have ok: "packet_ok W (Publish m)"
    using assms(3) unfolding m_def by (intro cloud_publish_ok) (simp_all add: verb_ok_def)
  then have new: "MqttPacket_new W (Publish m) = Return (Publish m)"
    by (simp add: MqttPacket_new_ok m_def)
  obtain h where h: "harness_publish W (sys_harness s) client payload topic = Return (Some (Inr (), h))"
    "s' = s\<lparr>sys_harness := h\<rparr>"
    using assms(2) by (auto elim!: on_harness_Return)
  then obtain cl c' where cl: "sys_client s client = Some cl"
    and c': "core_publish (client_core cl) (Publish m) = Some (Inr (), c')"
    and s': "s' = s\<lparr>sys_harness := (sys_harness s)\<lparr>clients := (clients (sys_harness s))
      (client \<mapsto> cl\<lparr>harness_client := (harness_client cl)\<lparr>core_client := c'\<rparr>\<rparr>)\<rparr>\<rparr>"
    using new by (auto simp: harness_publish_def client_publish_def cloud_publish_def m_def
        split: option.splits outcome.splits sum.splits)
  have n: "client_name cl = client" "core_ok fx (client_core cl)"
    using sys_inv_D(1) [OF assms(1) cl] by simp_all
  obtain k where k: "core_state (client_core cl) = ConnectedTo k" "core_queue (client_core cl) k = []"
    "c' = (client_core cl)\<lparr>core_queue := (core_queue (client_core cl))(k := [PublishUsage (Publish m)])\<rparr>"
    using c' by (auto simp: core_send_def split: CoreState.splits if_splits)
  have "queue_ok [PublishUsage (Publish m)]" using ok by (auto simp: queue_ok_def m_def)
  moreover have "k < core_next (client_core cl)"
    using n(2) k(1) by (simp add: core_ok_def core_inv_def)
  ultimately have ok': "core_ok fx c'"
    using n(2) core_send_inv [OF c'] k(3) by (auto simp: core_ok_def)
  show ?thesis
  proof (rule sys_inv_core [OF assms(1) cl ok'])
    show "stream_ok (published client (vs @ [Publish_Verb client payload topic])) conn p c'"
      if "stream_ok (published client vs) conn p (client_core cl)" for conn p
      using stream_ok_publish [OF that, of k m] k(2,3) by (simp add: m_def)
  qed (use k(3) s' in \<open>auto simp: connection_of_def list_emb_prefix\<close>)
qed

lemma publish_error:
  assumes "run_verb W dur pis s (Publish_Verb client payload topic) = Return (Some (Inl e, s'))"
  shows "s' = s"
proof -
  from assms obtain r' h where "harness_publish W (sys_harness s) client payload topic = Return (Some (r', h))"
    "Inl e = into_diagnostic r'" "s' = s\<lparr>sys_harness := h\<rparr>"
    by (auto elim!: on_harness_Return)
  then show ?thesis using harness_publish_error by (cases r') fastforce+
qed

lemma sys_inv_publish_to_client:
  assumes "sys_inv fx vs s" and "run_verb W dur pis s (Publish_To_Client broker client payload topic) = Return (Some (r, s'))"
  shows "sys_inv fx vs s'"
proof -
  obtain r' h where h: "publish_to_client W (sys_harness s) broker client payload topic = Return (Some (r', h))"
    "s' = s\<lparr>sys_harness := h\<rparr>"
    using assms(2) by (auto elim!: on_harness_Return)
  have "s' = s \<or> (\<exists>conn q. connection_of s client broker = Some conn \<and> packet_queue conn = [] \<and>
      s' = set_connection s client broker (conn\<lparr>packet_queue := [q]\<rparr>))"
    using h by (auto simp: publish_to_client_def broker_send_def connection_of_def set_connection_def map_upd_triv
        split: option.splits outcome.splits if_splits)
  then show ?thesis
  proof
    assume "\<exists>conn q. connection_of s client broker = Some conn \<and> packet_queue conn = [] \<and>
      s' = set_connection s client broker (conn\<lparr>packet_queue := [q]\<rparr>)"
    then obtain conn q where c: "connection_of s client broker = Some conn" "packet_queue conn = []"
      "s' = set_connection s client broker (conn\<lparr>packet_queue := [q]\<rparr>)" by blast
    then show ?thesis
      using assms(1) stream_ok_queue
      by (fastforce simp: sys_inv_def connection_of_set_connection)
  qed (use assms(1) in simp)
qed

lemma sys_inv_mono:
  assumes "sys_inv fx vs s"
  shows "sys_inv fx (vs @ [v]) s"
  unfolding sys_inv_def
proof (intro conjI allI impI)
  fix n b conn assume "connection_of s n b = Some conn"
  then obtain p core where "sys_pipes s (n, b) = Some p" "core_of s n p = Some core"
    "stream_ok (published n vs) conn p core"
    using sys_inv_D(4) [OF assms] by blast
  moreover have "stream_ok (published n (vs @ [v])) conn p core"
    by (rule stream_ok_mono [OF calculation(3)]) (simp_all add: list_emb_prefix)
  ultimately show "\<exists>p core. sys_pipes s (n, b) = Some p \<and> core_of s n p = Some core \<and>
      stream_ok (published n (vs @ [v])) conn p core" by blast
qed (use sys_inv_D [OF assms] in blast)+

lemma sys_inv_verb:
  assumes "sys_inv fx vs s" and "run_verb W dur pis s v = Return (Some (r, s'))"
    and "r = Inr () \<Longrightarrow> verb_ok v" and "inv pis" and "used pis = {}"
  shows "sys_inv fx (if r = Inr () then vs @ [v] else vs) s'"
proof -
  have other: ?thesis if "sys_inv fx vs s'" using that sys_inv_mono [OF that] by simp
  show ?thesis
  proof (cases v)
    case (Publish_Verb client payload topic)
    with assms show ?thesis
      using sys_inv_publish publish_error by (cases r) fastforce+
  next
    case (Sleep d)
    with assms have "s' = s" by simp
    with assms(1) show ?thesis by (intro other) simp
  qed (use assms sys_inv_start sys_inv_create sys_inv_connect sys_inv_publish_to_client other in metis)+
qed

lemma harness_run_inv:
  assumes "harness_run W S fx dur pis vs s" and "list_all verb_ok vs" and "inv pis" and "used pis = {}"
  shows "sys_inv fx vs s"
  using assms(1,2)
proof (induction rule: harness_run.induct)
  case new
  show ?case by (rule sys_inv_new)
next
  case (verb vs s v s')
  with sys_inv_verb [OF _ verb(2) _ assms(3,4), of fx vs] show ?case by simp
next
  case (error vs s v e s')
  with sys_inv_verb [OF _ error(2) _ assms(3,4), of fx vs] show ?case by simp
next
  case (tasks vs s s')
  then show ?case using sys_inv_step by blast
qed

lemma client_packet_canon: "client_packet p \<Longrightarrow> packet_canon W p = p"
  by (auto simp: client_packet_def core_connect_packet_def connect_canon_def)

lemma publishes_subseq: "subseq ps qs \<Longrightarrow> subseq (publishes ps) (publishes qs)"
  by (induction rule: list_emb.induct) (auto split: MqttPacket.split intro: list_emb_append2)

lemma subseq_set: "subseq xs ys \<Longrightarrow> x \<in> set xs \<Longrightarrow> x \<in> set ys"
  by (induction rule: list_emb.induct) auto

lemma set_publishes: "m \<in> set (publishes ps) \<longleftrightarrow> Publish m \<in> set ps"
  by (induction ps) (auto split: MqttPacket.splits)

text \<open>What a broker has recorded of a client is what the client was told to send.\<close>

lemma record_faithful:
  assumes "sys_inv fx vs s" and "connection_of s n b = Some conn"
  shows "subseq (publishes (received_packets conn)) (published n vs)"
    and "p \<in> set (received_packets conn) \<Longrightarrow>
      p = Connect core_connect_packet \<or> p = Pingreq MPingreq \<or> p \<in> Publish ` set (published n vs)"
proof -
  obtain q :: "'s pipe" and core :: "'s core" and arrived ps where st: "connection_reachable W arrived conn" "list_all client_packet ps"
    "arrived @ pipe_out q = concat (map (enc_packet W) ps)"
    "subseq (publishes ps @ queued (core_queue core (pipe_task q))) (published n vs)"
    using sys_inv_D(4) [OF assms] unfolding stream_ok_def by blast
  have "list_all (packet_ok W) ps" using st(2) by (auto simp: list_all_iff client_packet_def)
  moreover have "prefix arrived (concat (map (enc_packet W) ps))"
    using st(3) by (metis prefixI)
  ultimately obtain qs rs where q: "ps = qs @ rs" "subseq (recorded conn) (map (packet_canon W) qs)"
    using connection_records [OF st(1)] by blast
  have "subseq (received_packets conn) (recorded conn)" by (simp add: recorded_def list_emb_prefix)
  moreover have "map (packet_canon W) qs = qs"
    using st(2) q(1) client_packet_canon by (auto simp: list_all_iff map_idI)
  ultimately have r: "subseq (received_packets conn) qs" using q(2) subseq_order.trans by metis
  have "subseq (publishes qs) (publishes ps @ queued (core_queue core (pipe_task q)))"
    by (simp add: q(1) list_emb_prefix)
  with publishes_subseq [OF r] st(4) show sub: "subseq (publishes (received_packets conn)) (published n vs)"
    by (blast intro: subseq_order.trans)
  assume p: "p \<in> set (received_packets conn)"
  then have "client_packet p"
    using subseq_set [OF r] st(2) q(1) by (auto simp: list_all_iff)
  moreover have "m \<in> set (published n vs)" if "p = Publish m" for m
    using p that sub set_publishes [of m "received_packets conn"] by (auto dest: subseq_set)
  ultimately show "p = Connect core_connect_packet \<or> p = Pingreq MPingreq \<or> p \<in> Publish ` set (published n vs)"
    by (auto simp: client_packet_def)
qed

end

section \<open>What is sent arrives\<close>

text \<open>
  A client and a broker that are connected, and what tasks can make of them in some number of steps.
\<close>

definition linked :: "('s, 'k) harness_sys \<Rightarrow> rstr \<Rightarrow> rstr \<Rightarrow> 's core \<Rightarrow> 's pipe \<Rightarrow> BrokerConnection \<Rightarrow> bool" where
  "linked s n b core p conn \<longleftrightarrow>
     (\<exists>cl. sys_client s n = Some cl \<and> client_core cl = core) \<and>
     sys_pipes s (n, b) = Some p \<and> pipe_core p = None \<and> connection_of s n b = Some conn"

definition leads :: "winnow \<Rightarrow> 's pis \<Rightarrow> (rstr \<Rightarrow> u64) \<Rightarrow> ('s, 'k) harness_sys \<Rightarrow> rstr \<Rightarrow> rstr \<Rightarrow>
    's core \<Rightarrow> 's pipe \<Rightarrow> BrokerConnection \<Rightarrow> bool" where
  "leads W S fx s n b core p conn \<longleftrightarrow> (\<exists>s'. (harness_step W S fx)\<^sup>*\<^sup>* s s' \<and> linked s' n b core p conn)"

text \<open>The two are at rest, with the client connected; the broker has recorded \<open>rcv\<close>.\<close>

definition at_rest :: "('s, 'k) harness_sys \<Rightarrow> rstr \<Rightarrow> rstr \<Rightarrow> MqttPacket list \<Rightarrow> bool" where
  "at_rest s n b rcv \<longleftrightarrow>
     (\<exists>core p t. linked s n b core p (connection_new\<lparr>received_packets := rcv\<rparr>) \<and>
        core_state core = ConnectedTo (pipe_task p) \<and> core_tasks core (pipe_task p) = Some t \<and>
        core_queue core (pipe_task p) = [] \<and> pipe_out p = [] \<and> pipe_in p = [] \<and>
        task_stage t = Looping \<and> is_connected (connection_state (task_fsm t)) \<and>
        keep_alive (data (task_fsm t)) = 0 \<and> wire_open (task_io t))"

lemma leads_refl: "linked s n b core p conn \<Longrightarrow> leads W S fx s n b core p conn"
  by (auto simp: leads_def)

lemma leads_step:
  fixes s :: "('s, 'k) harness_sys"
  assumes "leads W S fx s n b core p conn"
    and "\<And>s' :: ('s, 'k) harness_sys. linked s' n b core p conn \<Longrightarrow> \<exists>s''. harness_step W S fx s' s'' \<and> linked s'' n b core' p' conn'"
  shows "leads W S fx s n b core' p' conn'"
proof -
  obtain s' where s': "(harness_step W S fx)\<^sup>*\<^sup>* s s'" "linked s' n b core p conn"
    using assms(1) by (auto simp: leads_def)
  from assms(2) [OF s'(2)] obtain s'' where "harness_step W S fx s' s''" "linked s'' n b core' p' conn'"
    by blast
  with rtranclp.rtrancl_into_rtrancl [OF s'(1)] show ?thesis unfolding leads_def by blast
qed

lemma leads_client:
  assumes "leads W S fx s n b core p conn"
    and "\<And>peer. end_step W S fx peer (pipe_task p) core (pipe_in p) core' rest written"
  shows "leads W S fx s n b core' (p\<lparr>pipe_in := rest, pipe_out := pipe_out p @ written\<rparr>) conn"
proof (rule leads_step [OF assms(1)])
  fix s' :: "('a, 'b) harness_sys" assume l: "linked s' n b core p conn"
  then have "harness_step W S fx s' (set_end s' n b (p\<lparr>pipe_in := rest, pipe_out := pipe_out p @ written\<rparr>) core')"
    using assms(2) by (intro harness_step.client [where core = core]) (auto simp: linked_def core_of_def)
  with l show "\<exists>s''. harness_step W S fx s' s'' \<and>
      linked s'' n b core' (p\<lparr>pipe_in := rest, pipe_out := pipe_out p @ written\<rparr>) conn"
    by (auto simp: linked_def set_end_simps intro!: exI)
qed

lemma leads_broker:
  assumes "leads W S fx s n b core p conn" and "connection_step W conn conn'"
  shows "leads W S fx s n b core p conn'"
  by (rule leads_step [OF assms(1)], rule exI, rule conjI, rule harness_step.broker [OF _ assms(2)])
    (auto simp: linked_def connection_of_set_same)

lemma leads_to_broker:
  assumes "leads W S fx s n b core p conn"
  shows "leads W S fx s n b core (p\<lparr>pipe_out := []\<rparr>) (conn\<lparr>read_buffer := read_buffer conn @ pipe_out p\<rparr>)"
  by (rule leads_step [OF assms(1)], rule exI, rule conjI,
      rule harness_step.to_broker [where xs = "pipe_out p" and ys = "[]" and p = p])
    (auto simp: linked_def connection_of_set_same)

lemma leads_to_client:
  assumes "leads W S fx s n b core p conn"
  shows "leads W S fx s n b core (p\<lparr>pipe_in := pipe_in p @ write_buffer conn\<rparr>) (conn\<lparr>write_buffer := []\<rparr>)"
  by (rule leads_step [OF assms(1)], rule exI, rule conjI,
      rule harness_step.to_client [where xs = "write_buffer conn" and ys = "[]" and p = p and conn = conn])
    (auto simp: linked_def connection_of_set_same)

context core_contract begin

lemma leads_record:
  assumes "leads W S fx s n b core p (connection_new\<lparr>received_packets := rcv, read_buffer := enc_packet W q\<rparr>)"
    and "packet_ok W q"
  shows "leads W S fx s n b core p (connection_new\<lparr>received_packets := rcv @ [packet_canon W q]\<rparr>)"
proof -
  have "decode W (enc_packet W q) = (Return (Inr (Some (packet_canon W q))), [])"
    using decode_enc [OF assms(2), of "[]"] by simp
  note received = leads_broker [OF assms(1) connection_step.receive [where p = "packet_canon W q" and src = "[]"]]
  show ?thesis
    using leads_broker [OF received connection_step.collect [where p = "packet_canon W q"]]
      decode_enc [OF assms(2), of "[]"]
    by (simp add: connection_new_def)
qed

lemma connection_publish_idle:
  assumes "connection_state m = Connected con" and "keep_alive (data m) = 0" and "pub_quality_of_service p = AtMostOnce"
    and "packet_ok W (Publish p)" and "wire_open out"
  shows "\<exists>m'. connection_to_send W S fx clock now m out (PublishUsage (Publish p)) =
      Return (m', out\<lparr>wire := wire out @ enc_packet W (Publish p)\<rparr>) \<and>
    is_connected (connection_state m') \<and> keep_alive (data m') = 0"
proof -
  let ?m = "set_last_run (clock 0) (m\<lparr>connection_state := Connected (con\<lparr>last_time_sent := clock 0\<rparr>)\<rparr>)"
  have "\<not> ping_due ?m (con\<lparr>last_time_sent := clock 0\<rparr>) now" using assms(2) by (simp add: ping_due_def)
  then show ?thesis
    using fsm_run_connected [of ?m "con\<lparr>last_time_sent := clock 0\<rparr>" S fx now]
      publisher_loop_qos0 [OF assms(1,3-5), of fx clock] assms(2)
    by (simp add: connection_to_send_def handle_option_def)
qed

lemma leads_at_rest:
  assumes "leads W S fx s n b core p (connection_new\<lparr>received_packets := rcv\<rparr>)"
    and "core_state core = ConnectedTo (pipe_task p)" and "core_tasks core (pipe_task p) = Some t"
    and "core_queue core (pipe_task p) = []" and "pipe_out p = []" and "pipe_in p = []"
    and "task_stage t = Looping" and "is_connected (connection_state (task_fsm t))"
    and "keep_alive (data (task_fsm t)) = 0" and "wire_open (task_io t)"
  shows "\<exists>s'. (harness_step W S fx)\<^sup>*\<^sup>* s s' \<and> at_rest s' n b rcv"
  using assms unfolding leads_def at_rest_def by blast

lemma publish_verb_exact:
  assumes "verb_ok (Publish_Verb n payload topic)" and "sys_client s n = Some cl"
    and "core_state (client_core cl) = ConnectedTo k" and "receiver_alive (client_core cl) k"
    and "core_queue (client_core cl) k = []"
  shows "run_verb W dur pis s (Publish_Verb n payload topic) = Return (Some (Inr (),
    s\<lparr>sys_harness := (sys_harness s)\<lparr>clients := (clients (sys_harness s))(n \<mapsto>
      cl\<lparr>harness_client := (harness_client cl)\<lparr>core_client := (client_core cl)
        \<lparr>core_queue := (core_queue (client_core cl))
          (k := [PublishUsage (Publish (cloud_publish_packet payload topic))])\<rparr>\<rparr>\<rparr>)\<rparr>\<rparr>))"
proof -
  have "packet_ok W (Publish (cloud_publish_packet payload topic))"
    using assms(1) by (intro cloud_publish_ok) (simp_all add: verb_ok_def)
  from MqttPacket_new_ok [OF this] assms(2-5) show ?thesis
    by (simp add: on_harness_def harness_publish_def client_publish_def cloud_publish_def core_send_def)
qed

lemma publish_arrives:
  assumes "at_rest s n b rcv" and "verb_ok (Publish_Verb n payload topic)"
  shows "\<exists>s1 s2. run_verb W dur pis s (Publish_Verb n payload topic) = Return (Some (Inr (), s1)) \<and>
    (harness_step W S fx)\<^sup>*\<^sup>* s1 s2 \<and>
    at_rest s2 n b (rcv @ [Publish (cloud_publish_packet payload topic)])"
proof -
  let ?m = "Publish (cloud_publish_packet payload topic)"
  have ok: "packet_ok W ?m"
    using assms(2) by (intro cloud_publish_ok) (simp_all add: verb_ok_def)
  obtain core p t where r: "linked s n b core p (connection_new\<lparr>received_packets := rcv\<rparr>)"
    "core_state core = ConnectedTo (pipe_task p)" "core_tasks core (pipe_task p) = Some t"
    "core_queue core (pipe_task p) = []" "pipe_out p = []" "pipe_in p = []" "task_stage t = Looping"
    "is_connected (connection_state (task_fsm t))" "keep_alive (data (task_fsm t)) = 0" "wire_open (task_io t)"
    using assms(1) by (auto simp: at_rest_def)
  obtain cl where cl: "sys_client s n = Some cl" "client_core cl = core"
    using r(1) by (auto simp: linked_def)
  let ?c = "core\<lparr>core_queue := (core_queue core)(pipe_task p := [PublishUsage ?m])\<rparr>"
  obtain s1 where s1: "run_verb W dur pis s (Publish_Verb n payload topic) = Return (Some (Inr (), s1))"
    "linked s1 n b ?c p (connection_new\<lparr>received_packets := rcv\<rparr>)"
    using publish_verb_exact [OF assms(2) cl(1), of "pipe_task p" dur pis] r cl
    by (auto simp: receiver_alive_def linked_def connection_of_def)
  obtain con where con: "connection_state (task_fsm t) = Connected con"
    using r(8) by (cases "connection_state (task_fsm t)") auto
  obtain m' where m': "connection_to_send W S fx (\<lambda>_. 0) 0 (task_fsm t) (task_io t) (PublishUsage ?m) =
      Return (m', (task_io t)\<lparr>wire := wire (task_io t) @ enc_packet W ?m\<rparr>)" "is_connected (connection_state m')"
      "keep_alive (data m') = 0"
    using connection_publish_idle [OF con r(9) cloud_publish_qos ok r(10)] by blast
  have run': "client_task W S fx t (core_queue ?c (pipe_task p)) (pipe_in p) (Return (m', (task_io t)\<lparr>wire := wire (task_io t) @ enc_packet W ?m\<rparr>)) [] []"
    using client_task.to_send [OF r(7,8), of W S fx "PublishUsage ?m" "[]" "[]" "\<lambda>_. 0" 0] m'(1) r(6) by simp
  let ?t = "\<lparr>task_fsm = m', task_io = (task_io t)\<lparr>wire := wire (task_io t) @ enc_packet W ?m\<rparr>, task_stage = Looping\<rparr>"
  let ?c' = "core\<lparr>core_tasks := (core_tasks core)(pipe_task p \<mapsto> ?t)\<rparr>"
  have "end_step W S fx peer (pipe_task p) ?c (pipe_in p) ?c' [] (enc_packet W ?m)" for peer
    using end_step.run [where c = ?c and k = "pipe_task p" and peer = peer, OF _ run'] r(3,4)
    by (simp add: fun_upd_idem)
  from leads_client [OF leads_refl [OF s1(2)] this]
  have "leads W S fx s1 n b ?c' (p\<lparr>pipe_out := enc_packet W ?m\<rparr>) (connection_new\<lparr>received_packets := rcv\<rparr>)"
    using r(5,6) by (cases p) simp
  from leads_record [OF _ ok] leads_to_broker [OF this]
  have "leads W S fx s1 n b ?c' (p\<lparr>pipe_out := []\<rparr>) (connection_new\<lparr>received_packets := rcv @ [?m]\<rparr>)"
    by (simp add: connection_new_def)
  from leads_at_rest [OF this, of ?t] have "\<exists>s2. (harness_step W S fx)\<^sup>*\<^sup>* s1 s2 \<and> at_rest s2 n b (rcv @ [?m])"
    using r m' by simp
  with s1(1) show ?thesis by blast
qed

lemma connect_verb_exact:
  assumes "brokers (sys_harness s) b = Some broker" and "sys_client s n = Some cl" and "client_name cl = n"
    and "core_state (client_core cl) = Unconnected m"
  shows "\<exists>s1. run_verb W dur pis s (Connect_To_Broker n b) = Return (Some (Inr (), s1)) \<and>
    linked s1 n b ((client_core cl)
        \<lparr>core_state := ConnectedTo (core_next (client_core cl)), core_next := Suc (core_next (client_core cl)),
         core_tasks := (core_tasks (client_core cl)) (core_next (client_core cl) \<mapsto>
           \<lparr>task_fsm = m, task_io = duplex_io\<lparr>router_open := core_router (client_core cl)\<rparr>, task_stage = Starting\<rparr>)\<rparr>)
      \<lparr>pipe_core = None, pipe_task = core_next (client_core cl), pipe_out = [], pipe_in = [],
            pipe_left = None\<rparr>
      (connection_new\<lparr>packet_queue := [Connack broker_connack]\<rparr>)"
proof -
  have "broker_send W (broker\<lparr>connections := (connections broker)(n \<mapsto> connection_new)\<rparr>) n (Connack broker_connack) =
    Return (Some (Inr (), broker\<lparr>connections := (connections broker)(n \<mapsto>
      connection_new\<lparr>packet_queue := [Connack broker_connack]\<rparr>)\<rparr>))"
    by (simp add: broker_send_def MqttPacket_new_ok [OF broker_connack_ok] broker_connack_canon
        del: packet_canon.simps)
      (simp add: connection_new_def)
  then show ?thesis
    using assms
    by (simp add: on_harness_def connect_client_to_broker_def connect_to_and_ack_def cloud_connect_def core_connect_def
        broker_connect_def send_connack_def connect_pipe_def linked_def connection_of_def Let_def)
qed

lemma connack_idle:
  assumes "connection_state m = ConnectingWithoutAuth sent" and "keep_alive (data m) = 0"
  shows "\<exists>m'. connection_incoming W S fx now m out (Connack broker_connack) = Return (m', out) \<and>
    is_connected (connection_state m') \<and> keep_alive (data m') = 0"
  using consume_connack [OF assms(1), of broker_connack S fx now] assms(2)
  by (simp add: connection_incoming_def broker_connack_def assigned_client_id_def server_keep_alive_def
      handle_option_def ConnackProperties_def props_new_def)

lemma end_step_start:
  assumes "core_tasks core k = Some t" and "task_stage t = Starting" and "core_queue core k = []"
    and "connection_start W fx now (task_fsm t) (task_io t) = Return (m, (task_io t)\<lparr>wire := wire (task_io t) @ xs\<rparr>)"
  shows "end_step W S fx peer k core buf (core\<lparr>core_tasks := (core_tasks core)(k \<mapsto>
    \<lparr>task_fsm = m, task_io = (task_io t)\<lparr>wire := wire (task_io t) @ xs\<rparr>, task_stage = Looping\<rparr>)\<rparr>) buf xs"
  using end_step.run [OF assms(1), of W S fx buf m "(task_io t)\<lparr>wire := wire (task_io t) @ xs\<rparr>" "[]" buf peer]
    client_task.start [OF assms(2), of W S fx "[]" buf now] assms(3,4)
  by (simp add: fun_upd_idem)

lemma end_step_incoming:
  assumes "core_tasks core k = Some t" and "task_stage t = Looping" and "core_queue core k = []"
    and "decode W buf = (Return (Inr (Some q)), rest)"
    and "connection_incoming W S fx now (task_fsm t) (task_io t) q = Return (m, task_io t)"
  shows "end_step W S fx peer k core buf (core\<lparr>core_tasks := (core_tasks core)(k \<mapsto>
    \<lparr>task_fsm = m, task_io = task_io t, task_stage = Looping\<rparr>)\<rparr>) rest []"
  using end_step.run [OF assms(1), of W S fx buf m "task_io t" "[]" rest peer]
    client_task.incoming [OF assms(2,4), of S fx "[]" now] assms(3,5)
  by (simp add: fun_upd_idem)

lemma connect_arrives:
  assumes "brokers (sys_harness s) b = Some broker" and "sys_client s n = Some cl" and "client_name cl = n"
    and "core_state (client_core cl) = Unconnected m" and "core_ok fx (client_core cl)"
  shows "\<exists>s1 s2. run_verb W dur pis s (Connect_To_Broker n b) = Return (Some (Inr (), s1)) \<and>
    (harness_step W S fx)\<^sup>*\<^sup>* s1 s2 \<and> at_rest s2 n b [Connect core_connect_packet]"
proof -
  define k where "k = core_next (client_core cl)"
  define io where "io = duplex_io\<lparr>router_open := core_router (client_core cl)\<rparr>"
  define core where "core = (client_core cl)\<lparr>core_state := ConnectedTo k, core_next := Suc k,
    core_tasks := (core_tasks (client_core cl))(k \<mapsto> \<lparr>task_fsm = m, task_io = io, task_stage = Starting\<rparr>)\<rparr>"
  obtain s1 where s1: "run_verb W dur pis s (Connect_To_Broker n b) = Return (Some (Inr (), s1))"
    "linked s1 n b core \<lparr>pipe_core = None, pipe_task = k, pipe_out = [], pipe_in = [],
            pipe_left = None\<rparr>
      (connection_new\<lparr>packet_queue := [Connack broker_connack]\<rparr>)"
    using connect_verb_exact [OF assms(1-4)] unfolding core_def k_def io_def by blast
  have core: "core_tasks core k = Some \<lparr>task_fsm = m, task_io = io, task_stage = Starting\<rparr>"
    "core_queue core k = []" "core_state core = ConnectedTo k"
    using assms(5) by (simp_all add: core_def core_ok_def k_def)
  have m: "rest_ok fx m" using assms(4,5) by (simp add: core_ok_def core_inv_def)
  obtain m1 where m1: "connection_start W fx 0 m io =
      Return (m1, io\<lparr>wire := enc_packet W (Connect core_connect_packet)\<rparr>)"
    "connection_state m1 = ConnectingWithoutAuth 0" "keep_alive (data m1) = 0"
    using connection_start_sends [OF m, of io 0] by (auto simp: io_def duplex_io_def)
  let ?out = "io\<lparr>wire := enc_packet W (Connect core_connect_packet)\<rparr>"
  obtain m2 where m2: "connection_incoming W S fx 0 m1 ?out (Connack broker_connack) = Return (m2, ?out)"
    "is_connected (connection_state m2)" "keep_alive (data m2) = 0"
    using connack_idle [OF m1(2,3), of fx 0 ?out] by blast
  let ?core = "\<lambda>m. core\<lparr>core_tasks := (core_tasks core)(k \<mapsto> \<lparr>task_fsm = m, task_io = ?out, task_stage = Looping\<rparr>)\<rparr>"
  let ?pipe = "\<lambda>ys xs. \<lparr>pipe_core = None, pipe_task = k, pipe_out = ys, pipe_in = xs, pipe_left = None\<rparr> :: 's pipe"
  let ?connect = "enc_packet W (Connect core_connect_packet)" and ?connack = "enc_packet W (Connack broker_connack)"
  have "end_step W S fx peer k core [] (?core m1) [] ?connect" for peer
    using end_step_start [OF core(1) _ core(2), where xs = ?connect and m = m1 and fx = fx and now = 0] m1(1) by (simp add: io_def duplex_io_def)
  then have "leads W S fx s1 n b (?core m1) (?pipe ?connect []) (connection_new\<lparr>packet_queue := [Connack broker_connack]\<rparr>)"
    using leads_client [OF leads_refl [OF s1(2)]] by simp
  moreover have "connection_step W (connection_new\<lparr>packet_queue := [Connack broker_connack]\<rparr>)
      (connection_new\<lparr>write_buffer := ?connack\<rparr>)"
    using connection_step.send [of "connection_new\<lparr>packet_queue := [Connack broker_connack]\<rparr>"
        "Connack broker_connack" "[]" W ?connack] encode_enc [OF broker_connack_ok, of "[]"]
    by (simp add: connection_new_def)
  ultimately have "leads W S fx s1 n b (?core m1) (?pipe ?connect []) (connection_new\<lparr>write_buffer := ?connack\<rparr>)"
    by (rule leads_broker)
  from leads_to_client [OF this]
  have received: "leads W S fx s1 n b (?core m1) (?pipe ?connect ?connack) connection_new"
    by (simp add: connection_new_def)
  have "end_step W S fx peer k (?core m1) ?connack (?core m2) [] []" for peer
    using end_step_incoming [where core = "?core m1" and k = k and m = m2 and fx = fx and now = 0
        and t = "\<lparr>task_fsm = m1, task_io = ?out, task_stage = Looping\<rparr>"
        and buf = ?connack and q = "Connack broker_connack" and rest = "[]"]
      decode_enc [OF broker_connack_ok, of "[]"] m2(1) core(2)
    by (simp add: broker_connack_canon del: packet_canon.simps)
  with leads_client [OF received, where rest = "[]" and written = "[]" and core' = "?core m2"]
  have "leads W S fx s1 n b (?core m2) (?pipe ?connect []) connection_new" by simp
  from leads_to_broker [OF this]
  have "leads W S fx s1 n b (?core m2) (?pipe [] []) (connection_new\<lparr>received_packets := [], read_buffer := ?connect\<rparr>)"
    by (simp add: connection_new_def)
  from leads_record [OF this connect_packet_ok]
  have "leads W S fx s1 n b (?core m2) (?pipe [] []) (connection_new\<lparr>received_packets := [Connect core_connect_packet]\<rparr>)"
    by (simp add: core_connect_packet_def connect_canon_def)
  from leads_at_rest [OF this] have "\<exists>s2. (harness_step W S fx)\<^sup>*\<^sup>* s1 s2 \<and> at_rest s2 n b [Connect core_connect_packet]"
    using core(2,3) m2(2,3) by (simp add: io_def duplex_io_def)
  with s1(1) show ?thesis by blast
qed

end

section \<open>Scripts\<close>

text \<open>A file passes exactly if it parses, has test cases, and each of them passes on a new harness.\<close>

lemma not_isl_unit [simp]: "\<not> isl (r :: 'a + unit) \<longleftrightarrow> r = Inr ()"
  by (cases r) simp_all

lemma check_cases_passes:
  "check_cases parse run contents = Inr () \<longleftrightarrow>
     (\<exists>testcases. parse contents = Inr testcases \<and> testcases \<noteq> [] \<and> (\<forall>t\<in>set testcases. run t sys_new = Inr ()))"
  by (cases "parse contents") (simp_all add: check_cases_def any_testcase_fails_def filter_empty_conv)

lemma script_sleep:
  assumes "(harness_step W S fx)\<^sup>*\<^sup>* s s'" and "dur d \<noteq> None"
    and "script_run W S fx dur pis s' steps r s''"
  shows "script_run W S fx dur pis s (Do (Sleep d) # steps) r s''"
  using assms(1)
proof (induction rule: converse_rtranclp_induct)
  case base
  show ?case
    by (rule script_run.verb [OF _ assms(3)]) (use assms(2) in \<open>auto split: option.split\<close>)
next
  case (step s s1)
  show ?case by (rule script_run.sleeping [where s' = s1]) (fact assms(2), fact step(1), fact step(3))
qed

lemma harness_run_tasks:
  "(harness_step W S fx)\<^sup>*\<^sup>* s s' \<Longrightarrow> harness_run W S fx dur pis vs s \<Longrightarrow> harness_run W S fx dur pis vs s'"
  by (induction rule: rtranclp_induct) (auto intro: harness_run.tasks)

lemma at_rest_connection:
  "at_rest s n b rcv \<Longrightarrow> connection_of s n b = Some (connection_new\<lparr>received_packets := rcv\<rparr>)"
  by (auto simp: at_rest_def linked_def)

text \<open>The conditions, in terms of what the broker has recorded.\<close>

lemma connection_ofE:
  assumes "connection_of s n b = Some conn"
  obtains broker where "brokers (sys_harness s) b = Some broker" "connections broker n = Some conn"
  using assms by (auto simp: connection_of_def split: option.splits)

lemma run_condition_connect:
  assumes "connection_of s n b = Some conn"
  shows "run_condition s (Connect_Received b n i) =
    into_diagnostic (check_packets (check_connect i) (received_packets conn))"
  using assms by (rule connection_ofE) (simp add: check_for_connect_on_broker_def has_received_packet_def)

lemma run_condition_publish:
  assumes "connection_of s n b = Some conn"
  shows "run_condition s (Publish_Received b n payload topic) =
    (case first_publish (received_packets conn) of
       None \<Rightarrow> Inr False
     | Some p \<Rightarrow>
         if pub_topic_name p \<noteq> topic then Inl (Harness_Diagnostic (UnexpectedTopic topic (pub_topic_name p)))
         else if utf8_valid (pub_payload p) then Inr True
         else Inl (Harness_Diagnostic PayloadNotUtf8))"
  using assms by (rule connection_ofE) (simp add: check_for_publish_exact split: option.split)

text \<open>A condition that holds speaks of a broker and a client that are connected.\<close>

lemma publish_received_D:
  assumes "run_condition s (Publish_Received b n payload topic) = Inr True"
  obtains conn p where "connection_of s n b = Some conn" "first_publish (received_packets conn) = Some p"
    "pub_topic_name p = topic"
proof (cases "connection_of s n b")
  case None
  with assms show ?thesis
    by (auto simp: connection_of_def check_for_publish_exact split: option.splits)
next
  case (Some conn)
  with assms that show ?thesis
    by (auto simp: run_condition_publish simp del: run_condition.simps split: option.splits if_splits)
qed

lemma first_publish_mem: "first_publish ps = Some p \<Longrightarrow> Publish p \<in> set ps"
  by (induction ps) (auto split: MqttPacket.splits)

lemma published_mem:
  "m \<in> set (published n vs) \<Longrightarrow> \<exists>payload topic. Publish_Verb n payload topic \<in> set vs \<and> m = cloud_publish_packet payload topic"
  by (induction vs) (auto split: verb.splits if_splits)

context core_contract begin

text \<open>From a harness with nothing in it to a client that has sent a message.\<close>

lemma run_to_message:
  assumes "inv pis" and "used pis = {}" and "verb_ok (Publish_Verb n payload topic)"
  shows "\<exists>s1 s2 s3 s4 s5 s6.
    run_verb W dur pis (sys_new :: ('s, 'k) harness_sys) (Start_Broker b) = Return (Some (Inr (), s1)) \<and>
    run_verb W dur pis s1 (Create_Client n) = Return (Some (Inr (), s2)) \<and>
    run_verb W dur pis s2 (Connect_To_Broker n b) = Return (Some (Inr (), s3)) \<and>
    (harness_step W S fx)\<^sup>*\<^sup>* s3 s4 \<and> at_rest s4 n b [Connect core_connect_packet] \<and>
    run_verb W dur pis s4 (Publish_Verb n payload topic) = Return (Some (Inr (), s5)) \<and>
    (harness_step W S fx)\<^sup>*\<^sup>* s5 s6 \<and>
    at_rest s6 n b [Connect core_connect_packet, Publish (cloud_publish_packet payload topic)]"
proof -
  let ?h = "\<lparr>brokers = [b \<mapsto> Broker_new b], clients = [n \<mapsto> HarnessClient_new pis n]\<rparr>"
  obtain s1 where s1: "run_verb W dur pis (sys_new :: ('s, 'k) harness_sys) (Start_Broker b) = Return (Some (Inr (), s1))"
    "sys_harness s1 = \<lparr>brokers = [b \<mapsto> Broker_new b], clients = Map.empty\<rparr>"
    by (simp add: on_harness_def start_broker_def sys_new_def TestHarness_new_def)
  obtain s2 where s2: "run_verb W dur pis s1 (Create_Client n) = Return (Some (Inr (), s2))"
    "sys_harness s2 = ?h"
    using s1(2) by (simp add: on_harness_def create_client_def)
  let ?cl = "HarnessClient_new pis n"
  have cl: "client_name ?cl = n" "core_state (client_core ?cl) = Unconnected (fsm_new pis)" "core_ok fx (client_core ?cl)"
    using core_new_ok [OF assms(1,2), of fx] by (simp_all add: HarnessClient_new_def CloudmqttClient_new_def core_new_def)
  have "brokers (sys_harness s2) b = Some (Broker_new b)" "sys_client s2 n = Some ?cl"
    using s2(2) by simp_all
  from connect_arrives [OF this cl, of dur pis] obtain s3 s4 where
    c: "run_verb W dur pis s2 (Connect_To_Broker n b) = Return (Some (Inr (), s3))"
      "(harness_step W S fx)\<^sup>*\<^sup>* s3 s4" "at_rest s4 n b [Connect core_connect_packet]"
    by blast
  obtain s5 s6 where p: "run_verb W dur pis s4 (Publish_Verb n payload topic) = Return (Some (Inr (), s5))"
    "(harness_step W S fx)\<^sup>*\<^sup>* s5 s6"
    "at_rest s6 n b [Connect core_connect_packet, Publish (cloud_publish_packet payload topic)]"
    using publish_arrives [OF c(3) assms(3), of dur pis fx] by auto
  show ?thesis
    by (rule exI [of _ s1], rule exI [of _ s2], rule exI [of _ s3], rule exI [of _ s4], rule exI [of _ s5],
        rule exI [of _ s6]) (intro conjI s1(1) s2(1) c p)
qed

end

section \<open>Properties\<close>

text \<open>
  C34. What a broker of the harness records of a client is what the script had the client send: in
  every state that calls and tasks lead to, the PUBLISH packets recorded under the name of a client
  are messages given to \<open>publish\<close> for this client, unchanged, in this order and each at most as
  often; all other packets recorded are the CONNECT packet and PINGREQs. No task, be it of a client
  that has been replaced, brings in anything else.
\<close>

theorem harness_records_sent:
  assumes "winnow_spec W" and "harness_run W Usize_pis fx dur UsizeStore_new vs s" and "list_all verb_ok vs"
    and "connection_of s n b = Some conn"
  shows "subseq (publishes (received_packets conn)) (published n vs) \<and>
    set (received_packets conn) \<subseteq>
      {Connect core_connect_packet, Pingreq MPingreq} \<union> Publish ` set (published n vs)"
proof -
  note contract = core_client_Usize [OF assms(1)]
  note inv = core_contract.harness_run_inv [OF contract assms(2,3) UsizeStore_new_inv]
  show ?thesis
    using core_contract.record_faithful [OF contract inv assms(4)] by blast
qed

definition example_message_verb :: verb where
  "example_message_verb = Publish_Verb [0x63] [1, 2] [0x61]"

lemma example_message_verb_ok: "verb_ok example_message_verb"
proof -
  have "str_ok [0x61]" by code_simp
  then show ?thesis by (simp add: example_message_verb_def verb_ok_def)
qed

text \<open>A harness with a broker \<open>b\<close> and a client \<open>c\<close> that has sent a message to it.\<close>

lemma example_script_run:
  "\<exists>s :: (UsizeStore, nat) harness_sys.
     harness_run winnow_ref Usize_pis (\<lambda>_. 7) (\<lambda>_. Some ()) UsizeStore_new
       [Start_Broker [0x62], Create_Client [0x63], Connect_To_Broker [0x63] [0x62], example_message_verb] s \<and>
     at_rest s [0x63] [0x62] [Connect core_connect_packet, Publish (cloud_publish_packet [1, 2] [0x61])]"
proof -
  obtain s1 s2 s3 s4 s5 s6 where r:
    "run_verb winnow_ref (\<lambda>_. Some ()) UsizeStore_new (sys_new :: (UsizeStore, nat) harness_sys) (Start_Broker [0x62]) =
      Return (Some (Inr (), s1))"
    "run_verb winnow_ref (\<lambda>_. Some ()) UsizeStore_new s1 (Create_Client [0x63]) = Return (Some (Inr (), s2))"
    "run_verb winnow_ref (\<lambda>_. Some ()) UsizeStore_new s2 (Connect_To_Broker [0x63] [0x62]) = Return (Some (Inr (), s3))"
    "(harness_step winnow_ref Usize_pis (\<lambda>_. 7))\<^sup>*\<^sup>* s3 s4"
    "run_verb winnow_ref (\<lambda>_. Some ()) UsizeStore_new s4 example_message_verb = Return (Some (Inr (), s5))"
    "(harness_step winnow_ref Usize_pis (\<lambda>_. 7))\<^sup>*\<^sup>* s5 s6"
    "at_rest s6 [0x63] [0x62] [Connect core_connect_packet, Publish (cloud_publish_packet [1, 2] [0x61])]"
    using core_contract.run_to_message [OF core_client_Usize [OF winnow_ref_spec] UsizeStore_new_inv
        example_message_verb_ok [unfolded example_message_verb_def]]
    unfolding example_message_verb_def by metis
  from harness_run.verb [OF harness_run.new r(1)] harness_run.verb [OF _ r(2)] harness_run.verb [OF _ r(3)]
    harness_run_tasks [OF r(4)] harness_run.verb [OF _ r(5)] harness_run_tasks [OF r(6)] r(7)
  show ?thesis by fastforce
qed

theorem harness_records_sent_witness:
  "\<exists>(s :: (UsizeStore, nat) harness_sys) conn. connection_of s [0x63] [0x62] = Some conn \<and>
    received_packets conn = [Connect core_connect_packet, Publish (cloud_publish_packet [1, 2] [0x61])] \<and>
    set (received_packets conn) \<subseteq> {Connect core_connect_packet, Pingreq MPingreq} \<union>
      Publish ` {cloud_publish_packet [1, 2] [0x61]}"
proof -
  obtain s :: "(UsizeStore, nat) harness_sys" where s: "harness_run winnow_ref Usize_pis (\<lambda>_. 7) (\<lambda>_. Some ()) UsizeStore_new
      [Start_Broker [0x62], Create_Client [0x63], Connect_To_Broker [0x63] [0x62], example_message_verb] s"
    "at_rest s [0x63] [0x62] [Connect core_connect_packet, Publish (cloud_publish_packet [1, 2] [0x61])]"
    using example_script_run by blast
  have "list_all verb_ok [Start_Broker [0x62], Create_Client [0x63], Connect_To_Broker [0x63] [0x62], example_message_verb]"
    using example_message_verb_ok by (simp add: verb_ok_def)
  from harness_records_sent [OF winnow_ref_spec s(1) this at_rest_connection [OF s(2)]] at_rest_connection [OF s(2)]
  show ?thesis
    by (intro exI [of _ s] exI conjI) (auto simp: example_message_verb_def)
qed

text \<open>
  C35. Connecting succeeds: in every state of the harness, a known client that is not connected and a
  known broker can be connected, and there are steps of their tasks after which the handshake is
  done: the client is connected, nothing is left on the way, and the broker has recorded the CONNECT
  packet, whole and alone.
\<close>

theorem connect_reaches_broker:
  assumes "winnow_spec W" and "harness_run W Usize_pis fx dur UsizeStore_new vs s" and "list_all verb_ok vs"
    and "brokers (sys_harness s) b = Some broker" and "sys_client s n = Some cl"
    and "core_state (client_core cl) = Unconnected m"
  shows "\<exists>s1 s2. run_verb W dur UsizeStore_new s (Connect_To_Broker n b) = Return (Some (Inr (), s1)) \<and>
    (harness_step W Usize_pis fx)\<^sup>*\<^sup>* s1 s2 \<and> at_rest s2 n b [Connect core_connect_packet]"
proof -
  note contract = core_client_Usize [OF assms(1)]
  note inv = core_contract.harness_run_inv [OF contract assms(2,3) UsizeStore_new_inv]
  show ?thesis
    using core_contract.connect_arrives [OF contract assms(4,5) _ assms(6)]
      core_contract.sys_inv_D(1) [OF contract inv assms(5)] by blast
qed

theorem connect_reaches_broker_witness:
  "\<exists>(s1 :: (UsizeStore, nat) harness_sys) s2.
    (harness_step winnow_ref Usize_pis (\<lambda>_. 7))\<^sup>*\<^sup>* s1 s2 \<and>
    at_rest s2 [0x63] [0x62] [Connect core_connect_packet]"
proof -
  obtain s1 where s1: "run_verb winnow_ref (\<lambda>_. Some ()) UsizeStore_new (sys_new :: (UsizeStore, nat) harness_sys)
      (Start_Broker [0x62]) = Return (Some (Inr (), s1))"
    "sys_harness s1 = \<lparr>brokers = [[0x62] \<mapsto> Broker_new [0x62]], clients = Map.empty\<rparr>"
    by (simp add: on_harness_def start_broker_def sys_new_def TestHarness_new_def)
  obtain s2 where s2: "run_verb winnow_ref (\<lambda>_. Some ()) UsizeStore_new s1 (Create_Client [0x63]) = Return (Some (Inr (), s2))"
    "sys_harness s2 = \<lparr>brokers = [[0x62] \<mapsto> Broker_new [0x62]],
      clients = [[0x63] \<mapsto> HarnessClient_new UsizeStore_new [0x63]]\<rparr>"
    using s1(2) by (simp add: on_harness_def create_client_def)
  note created = harness_run.verb [OF harness_run.verb [OF harness_run.new s1(1)] s2(1)]
  have u: "core_state (client_core (HarnessClient_new UsizeStore_new [0x63] :: (UsizeStore, nat) HarnessClient)) =
      Unconnected (fsm_new UsizeStore_new)"
    by (simp add: HarnessClient_new_def CloudmqttClient_new_def core_new_def)
  have h: "list_all verb_ok ([] @ [Start_Broker [0x62]] @ [Create_Client [0x63]])"
    "brokers (sys_harness s2) [0x62] = Some (Broker_new [0x62])"
    "sys_client s2 [0x63] = Some (HarnessClient_new UsizeStore_new [0x63])"
    using s2(2) by (simp_all add: verb_ok_def)
  from connect_reaches_broker [OF winnow_ref_spec created _ h(2,3) u, where fx = "\<lambda>_. 7"] h(1)
  show ?thesis by auto
qed

text \<open>
  C36. Sending succeeds: with a client connected and at rest, \<open>publish\<close> of a message on a valid
  topic (of at most 65535 bytes, without \<open>#\<close> and \<open>*\<close>, and with the message small enough for a
  packet) returns, and there are steps of the tasks after which the broker has recorded exactly this
  message on this topic, behind what it had recorded before, and the two are at rest again.
\<close>

theorem message_reaches_broker:
  assumes "winnow_spec W" and "at_rest s n b rcv" and "verb_ok (Publish_Verb n payload topic)"
  shows "\<exists>s1 s2. run_verb W dur UsizeStore_new s (Publish_Verb n payload topic) = Return (Some (Inr (), s1)) \<and>
    (harness_step W Usize_pis fx)\<^sup>*\<^sup>* s1 s2 \<and>
    at_rest s2 n b (rcv @ [Publish (cloud_publish_packet payload topic)])"
  by (rule core_contract.publish_arrives [OF core_client_Usize [OF assms(1)] assms(2,3)])

theorem message_reaches_broker_witness:
  "\<exists>s2 :: (UsizeStore, nat) harness_sys. at_rest s2 [0x63] [0x62] [Connect core_connect_packet,
    Publish (cloud_publish_packet [1, 2] [0x61]), Publish (cloud_publish_packet [1, 2] [0x61])]"
proof -
  obtain s :: "(UsizeStore, nat) harness_sys" where
    s: "at_rest s [0x63] [0x62] [Connect core_connect_packet, Publish (cloud_publish_packet [1, 2] [0x61])]"
    using example_script_run by blast
  show ?thesis
    using message_reaches_broker [OF winnow_ref_spec s example_message_verb_ok [unfolded example_message_verb_def]]
    by auto
qed

text \<open>
  C37. Every script of the form of \<open>tests/cases/simple.kdl\<close> has a run in which it passes: start a
  broker, create a client, connect the two, sleep, check that the CONNECT packet has arrived,
  publish a text, sleep, check that it has arrived; where the durations parse, the text and
  its topic are valid UTF-8, the topic has at most 65535 bytes and none of \<open>#\<close> and \<open>*\<close>, and the two
  together fit into a packet. The check of the text passes whatever text it expects.
\<close>

theorem simple_case_passes:
  assumes "winnow_spec W" and "dur d1 \<noteq> None" and "dur d2 \<noteq> None"
    and "verb_ok (Publish_Verb n payload topic)" and "utf8_valid payload"
  shows "\<exists>s. script_run W Usize_pis fx dur UsizeStore_new (sys_new :: (UsizeStore, 'k) harness_sys)
    [Do (Start_Broker b), Do (Create_Client n), Do (Connect_To_Broker n b), Do (Sleep d1),
     Assert (Connect_Received b n core_client_id), Do (Publish_Verb n payload topic), Do (Sleep d2),
     Assert (Publish_Received b n expected topic)] (Return (Inr ())) s"
proof -
  obtain s1 s2 s3 s4 s5 s6 where r:
    "run_verb W dur UsizeStore_new (sys_new :: (UsizeStore, 'k) harness_sys) (Start_Broker b) = Return (Some (Inr (), s1))"
    "run_verb W dur UsizeStore_new s1 (Create_Client n) = Return (Some (Inr (), s2))"
    "run_verb W dur UsizeStore_new s2 (Connect_To_Broker n b) = Return (Some (Inr (), s3))"
    "(harness_step W Usize_pis fx)\<^sup>*\<^sup>* s3 s4" "at_rest s4 n b [Connect core_connect_packet]"
    "run_verb W dur UsizeStore_new s4 (Publish_Verb n payload topic) = Return (Some (Inr (), s5))"
    "(harness_step W Usize_pis fx)\<^sup>*\<^sup>* s5 s6"
    "at_rest s6 n b [Connect core_connect_packet, Publish (cloud_publish_packet payload topic)]"
    using core_contract.run_to_message [OF core_client_Usize [OF assms(1)] UsizeStore_new_inv assms(4)] by metis
  have c: "run_condition s4 (Connect_Received b n core_client_id) = Inr True"
    using run_condition_connect [OF at_rest_connection [OF r(5)]] by (simp add: check_connect_def core_connect_packet_def)
  have p: "run_condition s6 (Publish_Received b n expected topic) = Inr True"
    using run_condition_publish [OF at_rest_connection [OF r(8)]] assms(5)
    by (simp add: cloud_publish_packet_def del: run_condition.simps)
  show ?thesis
    by (rule exI, rule script_run.verb [OF r(1)], rule script_run.verb [OF r(2)], rule script_run.verb [OF r(3)],
        rule script_sleep [where dur = dur and d = d1, OF r(4) assms(2)], rule script_run.holds [OF c], rule script_run.verb [OF r(6)],
        rule script_sleep [where dur = dur and d = d2, OF r(7) assms(3)], rule script_run.holds [OF p], rule script_run.passed)
qed

text \<open>The script itself: \<open>"test"\<close> is sent, \<open>"payload"\<close> is expected, on \<open>"some/thing"\<close>.\<close>

definition simple_case :: "script_step list" where
  "simple_case =
     [Do (Start_Broker [0x62, 0x31]), Do (Create_Client [0x63, 0x31]),
      Do (Connect_To_Broker [0x63, 0x31] [0x62, 0x31]), Do (Sleep [0x31, 0x30, 0x30, 0x6D, 0x73]),
      Assert (Connect_Received [0x62, 0x31] [0x63, 0x31] core_client_id),
      Do (Publish_Verb [0x63, 0x31] [0x74, 0x65, 0x73, 0x74] [0x73, 0x6F, 0x6D, 0x65, 0x2F, 0x74, 0x68, 0x69, 0x6E, 0x67]),
      Do (Sleep [0x31, 0x30, 0x30, 0x6D, 0x73]),
      Assert (Publish_Received [0x62, 0x31] [0x63, 0x31] [0x70, 0x61, 0x79, 0x6C, 0x6F, 0x61, 0x64]
        [0x73, 0x6F, 0x6D, 0x65, 0x2F, 0x74, 0x68, 0x69, 0x6E, 0x67])]"

theorem simple_case_passes_witness:
  "\<exists>s :: (UsizeStore, nat) harness_sys.
    script_run winnow_ref Usize_pis (\<lambda>_. 7) (\<lambda>_. Some ()) UsizeStore_new sys_new simple_case (Return (Inr ())) s"
proof -
  have "str_ok [0x73, 0x6F, 0x6D, 0x65, 0x2F, 0x74, 0x68, 0x69, 0x6E, 0x67]" by code_simp
  then have "verb_ok (Publish_Verb [0x63, 0x31] [0x74, 0x65, 0x73, 0x74] [0x73, 0x6F, 0x6D, 0x65, 0x2F, 0x74, 0x68, 0x69, 0x6E, 0x67])"
    by (simp add: verb_ok_def)
  moreover have "utf8_valid [0x74, 0x65, 0x73, 0x74]" by code_simp
  ultimately show ?thesis
    unfolding simple_case_def by (intro simple_case_passes [OF winnow_ref_spec]) simp_all
qed

text \<open>
  The check of a message says at least that one was sent: when it holds, in any state of the
  harness, a message on this topic was given to \<open>publish\<close> for this client.
\<close>

lemma publish_assertion_sound:
  assumes "winnow_spec W" and "harness_run W Usize_pis fx dur UsizeStore_new vs s" and "list_all verb_ok vs"
    and "run_condition s (Publish_Received b n payload topic) = Inr True"
  shows "\<exists>sent. Publish_Verb n sent topic \<in> set vs"
proof -
  obtain conn p where c: "connection_of s n b = Some conn" "first_publish (received_packets conn) = Some p"
    "pub_topic_name p = topic"
    using assms(4) by (rule publish_received_D)
  note contract = core_client_Usize [OF assms(1)]
  note inv = core_contract.harness_run_inv [OF contract assms(2,3) UsizeStore_new_inv]
  have "p \<in> set (published n vs)"
    using core_contract.record_faithful(2) [OF contract inv c(1) first_publish_mem [OF c(2)]] by auto
  with c(3) published_mem [of p n vs] show ?thesis by (auto simp: cloud_publish_packet_def)
qed

end
