(* ===== verification/V3_Nom.thy ===== *)
theory V3_Nom
  imports Winnow
begin

text \<open>
  The MQTT 3 format is parsed with \<open>nom\<close>, which is not part of the repository. As with
  \<open>winnow\<close>, its functions that read the input are the fields of a record, \<open>nom_spec\<close> states
  their documented behaviour (of the \<open>complete\<close> versions, the only ones used: they never ask for
  more input) and \<open>nom_ref\<close> is a record that satisfies it. \<open>map\<close>, \<open>map_res\<close>, \<open>flat_map\<close>,
  \<open>recognize\<close> and \<open>and_then\<close>, which do not look at the input themselves, are \<open>p_map\<close>,
  \<open>p_try_map\<close>, \<open>p_bind\<close>, \<open>p_take\<close> and \<open>p_and_then\<close>. Every error is \<open>nom::Err::Error\<close>,
  here \<open>Backtrack\<close>.
\<close>

section \<open>The interface\<close>

record nom =
  nom_u8 :: "u8 parser"  \<comment> \<open>\<open>number::complete::u8\<close>\<close>
  nom_be_u16 :: "u16 parser"  \<comment> \<open>\<open>number::complete::be_u16\<close>\<close>
  nom_take :: "nat \<Rightarrow> bytes parser"  \<comment> \<open>\<open>bytes::complete::take(n)\<close>\<close>
  nom_take_while_m_n :: "nat \<Rightarrow> nat \<Rightarrow> (u8 \<Rightarrow> bool) \<Rightarrow> bytes parser"
    \<comment> \<open>\<open>bytes::complete::take_while_m_n(m, n, p)\<close>\<close>
  nom_bits :: "nat list \<Rightarrow> u8 list parser"
    \<comment> \<open>\<open>bits(tuple((take(w1), .., take(wn))))\<close>, of \<open>bits::complete::take\<close>\<close>
  nom_many1_count :: "unit parser \<Rightarrow> nat parser"  \<comment> \<open>\<open>multi::many1_count(f)\<close>\<close>

text \<open>The second parser runs on what the first returns; what it leaves there is dropped.\<close>

definition p_and_then :: "bytes parser \<Rightarrow> 'a parser \<Rightarrow> 'a parser" where
  "p_and_then p q = p_bind p (\<lambda>sl. p_inner q sl)"

text \<open>The fields of the given widths, from the most significant bit on.\<close>

fun bit_fields :: "u8 \<Rightarrow> nat \<Rightarrow> nat list \<Rightarrow> u8 list" where
  "bit_fields b off [] = []"
| "bit_fields b off (w # ws) = bits_of b off w # bit_fields b (off + w) ws"

text \<open>How often a parser succeeds in a row, and where it stops.\<close>

fun count_items :: "nat \<Rightarrow> unit parser \<Rightarrow> bytes \<Rightarrow> nat \<times> bytes" where
  "count_items 0 f i = (0, i)"
| "count_items (Suc n) f i =
     (case f i of
        POk _ r \<Rightarrow> (let (k, r') = count_items n f r in (Suc k, r'))
      | PErr _ \<Rightarrow> (0, i))"

section \<open>Documented behaviour\<close>

text \<open>
  \<open>many1_count\<close> is described for parsers that consume input on success (on others it reports an
  error) and that only fail with \<open>Err::Error\<close>. A parser that succeeds on \<open>i\<close> at most
  \<open>length i\<close> times is counted in full.
\<close>

locale nom_spec =
  fixes N :: nom
  assumes u8_Cons: "nom_u8 N (b # r) = POk b r"
    and u8_Nil: "nom_u8 N [] = PErr Backtrack"
    and be_u16_Cons: "nom_be_u16 N (a # b # r) = POk (word_cat a b) r"
    and be_u16_short: "length i < 2 \<Longrightarrow> nom_be_u16 N i = PErr Backtrack"
    and take: "nom_take N n i =
      (if n \<le> length i then POk (take n i) (drop n i) else PErr Backtrack)"
    and take_while_m_n: "nom_take_while_m_n N m n P i =
      (let k = length (takeWhile P (take n i))
       in if m \<le> k then POk (take k i) (drop k i) else PErr Backtrack)"
    and bits_Cons: "sum_list ws = 8 \<Longrightarrow> nom_bits N ws (b # r) = POk (bit_fields b 0 ws) r"
    and bits_Nil: "sum_list ws = 8 \<Longrightarrow> nom_bits N ws [] = PErr Backtrack"
    and many1_count: "parser_strict f \<Longrightarrow> (\<And>j e. f j = PErr e \<Longrightarrow> e = Backtrack) \<Longrightarrow>
      nom_many1_count N f i =
        (case count_items (length i) f i of (k, r) \<Rightarrow> if k = 0 then PErr Backtrack else POk k r)"
begin

lemmas nom_simps = u8_Cons u8_Nil be_u16_Cons be_u16_short take take_while_m_n bits_Cons bits_Nil

end

section \<open>Parsers that only fail with an ordinary error\<close>

text \<open>
  All parsers of the format: they return a suffix of the input or \<open>Err::Error\<close>. Strict ones
  consume at least one byte.
\<close>

definition nom_by :: "(bytes \<Rightarrow> bytes \<Rightarrow> bool) \<Rightarrow> 'a parser \<Rightarrow> bool" where
  "nom_by R p \<longleftrightarrow>
     (\<forall>i x r. p i = POk x r \<longrightarrow> R r i) \<and> (\<forall>i e. p i = PErr e \<longrightarrow> e = Backtrack)"

abbreviation nom_ok :: "'a parser \<Rightarrow> bool" where
  "nom_ok \<equiv> nom_by suffix"

abbreviation nom_strict :: "'a parser \<Rightarrow> bool" where
  "nom_strict \<equiv> nom_by strict_suffix"

named_theorems nom_intros \<open>which parsers are total, and which consume input\<close>

lemma nom_byI:
  assumes "\<And>i x r. p i = POk x r \<Longrightarrow> R r i" and "\<And>i e. p i = PErr e \<Longrightarrow> e = Backtrack"
  shows "nom_by R p"
  using assms by (auto simp: nom_by_def)

lemma nom_by_parser_by: "nom_by R p \<Longrightarrow> parser_by R p"
  by (auto simp: nom_by_def parser_by_def)

lemma nom_by_POk: "nom_by R p \<Longrightarrow> p i = POk x r \<Longrightarrow> R r i"
  by (auto simp: nom_by_def)

lemma nom_by_PErr: "nom_by R p \<Longrightarrow> p i = PErr e \<Longrightarrow> e = Backtrack"
  by (auto simp: nom_by_def)

lemma nom_strict_ok: "nom_strict p \<Longrightarrow> nom_ok p"
  by (auto simp: nom_by_def strict_suffix_def)

lemma nom_return [nom_intros]: "nom_ok (p_return x)"
  by (rule nom_byI) (simp_all add: p_return_def)

lemma nom_fail [nom_intros]: "nom_by R (p_fail Backtrack)"
  by (rule nom_byI) (simp_all add: p_fail_def)

lemma nom_bindI:
  assumes "nom_by R p" and "\<And>x. nom_by S (f x)" and "\<And>a b c. R b c \<Longrightarrow> S a b \<Longrightarrow> T a c"
  shows "nom_by T (p_bind p f)"
proof (rule nom_byI)
  fix i y r
  assume "p_bind p f i = POk y r"
  then obtain x r' where "p i = POk x r'" "f x r' = POk y r"
    by (auto simp: p_bind_def split: presult.splits)
  with assms show "T r i" by (blast dest: nom_by_POk)
next
  fix i e
  assume "p_bind p f i = PErr e"
  with assms(1,2) show "e = Backtrack"
    by (auto simp: p_bind_def split: presult.splits dest: nom_by_PErr)
qed

lemma nom_ok_bind [nom_intros]:
  "nom_ok p \<Longrightarrow> (\<And>x. nom_ok (f x)) \<Longrightarrow> nom_ok (p_bind p f)"
  by (rule nom_bindI [OF _ _ suffix_order.trans])

lemma nom_strict_bind [nom_intros]:
  assumes "nom_strict p" and "\<And>x. nom_ok (f x)"
  shows "nom_strict (p_bind p f)"
  by (rule nom_bindI [OF assms]) (rule suffix_order.le_less_trans)

lemma nom_map [nom_intros]: "nom_by R p \<Longrightarrow> nom_by R (p_map f p)"
  by (auto simp: nom_by_def p_map_def split: presult.splits)

lemma nom_try_map [nom_intros]: "nom_by R p \<Longrightarrow> nom_by R (p_try_map g p)"
  by (auto simp: nom_by_def p_try_map_def split: presult.splits option.splits)

lemma nom_take_of [nom_intros]: "nom_by R p \<Longrightarrow> nom_by R (p_take p)"
  by (auto simp: nom_by_def p_take_def split: presult.splits)

lemma nom_inner [nom_intros]: "nom_ok p \<Longrightarrow> nom_ok (p_inner p s)"
  by (auto simp: nom_by_def p_inner_def split: presult.splits)

lemma nom_and_then [nom_intros]: "nom_ok p \<Longrightarrow> nom_ok q \<Longrightarrow> nom_ok (p_and_then p q)"
  unfolding p_and_then_def by (intro nom_intros)

lemma nom_if [nom_intros]:
  "(b \<Longrightarrow> nom_by R p) \<Longrightarrow> (\<not> b \<Longrightarrow> nom_by R q) \<Longrightarrow> nom_by R (if b then p else q)"
  by simp

lemma nom_option [nom_intros]:
  "(x = None \<Longrightarrow> nom_by R p) \<Longrightarrow> (\<And>y. x = Some y \<Longrightarrow> nom_by R (f y)) \<Longrightarrow>
    nom_by R (case x of None \<Rightarrow> p | Some y \<Rightarrow> f y)"
  by (cases x) simp_all

lemma nom_unit [nom_intros]: "nom_by R p \<Longrightarrow> nom_by R (p_map (\<lambda>_. ()) p)"
  by (rule nom_map)

lemma count_items_suffix: "nom_ok f \<Longrightarrow> suffix (snd (count_items n f i)) i"
proof (induction n arbitrary: i)
  case (Suc n)
  then show ?case
    by (auto split: presult.splits prod.splits dest: nom_by_POk)
      (metis nom_by_POk snd_conv suffix_order.trans)
qed simp

lemma count_items_fuel:
  assumes "nom_strict f" and "length i \<le> n"
  shows "count_items n f i = count_items (length i) f i"
  using assms(2)
proof (induction "length i" arbitrary: i n rule: less_induct)
  case less
  show ?case
  proof (cases "f i")
    case (POk x r)
    then have l: "length r < length i"
      using assms(1) by (blast dest: nom_by_POk strict_suffix_length)
    then obtain m k where "n = Suc m" "length i = Suc k"
      using less.prems by (cases n; cases "length i") auto
    with POk l less.prems less.hyps [of r m] less.hyps [of r k] show ?thesis by simp
  next
    case (PErr e)
    then show ?thesis by (cases n; cases "length i") auto
  qed
qed

context nom_spec begin

lemma many1_count_nom:
  assumes "nom_strict f"
  shows "nom_many1_count N f i =
    (case count_items (length i) f i of (k, r) \<Rightarrow> if k = 0 then PErr Backtrack else POk k r)"
  by (rule many1_count [OF nom_by_parser_by [OF assms]]) (rule nom_by_PErr [OF assms])

lemma many1_count_strict [nom_intros]:
  assumes "nom_strict f"
  shows "nom_strict (nom_many1_count N f)"
proof (rule nom_byI)
  note m = many1_count_nom [OF assms]
  show "e = Backtrack" if "nom_many1_count N f i = PErr e" for i e
    using that by (simp add: m split: prod.splits if_splits)
  show "strict_suffix r i" if "nom_many1_count N f i = POk k r" for i k r
  proof -
    have c: "count_items (length i) f i = (k, r)" and "k \<noteq> 0"
      using that by (auto simp: m split: prod.splits if_splits)
    then obtain n where n: "length i = Suc n" by (cases "length i") auto
    from n c \<open>k \<noteq> 0\<close> obtain r1 where f: "f i = POk () r1"
      by (auto split: presult.splits)
    with n c have "snd (count_items n f r1) = r" by (auto split: prod.splits)
    with count_items_suffix [OF nom_strict_ok [OF assms], of n r1] have "suffix r r1" by simp
    moreover have "strict_suffix r1 i" using assms f by (rule nom_by_POk)
    ultimately show ?thesis by (rule suffix_order.le_less_trans)
  qed
qed

text \<open>One item more.\<close>

lemma count_items_step:
  assumes "nom_strict f" and "f i = POk x r"
  shows "count_items (length i) f i = (let (k, r') = count_items (length r) f r in (Suc k, r'))"
proof -
  have l: "length r < length i"
    using assms by (blast dest: nom_by_POk strict_suffix_length)
  then obtain n where "length i = Suc n" "length r \<le> n" by (cases "length i") auto
  with assms(2) count_items_fuel [OF assms(1), of r n] show ?thesis by simp
qed

lemma u8_strict [nom_intros]: "nom_strict (nom_u8 N)"
proof (rule nom_byI)
  show "strict_suffix r i" if "nom_u8 N i = POk x r" for i x r
    using that by (cases i) (auto simp: u8_Cons u8_Nil strict_suffix_def suffix_def)
  show "e = Backtrack" if "nom_u8 N i = PErr e" for i e
    using that by (cases i) (auto simp: u8_Cons u8_Nil)
qed

lemma be_u16_strict [nom_intros]: "nom_strict (nom_be_u16 N)"
proof (rule nom_byI)
  show "strict_suffix r i" if "nom_be_u16 N i = POk x r" for i x r
    using that by (cases i; cases "tl i") (auto simp: be_u16_Cons be_u16_short strict_suffix_def suffix_def)
  show "e = Backtrack" if "nom_be_u16 N i = PErr e" for i e
    using that by (cases i; cases "tl i") (auto simp: be_u16_Cons be_u16_short)
qed

lemma take_ok [nom_intros]: "nom_ok (nom_take N n)"
  by (rule nom_byI) (auto simp: take suffix_drop split: if_splits)

lemma take_while_ok [nom_intros]: "nom_ok (nom_take_while_m_n N m n P)"
  by (rule nom_byI) (auto simp: take_while_m_n Let_def suffix_drop split: if_splits)

lemma bits_strict [nom_intros]: "sum_list ws = 8 \<Longrightarrow> nom_strict (nom_bits N ws)"
proof (rule nom_byI)
  assume ws: "sum_list ws = 8"
  show "strict_suffix r i" if "nom_bits N ws i = POk x r" for i x r
    using that ws by (cases i) (auto simp: bits_Cons bits_Nil strict_suffix_def suffix_def)
  show "e = Backtrack" if "nom_bits N ws i = PErr e" for i e
    using that ws by (cases i) (auto simp: bits_Cons bits_Nil)
qed

end

section \<open>A reference implementation\<close>

definition nom_ref :: nom where
  "nom_ref =
     \<lparr>nom_u8 = (\<lambda>i. case i of [] \<Rightarrow> PErr Backtrack | b # r \<Rightarrow> POk b r),
      nom_be_u16 = (\<lambda>i. case i of a # b # r \<Rightarrow> POk (word_cat a b) r | _ \<Rightarrow> PErr Backtrack),
      nom_take = (\<lambda>n i. if n \<le> length i then POk (take n i) (drop n i) else PErr Backtrack),
      nom_take_while_m_n = (\<lambda>m n P i.
        let k = length (takeWhile P (take n i))
        in if m \<le> k then POk (take k i) (drop k i) else PErr Backtrack),
      nom_bits = (\<lambda>ws i. case i of [] \<Rightarrow> PErr Backtrack | b # r \<Rightarrow> POk (bit_fields b 0 ws) r),
      nom_many1_count = (\<lambda>f i.
        case count_items (length i) f i of (k, r) \<Rightarrow> if k = 0 then PErr Backtrack else POk k r)\<rparr>"

lemma nom_ref_spec: "nom_spec nom_ref"
proof
  show "nom_be_u16 nom_ref i = PErr Backtrack" if "length i < 2" for i
    using that by (cases i; cases "tl i") (auto simp: nom_ref_def)
qed (simp_all add: nom_ref_def Let_def)

interpretation nom_ref: nom_spec nom_ref
  by (rule nom_ref_spec)

end
