(* ===== verification/V3_Fields.thy ===== *)
theory V3_Fields
  imports V3_Nom Strings
begin

text \<open>
  The parts of MQTT 3 packets: \<open>v3/strings.rs\<close>, \<open>identifier.rs\<close>, \<open>qos.rs\<close>,
  \<open>connect_return.rs\<close>, \<open>subscription_acks.rs\<close>, \<open>subscription_request.rs\<close>,
  \<open>unsubscription_request.rs\<close> and \<open>will.rs\<close>. The writers are asynchronous in the code; their
  destination is a byte buffer here, as for the other format, and does not fail. The layouts
  \<open>enc_u16\<close> and \<open>enc_data\<close> are those of theory Strings.
\<close>

section \<open>Errors and writing\<close>

datatype MPacketWriteError = Io | InvalidSize nat

type_synonym v3_writer = "MPacketWriteError error_writer"

definition write_all :: "bytes \<Rightarrow> v3_writer" where
  "write_all bs buf = (WOk, buf @ bs)"

text \<open>\<open>u16::to_be_bytes\<close>, and \<open>len as u16\<close>, which drops the upper bits.\<close>

definition u16_be_bytes :: "u16 \<Rightarrow> bytes" where
  "u16_be_bytes u = [ucast (drop_bit 8 u), ucast u]"

definition len_as_u16 :: "'a list \<Rightarrow> u16" where
  "len_as_u16 xs = word_of_nat (length xs)"

section \<open>Quality of service\<close>

datatype MQualityOfService = V3_AtMostOnce | V3_AtLeastOnce | V3_ExactlyOnce

fun v3_qos_to_byte :: "MQualityOfService \<Rightarrow> u8" where
  "v3_qos_to_byte V3_AtMostOnce = 0"
| "v3_qos_to_byte V3_AtLeastOnce = 1"
| "v3_qos_to_byte V3_ExactlyOnce = 2"

text \<open>\<open>derive(PartialOrd, Ord)\<close>: the order of the declaration.\<close>

instantiation MQualityOfService :: linorder
begin

definition less_eq_MQualityOfService :: "MQualityOfService \<Rightarrow> MQualityOfService \<Rightarrow> bool" where
  "less_eq_MQualityOfService a b \<longleftrightarrow> v3_qos_to_byte a \<le> v3_qos_to_byte b"

definition less_MQualityOfService :: "MQualityOfService \<Rightarrow> MQualityOfService \<Rightarrow> bool" where
  "less_MQualityOfService a b \<longleftrightarrow> v3_qos_to_byte a < v3_qos_to_byte b"

instance
proof
  fix a b :: MQualityOfService
  show "a \<le> b \<Longrightarrow> b \<le> a \<Longrightarrow> a = b"
    by (cases a; cases b) (simp_all add: less_eq_MQualityOfService_def word_le_nat_alt)
qed (auto simp: less_eq_MQualityOfService_def less_MQualityOfService_def)

end

definition mquality_of_service :: "u8 \<Rightarrow> MQualityOfService option" where
  "mquality_of_service lower =
     (if lower = 0 then Some V3_AtMostOnce
      else if lower = 1 then Some V3_AtLeastOnce
      else if lower = 2 then Some V3_ExactlyOnce
      else None)"

definition v3_qos_write_to :: "MQualityOfService \<Rightarrow> v3_writer" where
  "v3_qos_write_to q =
     write_all (case q of V3_AtMostOnce \<Rightarrow> [0] | V3_AtLeastOnce \<Rightarrow> [1] | V3_ExactlyOnce \<Rightarrow> [2])"

section \<open>Strings\<close>

type_synonym MString = rstr

definition MString_get_len :: "MString \<Rightarrow> nat" where
  "MString_get_len mstr = 2 + length mstr"

definition MString_write_to :: "MString \<Rightarrow> v3_writer" where
  "MString_write_to mstr = w_seq [write_all (u16_be_bytes (len_as_u16 mstr)), write_all mstr]"

definition control_character :: "nat \<Rightarrow> bool" where
  "control_character c \<longleftrightarrow> (0x01 \<le> c \<and> c \<le> 0x1F) \<or> (0x7F \<le> c \<and> c \<le> 0x9F)"

definition mstring :: "nom \<Rightarrow> MString parser" where
  "mstring N =
     p_try_map (\<lambda>s. if list_ex control_character (the (utf8_chars s)) then None else Some s)
       (p_try_map from_utf8 (p_bind (nom_be_u16 N) (\<lambda>len. nom_take N (unat len))))"

text \<open>\<open>mpayload\<close> of \<open>packet.rs\<close>\<close>

definition mpayload :: "nom \<Rightarrow> bytes parser" where
  "mpayload N = p_bind (nom_be_u16 N) (\<lambda>len. nom_take N (unat len))"

section \<open>Identifiers and return codes\<close>

type_synonym MPacketIdentifier = u16

definition mpacketidentifier :: "nom \<Rightarrow> MPacketIdentifier parser" where
  "mpacketidentifier N = nom_be_u16 N"

definition identifier_write_to :: "MPacketIdentifier \<Rightarrow> v3_writer" where
  "identifier_write_to i = write_all (u16_be_bytes i)"

definition identifier_get_len :: "MPacketIdentifier \<Rightarrow> nat" where
  "identifier_get_len i = 2"

datatype MConnectReturnCode =
    V3_Accepted
  | V3_ProtocolNotAccepted
  | V3_IdentifierRejected
  | V3_ServerUnavailable
  | V3_BadUsernamePassword
  | V3_NotAuthorized

text \<open>\<open>as u8\<close> on a \<open>repr(u8)\<close> enum\<close>

fun connect_return_as_u8 :: "MConnectReturnCode \<Rightarrow> u8" where
  "connect_return_as_u8 V3_Accepted = 0"
| "connect_return_as_u8 V3_ProtocolNotAccepted = 1"
| "connect_return_as_u8 V3_IdentifierRejected = 2"
| "connect_return_as_u8 V3_ServerUnavailable = 3"
| "connect_return_as_u8 V3_BadUsernamePassword = 4"
| "connect_return_as_u8 V3_NotAuthorized = 5"

definition mconnectreturn :: "nom \<Rightarrow> MConnectReturnCode parser" where
  "mconnectreturn N =
     p_bind (nom_u8 N) (\<lambda>return_code.
       if return_code = 0 then p_return V3_Accepted
       else if return_code = 1 then p_return V3_ProtocolNotAccepted
       else if return_code = 2 then p_return V3_IdentifierRejected
       else if return_code = 3 then p_return V3_ServerUnavailable
       else if return_code = 4 then p_return V3_BadUsernamePassword
       else if return_code = 5 then p_return V3_NotAuthorized
       else p_fail Backtrack)"

section \<open>Acknowledgements of subscriptions\<close>

datatype MSubscriptionAck =
    MaximumQualityAtMostOnce
  | MaximumQualityAtLeastOnce
  | MaximumQualityExactlyOnce
  | AckFailure

fun ack_as_u8 :: "MSubscriptionAck \<Rightarrow> u8" where
  "ack_as_u8 MaximumQualityAtMostOnce = 0x00"
| "ack_as_u8 MaximumQualityAtLeastOnce = 0x01"
| "ack_as_u8 MaximumQualityExactlyOnce = 0x02"
| "ack_as_u8 AckFailure = 0x80"

definition ack_of_u8 :: "u8 \<Rightarrow> MSubscriptionAck option" where
  "ack_of_u8 data =
     (if data = 0x00 then Some MaximumQualityAtMostOnce
      else if data = 0x01 then Some MaximumQualityAtLeastOnce
      else if data = 0x02 then Some MaximumQualityExactlyOnce
      else if data = 0x80 then Some AckFailure
      else None)"

definition msubscriptionack :: "nom \<Rightarrow> MSubscriptionAck parser" where
  "msubscriptionack N =
     p_bind (nom_u8 N) (\<lambda>data. case ack_of_u8 data of None \<Rightarrow> p_fail Backtrack | Some a \<Rightarrow> p_return a)"

text \<open>\<open>bytemuck::checked::cast_slice\<close> panics on a byte that is no variant.\<close>

definition acks_cast_slice :: "bytes \<Rightarrow> MSubscriptionAck list parser" where
  "acks_cast_slice bs =
     (case those (map ack_of_u8 bs) of None \<Rightarrow> p_fail Panicked | Some acks \<Rightarrow> p_return acks)"

definition msubscriptionacks :: "nom \<Rightarrow> MSubscriptionAck list parser" where
  "msubscriptionacks N =
     p_bind (p_take (nom_many1_count N (p_map (\<lambda>_. ()) (msubscriptionack N)))) acks_cast_slice"

definition acks_write_to :: "MSubscriptionAck list \<Rightarrow> v3_writer" where
  "acks_write_to acks = write_all (map ack_as_u8 acks)"

definition acks_get_len :: "MSubscriptionAck list \<Rightarrow> nat" where
  "acks_get_len acks = 1"

section \<open>Requests\<close>

record MSubscriptionRequest =
  request_topic :: MString
  request_qos :: MQualityOfService

definition msubscriptionrequest :: "nom \<Rightarrow> MSubscriptionRequest parser" where
  "msubscriptionrequest N =
     p_bind (mstring N) (\<lambda>topic.
     p_bind (p_try_map mquality_of_service (nom_u8 N)) (\<lambda>qos.
     p_return \<lparr>request_topic = topic, request_qos = qos\<rparr>))"

definition request_write_to :: "MSubscriptionRequest \<Rightarrow> v3_writer" where
  "request_write_to r = w_seq [MString_write_to (request_topic r), v3_qos_write_to (request_qos r)]"

text \<open>The requests are a count and the bytes they start at, with whatever follows them.\<close>

record MRequests =
  requests_count :: nat
  requests_data :: bytes

definition requests_write_to :: "MRequests \<Rightarrow> v3_writer" where
  "requests_write_to rs = write_all (requests_data rs)"

definition requests_get_len :: "MRequests \<Rightarrow> nat" where
  "requests_get_len rs = length (requests_data rs)"

text \<open>Counting the requests, for both kinds.\<close>

definition mrequests :: "nom \<Rightarrow> 'a parser \<Rightarrow> MRequests parser" where
  "mrequests N f i =
     p_bind (nom_many1_count N (p_map (\<lambda>_. ()) f))
       (\<lambda>count. p_return \<lparr>requests_count = count, requests_data = i\<rparr>) i"

definition msubscriptionrequests :: "nom \<Rightarrow> MRequests parser" where
  "msubscriptionrequests N = mrequests N (msubscriptionrequest N)"

text \<open>
  The iterators have the fields of the requests they were made from. \<open>None\<close> is the
  \<open>unreachable!()\<close> of \<open>next\<close>.
\<close>

definition requests_next :: "'a parser \<Rightarrow> MRequests \<Rightarrow> ('a option \<times> MRequests) option" where
  "requests_next f self =
     (if requests_count self = 0 then Some (None, self)
      else
        (case f (requests_data self) of
           POk request rest \<Rightarrow>
             Some (Some request,
               self\<lparr>requests_count := requests_count self - 1, requests_data := rest\<rparr>)
         | PErr e \<Rightarrow> None))"

text \<open>What a loop over the iterator gets, in at most so many rounds.\<close>

fun requests_items :: "'a parser \<Rightarrow> nat \<Rightarrow> MRequests \<Rightarrow> 'a list option" where
  "requests_items f 0 it = None"
| "requests_items f (Suc n) it =
     (case requests_next f it of
        None \<Rightarrow> None
      | Some (None, it') \<Rightarrow> Some []
      | Some (Some x, it') \<Rightarrow> map_option (Cons x) (requests_items f n it'))"

definition MSubscriptionRequests_iter :: "nom \<Rightarrow> MRequests \<Rightarrow> MSubscriptionRequest list option" where
  "MSubscriptionRequests_iter N rs = requests_items (msubscriptionrequest N) (Suc (requests_count rs)) rs"

type_synonym MUnsubscriptionRequest = MString

definition munsubscriptionrequest :: "nom \<Rightarrow> MUnsubscriptionRequest parser" where
  "munsubscriptionrequest N = mstring N"

definition munsubscriptionrequests :: "nom \<Rightarrow> MRequests parser" where
  "munsubscriptionrequests N = mrequests N (munsubscriptionrequest N)"

definition MUnsubscriptionRequests_iter :: "nom \<Rightarrow> MRequests \<Rightarrow> MUnsubscriptionRequest list option" where
  "MUnsubscriptionRequests_iter N rs = requests_items (munsubscriptionrequest N) (Suc (requests_count rs)) rs"

section \<open>The last will\<close>

record MLastWill =
  v3_will_topic :: MString
  v3_will_payload :: bytes
  v3_will_qos :: MQualityOfService
  v3_will_retain :: bool

definition MLastWill_get_len :: "MLastWill \<Rightarrow> nat" where
  "MLastWill_get_len w = MString_get_len (v3_will_topic w) + (2 + length (v3_will_payload w))"

lemmas v3_field_defs [defs] =
  write_all_def u16_be_bytes_def len_as_u16_def mquality_of_service_def v3_qos_write_to_def
  MString_get_len_def MString_write_to_def control_character_def mstring_def mpayload_def
  mpacketidentifier_def identifier_write_to_def identifier_get_len_def mconnectreturn_def
  ack_of_u8_def msubscriptionack_def acks_cast_slice_def msubscriptionacks_def acks_write_to_def
  acks_get_len_def msubscriptionrequest_def request_write_to_def requests_write_to_def
  requests_get_len_def requests_next_def mrequests_def msubscriptionrequests_def MSubscriptionRequests_iter_def
  munsubscriptionrequest_def munsubscriptionrequests_def MUnsubscriptionRequests_iter_def
  MLastWill_get_len_def p_and_then_def

section \<open>Lemmas\<close>

subsection \<open>Writers\<close>

text \<open>A string both sides accept: UTF-8, no control characters, at most 65535 bytes.\<close>

definition mstring_ok :: "MString \<Rightarrow> bool" where
  "mstring_ok s \<longleftrightarrow>
     length s \<le> 65535 \<and>
     (case utf8_chars s of None \<Rightarrow> False | Some cs \<Rightarrow> \<not> list_ex control_character cs)"

lemma mstring_ok_code [code]:
  "mstring_ok s \<longleftrightarrow> int (length s) \<le> 65535 \<and>
     (case utf8_chars s of None \<Rightarrow> False | Some cs \<Rightarrow> \<not> list_ex control_character cs)"
  by (simp only: mstring_ok_def nat_le_numeral)

lemma writes_all [writes_intros]: "writes (write_all bs) bs"
  by (simp add: writes_def write_all_def)

lemma u16_be_bytes [simp]: "u16_be_bytes u = enc_u16 u"
  by (simp add: u16_be_bytes_def enc_u16_def)

lemma writes_mstring [writes_intros]: "writes (MString_write_to s) (enc_data s)"
  unfolding MString_write_to_def enc_data_def len_as_u16_def u16_be_bytes
  by (intro writes_Cons writes_one writes_all)

lemma writes_identifier [writes_intros]: "writes (identifier_write_to i) (enc_u16 i)"
  unfolding identifier_write_to_def u16_be_bytes by (rule writes_all)

lemma writes_v3_qos [writes_intros]: "writes (v3_qos_write_to q) [v3_qos_to_byte q]"
  by (cases q) (simp_all add: v3_qos_write_to_def writes_all)

lemma mquality_of_service_to [simp]: "mquality_of_service (v3_qos_to_byte q) = Some q"
  by (cases q) (simp_all add: mquality_of_service_def)

lemma mquality_of_service_Some: "mquality_of_service b = Some q \<longleftrightarrow> b = v3_qos_to_byte q"
  by (cases q) (auto simp: mquality_of_service_def)

lemma ack_of_u8_as [simp]: "ack_of_u8 (ack_as_u8 a) = Some a"
  by (cases a) (simp_all add: ack_of_u8_def)

lemma ack_of_u8_Some: "ack_of_u8 b = Some a \<Longrightarrow> b = ack_as_u8 a"
  by (auto simp: ack_of_u8_def split: if_splits)

subsection \<open>Parsers\<close>

context nom_spec begin

lemma be_u16_enc: "nom_be_u16 N (enc_u16 u @ r) = POk u r"
  by (simp add: enc_u16_def be_u16_Cons word_cat_halves_u16)

lemma identifier_enc: "mpacketidentifier N (enc_u16 u @ r) = POk u r"
  by (simp add: mpacketidentifier_def be_u16_enc)

lemma mpayload_enc: "length s \<le> 65535 \<Longrightarrow> mpayload N (enc_data s @ r) = POk s r"
  by (simp add: mpayload_def p_bind_def enc_data_def be_u16_enc take unat_of_nat)

lemma mstring_enc: "mstring_ok s \<Longrightarrow> mstring N (enc_data s @ r) = POk s r"
  using mpayload_enc [of s r]
  by (auto simp: mstring_def mpayload_def p_try_map_def mstring_ok_def from_utf8_def utf8_valid_def
      split: option.splits)

lemma mpayload_strict [nom_intros]: "nom_strict (mpayload N)"
  unfolding mpayload_def by (intro nom_intros)

lemma mstring_strict [nom_intros]: "nom_strict (mstring N)"
  unfolding mstring_def by (intro nom_intros)

lemma identifier_strict [nom_intros]: "nom_strict (mpacketidentifier N)"
  unfolding mpacketidentifier_def by (intro nom_intros)

lemma mconnectreturn_strict [nom_intros]: "nom_strict (mconnectreturn N)"
  unfolding mconnectreturn_def by (intro nom_intros)

lemma mconnectreturn_enc: "mconnectreturn N (connect_return_as_u8 c # r) = POk c r"
  by (cases c) (simp_all add: mconnectreturn_def p_bind_def u8_Cons p_return_def)

lemma msubscriptionack_strict [nom_intros]: "nom_strict (msubscriptionack N)"
  unfolding msubscriptionack_def by (intro nom_intros)

lemma msubscriptionrequest_strict [nom_intros]: "nom_strict (msubscriptionrequest N)"
  unfolding msubscriptionrequest_def by (intro nom_intros nom_strict_ok [OF u8_strict])

lemma munsubscriptionrequest_strict [nom_intros]: "nom_strict (munsubscriptionrequest N)"
  unfolding munsubscriptionrequest_def by (intro nom_intros)

text \<open>Values read one after the other to the end of the input are counted.\<close>

lemma count_pieces:
  assumes "nom_strict f" and "pieces f xs i"
  shows "count_items (length i) (p_map (\<lambda>_. ()) f) i = (length xs, [])"
  using assms(2)
proof (induction rule: pieces.induct)
  case Nil
  then show ?case by simp
next
  case (Cons i x r xs)
  then have "p_map (\<lambda>_. ()) f i = POk () r" by (simp add: p_map_def)
  from count_items_step [OF nom_unit [OF assms(1)] this] Cons.IH show ?case by simp
qed

lemma many1_count_pieces:
  assumes "nom_strict f" and "pieces f xs i" and "xs \<noteq> []"
  shows "nom_many1_count N (p_map (\<lambda>_. ()) f) i = POk (length xs) []"
proof -
  note s = nom_unit [OF assms(1)]
  show ?thesis
    using many1_count_nom [OF s, of i] count_pieces [OF assms(1,2)] assms(3)
    by simp
qed

lemma mrequests_pieces:
  assumes "nom_strict f" and "pieces f xs i" and "xs \<noteq> []"
  shows "mrequests N f i = POk \<lparr>requests_count = length xs, requests_data = i\<rparr> []"
  by (simp add: mrequests_def p_bind_def p_return_def many1_count_pieces [OF assms])

lemma mrequests_strict: "nom_strict f \<Longrightarrow> nom_strict (mrequests N f)"
proof (rule nom_byI)
  assume f: "nom_strict f"
  note m = many1_count_strict [OF nom_unit [OF f]]
  show "strict_suffix r i" if "mrequests N f i = POk x r" for i x r
    using that by (auto simp: mrequests_def p_bind_def p_return_def split: presult.splits
        dest: nom_by_POk [OF m])
  show "e = Backtrack" if "mrequests N f i = PErr e" for i e
    using that by (auto simp: mrequests_def p_bind_def p_return_def split: presult.splits
        dest: nom_by_PErr [OF m])
qed

lemma msubscriptionrequests_strict [nom_intros]: "nom_strict (msubscriptionrequests N)"
  unfolding msubscriptionrequests_def by (intro mrequests_strict nom_intros)

lemma munsubscriptionrequests_strict [nom_intros]: "nom_strict (munsubscriptionrequests N)"
  unfolding munsubscriptionrequests_def by (intro mrequests_strict nom_intros)

text \<open>What \<open>many1_count\<close> recognizes is acknowledgements, so that the cast does not panic.\<close>

lemma ack_parse_Cons:
  "msubscriptionack N (b # r) = (case ack_of_u8 b of None \<Rightarrow> PErr Backtrack | Some a \<Rightarrow> POk a r)"
  by (simp add: msubscriptionack_def p_bind_def u8_Cons p_fail_def p_return_def split: option.split)

lemma ack_parse_Nil: "msubscriptionack N [] = PErr Backtrack"
  by (simp add: msubscriptionack_def p_bind_def u8_Nil)

lemma ack_unit:
  "p_map (\<lambda>_. ()) (msubscriptionack N) (b # r) =
     (case ack_of_u8 b of None \<Rightarrow> PErr Backtrack | Some a \<Rightarrow> POk () r)"
  "p_map (\<lambda>_. ()) (msubscriptionack N) [] = PErr Backtrack"
  by (simp_all add: p_map_def ack_parse_Cons ack_parse_Nil split: option.split)

lemma count_acks:
  "count_items n (p_map (\<lambda>_. ()) (msubscriptionack N)) i = (k, r) \<Longrightarrow>
     \<exists>acks. i = map ack_as_u8 acks @ r \<and> length acks = k"
proof (induction n arbitrary: i k r)
  case (Suc n)
  show ?case
  proof (cases i)
    case Nil
    with Suc.prems show ?thesis by (simp add: ack_unit)
  next
    case (Cons b bs)
    show ?thesis
    proof (cases "ack_of_u8 b")
      case None
      with Suc.prems Cons show ?thesis by (simp add: ack_unit)
    next
      case (Some a)
      obtain k' r' where c: "count_items n (p_map (\<lambda>_. ()) (msubscriptionack N)) bs = (k', r')"
        by fastforce
      with Suc.prems Cons Some have "k = Suc k'" "r = r'"
        by (simp_all add: ack_unit)
      moreover obtain acks where "bs = map ack_as_u8 acks @ r'" "length acks = k'"
        using Suc.IH [OF c] by blast
      ultimately show ?thesis
        using Cons ack_of_u8_Some [OF Some] by (intro exI [of _ "a # acks"]) simp
    qed
  qed
qed simp

lemma those_acks: "those (map (ack_of_u8 \<circ> ack_as_u8) acks) = Some acks"
  by (induction acks) simp_all

lemma take_acks:
  assumes "p_take (nom_many1_count N (p_map (\<lambda>_. ()) (msubscriptionack N))) i = POk bs r"
  shows "\<exists>acks. bs = map ack_as_u8 acks \<and> acks \<noteq> [] \<and> i = bs @ r"
proof -
  note s = nom_unit [OF msubscriptionack_strict]
  obtain k where k: "count_items (length i) (p_map (\<lambda>_. ()) (msubscriptionack N)) i = (k, r)" "k \<noteq> 0"
    and bs: "bs = take (length i - length r) i"
    using assms many1_count_nom [OF s, of i]
    by (auto simp: p_take_def split: presult.splits prod.splits if_splits)
  with count_acks [OF k(1)] show ?thesis by auto
qed

lemma msubscriptionacks_strict [nom_intros]: "nom_strict (msubscriptionacks N)"
proof (rule nom_byI)
  note m = nom_take_of [OF many1_count_strict [OF nom_unit [OF msubscriptionack_strict]]]
  show "strict_suffix r i" if "msubscriptionacks N i = POk x r" for i x r
    using that take_acks [of i] by (auto simp: msubscriptionacks_def p_bind_def acks_cast_slice_def
        p_return_def p_fail_def those_acks split: presult.splits option.splits dest: nom_by_POk [OF m])
  show "e = Backtrack" if "msubscriptionacks N i = PErr e" for i e
    using that by (auto simp: msubscriptionacks_def p_bind_def acks_cast_slice_def p_return_def
        those_acks split: presult.splits dest!: take_acks nom_by_PErr [OF m])
qed

lemma msubscriptionacks_enc:
  assumes "acks \<noteq> []"
  shows "msubscriptionacks N (map ack_as_u8 acks) = POk acks []"
proof -
  have "pieces (msubscriptionack N) acks (map ack_as_u8 acks)"
    by (induction acks) (auto simp: ack_parse_Cons intro: pieces.intros)
  from many1_count_pieces [OF msubscriptionack_strict this assms] show ?thesis
    by (simp add: msubscriptionacks_def p_bind_def p_take_def acks_cast_slice_def those_acks p_return_def)
qed

end

end
