(* ===== verification/V3_Header.thy ===== *)
theory V3_Header
  imports V3_Fields
begin

text \<open>
  \<open>v3/header.rs\<close>: the fixed header of MQTT 3 packets, the kind of the packet with its flags and
  the remaining length.
\<close>

section \<open>The header\<close>

datatype MPacketKind =
    Kind_Connect
  | Kind_Connack
  | Kind_Publish (kind_dup: bool) (kind_qos: MQualityOfService) (kind_retain: bool)
  | Kind_Puback
  | Kind_Pubrec
  | Kind_Pubrel
  | Kind_Pubcomp
  | Kind_Subscribe
  | Kind_Suback
  | Kind_Unsubscribe
  | Kind_Unsuback
  | Kind_Pingreq
  | Kind_Pingresp
  | Kind_Disconnect

record MPacketHeader =
  header_kind :: MPacketKind
  remaining_length :: u32

fun kind_to_byte :: "MPacketKind \<Rightarrow> u8" where
  "kind_to_byte Kind_Connect = push_bit 4 1"
| "kind_to_byte Kind_Connack = push_bit 4 2"
| "kind_to_byte (Kind_Publish dup qos retain) =
     (let upper = 0b0011;
          dup = (if dup then 0b1000 else 0);
          retain = (if retain then 1 else 0);
          qos = push_bit 1 (case qos of V3_AtMostOnce \<Rightarrow> 0b0000 | V3_AtLeastOnce \<Rightarrow> 0b0001
            | V3_ExactlyOnce \<Rightarrow> 0b0010)
      in push_bit 4 upper OR dup OR retain OR qos)"
| "kind_to_byte Kind_Puback = push_bit 4 4"
| "kind_to_byte Kind_Pubrec = push_bit 4 5"
| "kind_to_byte Kind_Pubrel = push_bit 4 6 OR 2"
| "kind_to_byte Kind_Pubcomp = push_bit 4 7"
| "kind_to_byte Kind_Subscribe = push_bit 4 8 OR 2"
| "kind_to_byte Kind_Suback = push_bit 4 9"
| "kind_to_byte Kind_Unsubscribe = push_bit 4 10 OR 2"
| "kind_to_byte Kind_Unsuback = push_bit 4 11"
| "kind_to_byte Kind_Pingreq = push_bit 4 12"
| "kind_to_byte Kind_Pingresp = push_bit 4 13"
| "kind_to_byte Kind_Disconnect = push_bit 4 14"

text \<open>The \<open>match\<close> on the two halves of the byte.\<close>

definition kind_of_halves :: "u8 \<Rightarrow> u8 \<Rightarrow> MPacketKind option" where
  "kind_of_halves upper lower =
     (if upper = 1 \<and> lower = 0 then Some Kind_Connect
      else if upper = 2 \<and> lower = 0 then Some Kind_Connack
      else if upper = 3 then
        (case mquality_of_service (drop_bit 1 (lower AND 0b0110)) of
           None \<Rightarrow> None
         | Some qos \<Rightarrow> Some (Kind_Publish (lower AND 0b1000 \<noteq> 0) qos (lower AND 0b0001 \<noteq> 0)))
      else if upper = 4 \<and> lower = 0 then Some Kind_Puback
      else if upper = 5 \<and> lower = 0 then Some Kind_Pubrec
      else if upper = 6 \<and> lower = 0b0010 then Some Kind_Pubrel
      else if upper = 7 \<and> lower = 0 then Some Kind_Pubcomp
      else if upper = 8 \<and> lower = 0b0010 then Some Kind_Subscribe
      else if upper = 9 \<and> lower = 0 then Some Kind_Suback
      else if upper = 10 \<and> lower = 0b0010 then Some Kind_Unsubscribe
      else if upper = 11 \<and> lower = 0 then Some Kind_Unsuback
      else if upper = 12 \<and> lower = 0 then Some Kind_Pingreq
      else if upper = 13 \<and> lower = 0 then Some Kind_Pingresp
      else if upper = 14 \<and> lower = 0 then Some Kind_Disconnect
      else None)"

definition mpacketkind :: "nom \<Rightarrow> MPacketKind parser" where
  "mpacketkind N =
     p_bind (nom_bits N [4, 4])
       (\<lambda>fs. case kind_of_halves (fs ! 0) (fs ! 1) of
          None \<Rightarrow> p_fail Backtrack
        | Some kind \<Rightarrow> p_return kind)"

text \<open>\<open>for (exp, val) in bytes.iter().enumerate() { output += .. }\<close>; arithmetic wraps.\<close>

fun decode_variable_loop :: "nat \<Rightarrow> u32 \<Rightarrow> bytes \<Rightarrow> u32" where
  "decode_variable_loop exp output [] = output"
| "decode_variable_loop exp output (val # vs) =
     decode_variable_loop (Suc exp) (output + (ucast val AND 0b01111111) * 128 ^ exp) vs"

definition decode_variable_length :: "bytes \<Rightarrow> u32" where
  "decode_variable_length bytes = decode_variable_loop 0 0 bytes"

definition mfixedheader :: "nom \<Rightarrow> MPacketHeader parser" where
  "mfixedheader N =
     p_bind (mpacketkind N) (\<lambda>kind.
     p_bind (p_map decode_variable_length
         (p_take (p_bind (nom_u8 N)
           (\<lambda>_. nom_take_while_m_n N 0 3 (\<lambda>b. b AND 0b10000000 \<noteq> 0)))))
       (\<lambda>remaining_length.
     p_return \<lparr>header_kind = kind, remaining_length = remaining_length\<rparr>))"

text \<open>The macro \<open>write_remaining_length\<close> of \<open>packet.rs\<close>; \<open>usize\<close> arithmetic on lengths.\<close>

definition write_remaining_length :: "nat \<Rightarrow> v3_writer" where
  "write_remaining_length len =
     (if len \<le> 127 then write_all [word_of_nat len]
      else if len \<le> 16383 then
        (let first = word_of_nat (len mod 128) OR 0b10000000;
             second = word_of_nat (len div 128)
         in write_all [first, second])
      else if len \<le> 2097151 then
        (let first = word_of_nat (len mod 128) OR 0b10000000;
             second = word_of_nat ((len div 128) mod 128) OR 0b10000000;
             third = word_of_nat (len div (128 * 128))
         in write_all [first, second, third])
      else if len \<le> 268435455 then
        (let first = word_of_nat (len mod 128) OR 0b10000000;
             second = word_of_nat ((len div 128) mod 128) OR 0b10000000;
             third = word_of_nat ((len div (128 * 128)) mod 128) OR 0b10000000;
             fourth = word_of_nat (len div (128 * 128 * 128))
         in write_all [first, second, third, fourth])
      else w_fail (InvalidSize len))"

lemmas v3_header_defs [defs] =
  kind_of_halves_def mpacketkind_def decode_variable_length_def mfixedheader_def
  write_remaining_length_def

section \<open>Lemmas\<close>

text \<open>The byte and the kind determine each other.\<close>

lemma kind_of_byte: "kind_of_halves (bits_of (kind_to_byte k) 0 4) (bits_of (kind_to_byte k) 4 4) = Some k"
proof (cases k)
  case (Kind_Publish dup qos retain)
  show ?thesis
    unfolding Kind_Publish by (cases dup; cases qos; cases retain; simp only:; code_simp)
qed (simp only:, code_simp)+

lemma kind_publish_all:
  "list_all (\<lambda>n. case kind_of_halves 3 (word_of_nat n) of
     None \<Rightarrow> True | Some k \<Rightarrow> kind_to_byte k = push_bit 4 3 OR word_of_nat n) [0..<16]"
  by code_simp

lemma kind_of_halves_byte:
  assumes "kind_of_halves (bits_of b 0 4) (bits_of b 4 4) = Some k"
  shows "kind_to_byte k = b"
proof -
  define t f where "t = bits_of b 0 4" and "f = bits_of b 4 4"
  have "kind_to_byte k = push_bit 4 t OR f"
  proof (cases "t = 3")
    case True
    have "f = take_bit 4 b" by (simp add: f_def bits_of_def)
    then have "unat f = take_bit 4 (unat b)" by (simp add: unsigned_take_bit_eq)
    then have "unat f \<in> set [0..<16]" using take_bit_nat_less_exp [of 4 "unat b"] by simp
    from bspec [OF kind_publish_all [unfolded list_all_iff] this] assms True show ?thesis
      by (simp del: set_upt push_bit_numeral add: t_def [symmetric] f_def [symmetric])
  next
    case False
    with assms show ?thesis
      by (auto simp: kind_of_halves_def t_def [symmetric] f_def [symmetric] split: if_splits)
  qed
  then show ?thesis using byte_halves [of b] by (simp add: t_def f_def)
qed

text \<open>The decoding of a length is the one of the other format.\<close>

lemma decode_variable_loop_eq: "decode_variable_loop e acc bs = var_u32_loop e acc bs"
  by (induction bs arbitrary: e acc) simp_all

lemma decode_variable_nat: "decode_variable_length bs = word_of_nat (var_nat bs)"
  by (simp add: decode_variable_length_def decode_variable_loop_eq var_u32_loop_nat)

lemma cont_byte_all: "list_all (\<lambda>m. (word_of_nat m :: u8) OR 0x80 = word_of_nat (m + 128)) [0..<128]"
  by code_simp

lemma cont_byte: "m < 128 \<Longrightarrow> (word_of_nat m :: u8) OR 0x80 = word_of_nat (m + 128)"
  by (rule bspec [OF cont_byte_all [unfolded list_all_iff]]) simp

lemma writes_remaining_length:
  assumes "len \<le> 268435455"
  shows "writes (write_remaining_length len) (var_bytes len)"
proof -
  have e: "len div 16384 = len div 128 div 128" "len div 2097152 = len div 128 div 128 div 128"
    by (simp_all add: div_mult2_eq [symmetric])
  show ?thesis
    using assms unfolding write_remaining_length_def
    by (auto simp: writes_def write_all_def var_bytes_less var_bytes_ge cont_byte Let_def e not_le
        simp del: of_nat_add)
qed

context nom_spec begin

lemma mpacketkind_Cons:
  "mpacketkind N (b # r) =
    (case kind_of_halves (bits_of b 0 4) (bits_of b 4 4) of None \<Rightarrow> PErr Backtrack | Some k \<Rightarrow> POk k r)"
  by (simp add: mpacketkind_def p_bind_def bits_Cons p_fail_def p_return_def split: option.split)

lemma mpacketkind_POk: "mpacketkind N i = POk k r \<longleftrightarrow> i = kind_to_byte k # r"
proof (cases i)
  case Nil
  then show ?thesis by (simp add: mpacketkind_def p_bind_def bits_Nil)
next
  case (Cons b i')
  have "kind_of_halves (bits_of b 0 4) (bits_of b 4 4) = Some k \<longleftrightarrow> kind_to_byte k = b"
    using kind_of_halves_byte [of b k] kind_of_byte [of k] by blast
  then show ?thesis by (auto simp: Cons mpacketkind_Cons split: option.splits)
qed

lemma mpacketkind_strict [nom_intros]: "nom_strict (mpacketkind N)"
  unfolding mpacketkind_def by (intro nom_intros) simp

lemma mfixedheader_strict [nom_intros]: "nom_strict (mfixedheader N)"
  unfolding mfixedheader_def by (intro nom_intros nom_strict_ok [OF nom_strict_bind])

text \<open>
  The length field the parser takes: the first byte, and those of the next three that have the
  continuation bit. The last byte of a longer field does not have it, and is left out.
\<close>

lemma mfixedheader_Cons:
  "mfixedheader N (kind_to_byte k # l # i) =
     (let cs = takeWhile var_cont (take 3 i)
      in POk \<lparr>header_kind = k, remaining_length = word_of_nat (var_nat (l # cs))\<rparr> (drop (length cs) i))"
proof -
  define cs where "cs = takeWhile var_cont (take 3 i)"
  have len: "length cs \<le> 3" "length cs \<le> length i"
    unfolding cs_def using length_takeWhile_le [of var_cont "take 3 i"] by simp_all
  have "take (length cs) (take 3 i) = cs"
    unfolding cs_def by (metis takeWhile_eq_take)
  with len have cs: "take (length cs) i = cs" by (simp add: min_absorb1)
  have t: "takeWhile (\<lambda>b. b AND 0b10000000 \<noteq> 0) (take 3 i) = cs"
    unfolding cs_def by (rule takeWhile_cong) (simp_all add: var_cont_def)
  show ?thesis
    using mpacketkind_POk [of "kind_to_byte k # l # i" k "l # i"]
    by (simp add: mfixedheader_def p_bind_def p_map_def p_take_def p_return_def u8_Cons
        take_while_m_n t decode_variable_nat Let_def cs_def [symmetric] Suc_diff_le len cs del: var_nat.simps)
qed

text \<open>Right for one byte, unless the byte after it has the continuation bit.\<close>

lemma mfixedheader_short:
  assumes "n < 128" and "r = [] \<or> \<not> var_cont (hd r)"
  shows "mfixedheader N (kind_to_byte k # var_bytes n @ r) =
    POk \<lparr>header_kind = k, remaining_length = word_of_nat n\<rparr> r"
proof -
  have "takeWhile var_cont (take 3 r) = []" using assms(2) by (cases r) auto
  moreover have "var_nat [word_of_nat n] = n"
    using var_nat_var_bytes [of n] assms(1) by (simp add: var_bytes_less)
  ultimately show ?thesis
    using assms(1) by (simp add: var_bytes_less mfixedheader_Cons del: var_nat.simps)
qed

lemma var_nat_bound: "length bs \<le> 4 \<Longrightarrow> var_nat bs \<le> 268435455"
  using var_nat_less [of bs] power_increasing [of "length bs" 4 "128 :: nat"] by simp

lemma mfixedheader_swallows:
  assumes "n < 128" and "r \<noteq> []" and "var_cont (hd r)"
  shows "\<exists>m r'. mfixedheader N (kind_to_byte k # var_bytes n @ r) =
      POk \<lparr>header_kind = k, remaining_length = word_of_nat m\<rparr> r' \<and>
      n \<le> m \<and> m \<le> 268435455 \<and> length r' < length r"
proof -
  define cs where "cs = takeWhile var_cont (take 3 r)"
  have "cs \<noteq> []" unfolding cs_def using assms(2,3) by (cases r) auto
  moreover have "length cs \<le> 3" unfolding cs_def
    using length_takeWhile_le [of var_cont "take 3 r"] by simp
  moreover have "n \<le> var_nat (word_of_nat n # cs)"
    using assms(1) by (simp add: unat_of_nat_u8)
  ultimately show ?thesis
    using assms(1,2) var_nat_bound [of "word_of_nat n # cs"]
    by (intro exI [of _ "var_nat (word_of_nat n # cs)"] exI [of _ "drop (length cs) r"])
      (simp add: var_bytes_less mfixedheader_Cons cs_def [symmetric] Let_def del: var_nat.simps)
qed

text \<open>Too small for more bytes.\<close>

lemma var_nat_append: "var_nat (xs @ ys) = var_nat xs + 128 ^ length xs * var_nat ys"
  by (induction xs) (simp_all add: algebra_simps)

lemma var_bytes_last: "0 < n \<Longrightarrow> last (var_bytes n) \<noteq> 0"
proof (induction n rule: var_bytes.induct)
  case (1 n)
  show ?case
  proof (cases "n < 128")
    case True
    then have "unat (word_of_nat n :: u8) = n" by (simp add: unat_of_nat_u8)
    with 1 True show ?thesis by (auto simp: var_bytes_less)
  next
    case False
    with 1 show ?thesis by (simp add: var_bytes_ge)
  qed
qed

lemma mfixedheader_long:
  assumes "128 \<le> n" and "n \<le> 268435455"
  shows "\<exists>b m. mfixedheader N (kind_to_byte k # var_bytes n @ r) =
      POk \<lparr>header_kind = k, remaining_length = word_of_nat m\<rparr> (b # r) \<and> m < n"
proof -
  obtain fr l where b: "var_bytes n = fr @ [l]" "\<forall>b\<in>set fr. var_cont b" "\<not> var_cont l"
    by (rule var_bytes_shape)
  have len: "length fr \<le> 3" "fr \<noteq> []"
    using var_bytes_length_le [of n] var_bytes_ge [of n] var_bytes_nonempty [of "n div 128"] assms b(1)
    by (auto simp del: var_bytes_nonempty)
  then obtain f fs where fr: "fr = f # fs" by (cases fr) auto
  have "takeWhile var_cont (take 3 (fs @ l # r)) = fs"
    using takeWhile_cont [of fs l r, folded var_cont_def] b len fr by simp
  then have h: "mfixedheader N (kind_to_byte k # var_bytes n @ r) =
      POk \<lparr>header_kind = k, remaining_length = word_of_nat (var_nat fr)\<rparr> (l # r)"
    by (simp add: mfixedheader_Cons b(1) fr Let_def del: var_nat.simps)
  have "l \<noteq> 0" using var_bytes_last [of n] assms(1) b(1) by simp
  moreover have "unat l < 128" using b(3) by (simp add: var_cont_def high_bit)
  ultimately have "0 < var_nat [l]" by (simp add: word_unat_eq_iff)
  then have "0 < 128 ^ length fr * var_nat [l]" by (simp del: var_nat.simps)
  moreover have "var_nat fr + 128 ^ length fr * var_nat [l] = n"
    using var_nat_var_bytes [of n] b(1) var_nat_append [of fr "[l]"] by (simp del: var_nat.simps)
  ultimately have "var_nat fr < n" by linarith
  with h show ?thesis by blast
qed

end

end
