(* ===== verification/V3_Packet.thy ===== *)
theory V3_Packet
  imports V3_Header
begin

text \<open>
  \<open>v3/packet.rs\<close>: the packets of MQTT 3, their parser \<open>mpacket\<close> and their writer
  \<open>MPacket::write_to\<close>. The names that both formats use carry the prefix \<open>V3\<close>.
\<close>

section \<open>Packets\<close>

record V3_MConnect =
  v3_protocol_name :: MString
  v3_protocol_level :: u8
  v3_clean_session :: bool
  v3_will :: "MLastWill option"
  v3_username :: "MString option"
  v3_password :: "bytes option"
  v3_keep_alive :: u16
  v3_client_id :: MString

record V3_MConnack =
  v3_session_present :: bool
  v3_connect_return_code :: MConnectReturnCode

record V3_MPublish =
  v3_dup :: bool
  v3_qos :: MQualityOfService
  v3_retain :: bool
  v3_topic_name :: MString
  v3_id :: "MPacketIdentifier option"
  v3_payload :: bytes

text \<open>The packets that consist of an identifier are constructors with this argument.\<close>

datatype MPacket =
    V3_Connect V3_MConnect
  | V3_Connack V3_MConnack
  | V3_Publish V3_MPublish
  | V3_Puback MPacketIdentifier
  | V3_Pubrec MPacketIdentifier
  | V3_Pubrel MPacketIdentifier
  | V3_Pubcomp MPacketIdentifier
  | V3_Subscribe MPacketIdentifier MRequests
  | V3_Suback MPacketIdentifier "MSubscriptionAck list"
  | V3_Unsubscribe MPacketIdentifier MRequests
  | V3_Unsuback MPacketIdentifier
  | V3_Pingreq
  | V3_Pingresp
  | V3_Disconnect

section \<open>Parsing\<close>

text \<open>The arms of \<open>mpacketdata\<close>; every early return is \<open>Err::Error\<close>.\<close>

definition mqtt_name :: MString where
  "mqtt_name = [0x4D, 0x51, 0x54, 0x54]"

definition v3_parse_will :: "nom \<Rightarrow> u8 \<Rightarrow> u8 \<Rightarrow> u8 \<Rightarrow> MLastWill option parser" where
  "v3_parse_will N will_flag will_retain will_qos =
     (if will_flag = 1 then
        p_bind (mstring N) (\<lambda>topic.
        p_bind (mpayload N) (\<lambda>payload.
        case mquality_of_service will_qos of
          None \<Rightarrow> p_fail Backtrack
        | Some qos \<Rightarrow>
            p_return (Some \<lparr>v3_will_topic = topic, v3_will_payload = payload, v3_will_qos = qos,
              v3_will_retain = (will_retain \<noteq> 0)\<rparr>)))
      else p_return None)"

definition v3_parse_connect :: "nom \<Rightarrow> MPacket parser" where
  "v3_parse_connect N =
     p_bind (mstring N) (\<lambda>protocol_name.
     if protocol_name \<noteq> mqtt_name then p_fail Backtrack else
     p_bind (nom_u8 N) (\<lambda>protocol_level.
     if protocol_level \<noteq> 4 then p_fail Backtrack else
     p_bind (nom_bits N [1, 1, 1, 2, 1, 1, 1]) (\<lambda>flags.
     let user_name_flag = flags ! 0; password_flag = flags ! 1; will_retain = flags ! 2;
         will_qos = flags ! 3; will_flag = flags ! 4; clean_session = flags ! 5; reserved = flags ! 6
     in
     if reserved \<noteq> 0 then p_fail Backtrack
     else if will_flag = 0 \<and> will_qos \<noteq> 0 then p_fail Backtrack else
     p_bind (nom_be_u16 N) (\<lambda>keep_alive.
     p_bind (mstring N) (\<lambda>client_id.
     p_bind (v3_parse_will N will_flag will_retain will_qos) (\<lambda>will.
     p_bind (if user_name_flag = 1 then p_map Some (mstring N) else p_return None) (\<lambda>username.
     p_bind (if password_flag = 1 then p_map Some (mpayload N) else p_return None) (\<lambda>password.
     p_return (V3_Connect
       \<lparr>v3_protocol_name = protocol_name, v3_protocol_level = protocol_level,
        v3_clean_session = (clean_session = 1), v3_will = will, v3_username = username,
        v3_password = password, v3_keep_alive = keep_alive, v3_client_id = client_id\<rparr>)))))))))"

definition v3_parse_connack :: "nom \<Rightarrow> MPacket parser" where
  "v3_parse_connack N =
     p_bind (nom_bits N [7, 1]) (\<lambda>fs.
     let reserved = fs ! 0; session_present = fs ! 1 in
     if reserved \<noteq> 0 then p_fail Backtrack else
     p_bind (mconnectreturn N) (\<lambda>connect_return_code.
     p_return (V3_Connack \<lparr>v3_session_present = (session_present = 1),
       v3_connect_return_code = connect_return_code\<rparr>)))"

text \<open>\<open>checked_sub\<close> on \<open>u32\<close>\<close>

definition checked_sub :: "u32 \<Rightarrow> u32 \<Rightarrow> u32 option" where
  "checked_sub a b = (if b \<le> a then Some (a - b) else None)"

definition v3_parse_publish :: "nom \<Rightarrow> u32 \<Rightarrow> bool \<Rightarrow> MQualityOfService \<Rightarrow> bool \<Rightarrow> MPacket parser" where
  "v3_parse_publish N remaining dup qos retain variable_header_start =
     p_bind (mstring N) (\<lambda>topic_name.
     p_bind (if qos \<noteq> V3_AtMostOnce then p_map Some (mpacketidentifier N) else p_return None) (\<lambda>i.
     if dup \<and> qos = V3_AtMostOnce then p_fail Backtrack
     else (\<lambda>variable_header_end.
       let variable_header_len = length variable_header_start - length variable_header_end in
       case checked_sub remaining (word_of_nat variable_header_len) of
         None \<Rightarrow> PErr Backtrack
       | Some payload_length \<Rightarrow>
           p_bind (nom_take N (unat payload_length)) (\<lambda>payload.
           p_return (V3_Publish \<lparr>v3_dup = dup, v3_qos = qos, v3_retain = retain,
             v3_topic_name = topic_name, v3_id = i, v3_payload = payload\<rparr>)) variable_header_end)))
     variable_header_start"

definition mpacketdata :: "nom \<Rightarrow> MPacketHeader \<Rightarrow> MPacket parser" where
  "mpacketdata N fixed_header =
     (case header_kind fixed_header of
        Kind_Connect \<Rightarrow> v3_parse_connect N
      | Kind_Connack \<Rightarrow> v3_parse_connack N
      | Kind_Publish dup qos retain \<Rightarrow>
          v3_parse_publish N (remaining_length fixed_header) dup qos retain
      | Kind_Puback \<Rightarrow> p_map V3_Puback (mpacketidentifier N)
      | Kind_Pubrec \<Rightarrow> p_map V3_Pubrec (mpacketidentifier N)
      | Kind_Pubrel \<Rightarrow> p_map V3_Pubrel (mpacketidentifier N)
      | Kind_Pubcomp \<Rightarrow> p_map V3_Pubcomp (mpacketidentifier N)
      | Kind_Subscribe \<Rightarrow>
          p_bind (mpacketidentifier N) (\<lambda>i. p_map (V3_Subscribe i) (msubscriptionrequests N))
      | Kind_Suback \<Rightarrow>
          p_bind (mpacketidentifier N) (\<lambda>i. p_map (V3_Suback i) (msubscriptionacks N))
      | Kind_Unsubscribe \<Rightarrow>
          p_bind (mpacketidentifier N) (\<lambda>i. p_map (V3_Unsubscribe i) (munsubscriptionrequests N))
      | Kind_Unsuback \<Rightarrow> p_map V3_Unsuback (mpacketidentifier N)
      | Kind_Pingreq \<Rightarrow> p_return V3_Pingreq
      | Kind_Pingresp \<Rightarrow> p_return V3_Pingresp
      | Kind_Disconnect \<Rightarrow> p_return V3_Disconnect)"

definition mpacket :: "nom \<Rightarrow> MPacket parser" where
  "mpacket N =
     p_bind (mfixedheader N) (\<lambda>header.
       p_and_then (nom_take N (unat (remaining_length header))) (mpacketdata N header))"

section \<open>Writing\<close>

text \<open>The bits from the most significant one on.\<close>

definition bools_to_u8 :: "bool list \<Rightarrow> u8" where
  "bools_to_u8 bools =
     push_bit 7 (if bools ! 0 then 1 else 0) OR push_bit 6 (if bools ! 1 then 1 else 0) OR
     push_bit 5 (if bools ! 2 then 1 else 0) OR push_bit 4 (if bools ! 3 then 1 else 0) OR
     push_bit 3 (if bools ! 4 then 1 else 0) OR push_bit 2 (if bools ! 5 then 1 else 0) OR
     push_bit 1 (if bools ! 6 then 1 else 0) OR (if bools ! 7 then 1 else 0)"

text \<open>\<open>as_ref().map(f).unwrap_or_default()\<close>\<close>

definition map_or_zero :: "('a \<Rightarrow> nat) \<Rightarrow> 'a option \<Rightarrow> nat" where
  "map_or_zero f x = (case x of None \<Rightarrow> 0 | Some y \<Rightarrow> f y)"

definition map_or_false :: "('a \<Rightarrow> bool) \<Rightarrow> 'a option \<Rightarrow> bool" where
  "map_or_false f x = (case x of None \<Rightarrow> False | Some y \<Rightarrow> f y)"

definition write_opt :: "('a \<Rightarrow> v3_writer) \<Rightarrow> 'a option \<Rightarrow> v3_writer" where
  "write_opt w x = (case x of None \<Rightarrow> w_seq [] | Some y \<Rightarrow> w y)"

text \<open>A length as \<open>u16\<close>, then the bytes, as for the payload of a will and for a password.\<close>

definition write_sized :: "bytes \<Rightarrow> v3_writer" where
  "write_sized bs = w_seq [write_all (u16_be_bytes (len_as_u16 bs)), write_all bs]"

definition connect_remaining_length :: "V3_MConnect \<Rightarrow> nat" where
  "connect_remaining_length c =
     10 + MString_get_len (v3_client_id c) + map_or_zero MLastWill_get_len (v3_will c) +
     map_or_zero MString_get_len (v3_username c) + map_or_zero (\<lambda>p. 2 + length p) (v3_password c)"

definition v3_connect_flags :: "V3_MConnect \<Rightarrow> u8" where
  "v3_connect_flags c =
     bools_to_u8 [
       v3_username c \<noteq> None,
       v3_password c \<noteq> None,
       map_or_false v3_will_retain (v3_will c),
       map_or_false (\<lambda>w. v3_will_qos w = V3_ExactlyOnce) (v3_will c),
       map_or_false (\<lambda>w. v3_will_qos w \<noteq> V3_ExactlyOnce) (v3_will c),
       v3_will c \<noteq> None,
       v3_clean_session c,
       False]"

definition v3_write_connect :: "V3_MConnect \<Rightarrow> v3_writer" where
  "v3_write_connect c =
     w_seq [
       write_all [0b00010000],
       write_remaining_length (connect_remaining_length c),
       MString_write_to (v3_protocol_name c),
       write_all [v3_protocol_level c],
       write_all [v3_connect_flags c],
       write_all (u16_be_bytes (v3_keep_alive c)),
       MString_write_to (v3_client_id c),
       write_opt (\<lambda>w. w_seq [MString_write_to (v3_will_topic w), write_sized (v3_will_payload w)])
         (v3_will c),
       write_opt MString_write_to (v3_username c),
       write_opt write_sized (v3_password c)]"

definition v3_write_connack :: "V3_MConnack \<Rightarrow> v3_writer" where
  "v3_write_connack c =
     w_seq [
       write_all [0b00100000],
       write_remaining_length 2,
       write_all [if v3_session_present c then 1 else 0, connect_return_as_u8 (v3_connect_return_code c)]]"

definition v3_write_publish :: "V3_MPublish \<Rightarrow> v3_writer" where
  "v3_write_publish p =
     (let dup_mask = (if v3_dup p then 0b00001000 else 0);
          qos_mask = push_bit 1 (v3_qos_to_byte (v3_qos p));
          retain_mask = (if v3_retain p then 1 else 0)
      in w_seq [
           write_all [0b00110000 OR dup_mask OR qos_mask OR retain_mask],
           write_remaining_length (MString_get_len (v3_topic_name p) +
             map_or_zero identifier_get_len (v3_id p) + length (v3_payload p)),
           MString_write_to (v3_topic_name p),
           write_opt identifier_write_to (v3_id p),
           write_all (v3_payload p)])"

text \<open>The four acknowledgements differ in their first byte only.\<close>

definition v3_write_identifier :: "u8 \<Rightarrow> MPacketIdentifier \<Rightarrow> v3_writer" where
  "v3_write_identifier packet_type i =
     w_seq [write_all [packet_type], write_remaining_length 2, identifier_write_to i]"

fun MPacket_write_to :: "MPacket \<Rightarrow> v3_writer" where
  "MPacket_write_to (V3_Connect c) = v3_write_connect c"
| "MPacket_write_to (V3_Connack c) = v3_write_connack c"
| "MPacket_write_to (V3_Publish p) = v3_write_publish p"
| "MPacket_write_to (V3_Puback i) = v3_write_identifier 0b01000000 i"
| "MPacket_write_to (V3_Pubrec i) = v3_write_identifier 0b01010000 i"
| "MPacket_write_to (V3_Pubrel i) = v3_write_identifier 0b01100010 i"
| "MPacket_write_to (V3_Pubcomp i) = v3_write_identifier 0b01110000 i"
| "MPacket_write_to (V3_Subscribe i subscriptions) =
     w_seq [
       write_all [0b10000010],
       write_remaining_length (identifier_get_len i + requests_get_len subscriptions),
       identifier_write_to i,
       requests_write_to subscriptions]"
| "MPacket_write_to (V3_Suback i acks) =
     w_seq [
       write_all [0b10010000],
       write_remaining_length (identifier_get_len i + acks_get_len acks),
       identifier_write_to i,
       acks_write_to acks]"
| "MPacket_write_to (V3_Unsubscribe i unsubscriptions) = w_panic"
| "MPacket_write_to (V3_Unsuback i) = w_panic"
| "MPacket_write_to V3_Pingreq = write_all [0b11000000, 0]"
| "MPacket_write_to V3_Pingresp = write_all [0b11010000, 0]"
| "MPacket_write_to V3_Disconnect = w_panic"

lemmas v3_packet_defs [defs] =
  mqtt_name_def v3_parse_will_def v3_parse_connect_def v3_parse_connack_def checked_sub_def
  v3_parse_publish_def mpacketdata_def mpacket_def bools_to_u8_def map_or_zero_def
  map_or_false_def write_opt_def write_sized_def connect_remaining_length_def
  v3_connect_flags_def v3_write_connect_def v3_write_connack_def v3_write_publish_def
  v3_write_identifier_def

section \<open>Totality\<close>

context nom_spec begin

lemma v3_parse_connect_strict [nom_intros]: "nom_strict (v3_parse_connect N)"
  unfolding v3_parse_connect_def v3_parse_will_def Let_def
  by (intro nom_intros nom_strict_ok [OF mstring_strict] nom_strict_ok [OF mpayload_strict]
      nom_strict_ok [OF u8_strict] nom_strict_ok [OF be_u16_strict] nom_strict_ok [OF bits_strict]
      nom_ok_bind) simp_all

lemma v3_parse_connack_strict [nom_intros]: "nom_strict (v3_parse_connack N)"
  unfolding v3_parse_connack_def Let_def
  by (intro nom_intros nom_strict_ok [OF mconnectreturn_strict]) simp_all

lemma v3_parse_publish_ok: "nom_ok (v3_parse_publish N remaining dup qos retain)"
proof -
  have end_ok: "nom_ok (\<lambda>variable_header_end.
      let variable_header_len = length start - length variable_header_end in
      case checked_sub remaining (word_of_nat variable_header_len) of
        None \<Rightarrow> PErr Backtrack
      | Some payload_length \<Rightarrow> p_bind (nom_take N (unat payload_length)) (g payload_length) variable_header_end)"
    if "\<And>n x. nom_ok (g n x)" for start :: bytes and g :: "u32 \<Rightarrow> bytes \<Rightarrow> MPacket parser"
  proof (rule nom_byI)
    have b: "nom_ok (p_bind (nom_take N (unat n)) (g n))" for n
      by (intro nom_ok_bind take_ok that)
    show "suffix r i" if "(let l = length start - length i in
        case checked_sub remaining (word_of_nat l) of None \<Rightarrow> PErr Backtrack
        | Some n \<Rightarrow> p_bind (nom_take N (unat n)) (g n) i) = POk x r" for i x r
      using that by (auto split: option.splits intro: nom_by_POk [OF b])
    show "e = Backtrack" if "(let l = length start - length i in
        case checked_sub remaining (word_of_nat l) of None \<Rightarrow> PErr Backtrack
        | Some n \<Rightarrow> p_bind (nom_take N (unat n)) (g n) i) = PErr e" for i e
      using that by (auto split: option.splits intro: nom_by_PErr [OF b])
  qed
  have start_ok: "nom_ok (\<lambda>i. f i i)" if "\<And>start. nom_ok (f start)" for f :: "bytes \<Rightarrow> MPacket parser"
    using that by (auto simp: nom_by_def)
  show ?thesis
    unfolding v3_parse_publish_def
    by (rule start_ok)
      ((rule nom_ok_bind nom_strict_ok [OF mstring_strict] nom_if nom_map
        nom_strict_ok [OF identifier_strict] nom_return nom_fail end_ok)+)
qed

lemma mpacketdata_ok: "nom_ok (mpacketdata N h)"
  by (cases "header_kind h"; simp only: mpacketdata_def MPacketKind.case;
    intro nom_map nom_ok_bind nom_return v3_parse_publish_ok nom_strict_ok [OF v3_parse_connect_strict]
      nom_strict_ok [OF v3_parse_connack_strict] nom_strict_ok [OF identifier_strict]
      nom_strict_ok [OF msubscriptionrequests_strict] nom_strict_ok [OF munsubscriptionrequests_strict]
      nom_strict_ok [OF msubscriptionacks_strict])

lemma mpacket_strict: "nom_strict (mpacket N)"
  unfolding mpacket_def
  by (intro nom_strict_bind mfixedheader_strict nom_and_then take_ok mpacketdata_ok)

text \<open>The iterators over parsed requests yield as many as were counted.\<close>

lemma requests_items_step:
  "f i = POk x r \<Longrightarrow> requests_items f (Suc n) \<lparr>requests_count = Suc k, requests_data = i\<rparr> =
     map_option (Cons x) (requests_items f n \<lparr>requests_count = k, requests_data = r\<rparr>)"
  by (simp add: requests_next_def)

lemma count_items_iter:
  "count_items n (p_map (\<lambda>_. ()) f) i = (k, r) \<Longrightarrow>
     \<exists>xs. requests_items f (Suc k) \<lparr>requests_count = k, requests_data = i\<rparr> = Some xs \<and> length xs = k"
proof (induction n arbitrary: i k r)
  case (Suc n)
  show ?case
  proof (cases "f i")
    case (POk x i')
    obtain k' r' where c: "count_items n (p_map (\<lambda>_. ()) f) i' = (k', r')" by fastforce
    moreover have "p_map (\<lambda>_. ()) f i = POk () i'" using POk by (simp add: p_map_def)
    ultimately have "k = Suc k'" using Suc.prems by simp
    with Suc.IH [OF c] POk show ?thesis by (auto simp: requests_items_step simp del: requests_items.simps)
  next
    case (PErr e)
    with Suc.prems show ?thesis by (simp add: p_map_def requests_next_def)
  qed
qed (simp add: requests_next_def)

lemma mrequests_iter:
  assumes "nom_strict f" and "mrequests N f i = POk rs r"
  shows "0 < requests_count rs \<and>
    (\<exists>xs. requests_items f (Suc (requests_count rs)) rs = Some xs \<and> length xs = requests_count rs)"
proof -
  note s = nom_unit [OF assms(1)]
  obtain k where k: "rs = \<lparr>requests_count = k, requests_data = i\<rparr>"
    "nom_many1_count N (p_map (\<lambda>_. ()) f) i = POk k r"
    using assms(2) by (auto simp: mrequests_def p_bind_def p_return_def split: presult.splits)
  with many1_count_nom [OF s, of i]
  have "0 < k \<and> count_items (length i) (p_map (\<lambda>_. ()) f) i = (k, r)"
    by (auto split: prod.splits if_splits)
  with k(1) show ?thesis using count_items_iter [of "length i" f i k r] by simp
qed

end

end
