(* ===== verification/V3_Roundtrip.thy ===== *)
theory V3_Roundtrip
  imports V3_Packet
begin

text \<open>
  What \<open>MPacket::write_to\<close> writes and what \<open>mpacket\<close> makes of it. \<open>enc_v3\<close> is the layout of
  the packets in the specification of MQTT 3.1.1, independent of both; \<open>v3_ok\<close> describes the
  packets that writer and parser agree on. It leaves out those the writer panics on, the ones it
  misrepresents (a will of quality of service 0, a SUBACK of several acknowledgements, strings that
  do not fit their length field) and those the parser refuses.
\<close>

section \<open>The layout\<close>

fun v3_kind :: "MPacket \<Rightarrow> MPacketKind" where
  "v3_kind (V3_Connect c) = Kind_Connect"
| "v3_kind (V3_Connack c) = Kind_Connack"
| "v3_kind (V3_Publish p) = Kind_Publish (v3_dup p) (v3_qos p) (v3_retain p)"
| "v3_kind (V3_Puback i) = Kind_Puback"
| "v3_kind (V3_Pubrec i) = Kind_Pubrec"
| "v3_kind (V3_Pubrel i) = Kind_Pubrel"
| "v3_kind (V3_Pubcomp i) = Kind_Pubcomp"
| "v3_kind (V3_Subscribe i rs) = Kind_Subscribe"
| "v3_kind (V3_Suback i acks) = Kind_Suback"
| "v3_kind (V3_Unsubscribe i rs) = Kind_Unsubscribe"
| "v3_kind (V3_Unsuback i) = Kind_Unsuback"
| "v3_kind V3_Pingreq = Kind_Pingreq"
| "v3_kind V3_Pingresp = Kind_Pingresp"
| "v3_kind V3_Disconnect = Kind_Disconnect"

definition enc_opt :: "('a \<Rightarrow> bytes) \<Rightarrow> 'a option \<Rightarrow> bytes" where
  "enc_opt e x = (case x of None \<Rightarrow> [] | Some y \<Rightarrow> e y)"

definition enc_will :: "MLastWill \<Rightarrow> bytes" where
  "enc_will w = enc_data (v3_will_topic w) @ enc_data (v3_will_payload w)"

text \<open>The flags of a CONNECT, by the values of their bits (3.1.2.3 of the specification).\<close>

definition v3_flag_byte :: "V3_MConnect \<Rightarrow> u8" where
  "v3_flag_byte c =
     word_of_nat
       ((if v3_username c = None then 0 else 128) + (if v3_password c = None then 0 else 64) +
        (case v3_will c of
           None \<Rightarrow> 0
         | Some w \<Rightarrow> 4 + (if v3_will_retain w then 32 else 0) +
             8 * (case v3_will_qos w of V3_AtMostOnce \<Rightarrow> 0 | V3_AtLeastOnce \<Rightarrow> 1 | V3_ExactlyOnce \<Rightarrow> 2)) +
        (if v3_clean_session c then 2 else 0))"

definition enc_v3_connect :: "V3_MConnect \<Rightarrow> bytes" where
  "enc_v3_connect c =
     enc_data (v3_protocol_name c) @ [v3_protocol_level c, v3_flag_byte c] @
     enc_u16 (v3_keep_alive c) @ enc_data (v3_client_id c) @ enc_opt enc_will (v3_will c) @
     enc_opt enc_data (v3_username c) @ enc_opt enc_data (v3_password c)"

text \<open>Variable header and payload.\<close>

fun v3_body :: "MPacket \<Rightarrow> bytes" where
  "v3_body (V3_Connect c) = enc_v3_connect c"
| "v3_body (V3_Connack c) =
     [if v3_session_present c then 1 else 0, connect_return_as_u8 (v3_connect_return_code c)]"
| "v3_body (V3_Publish p) =
     enc_data (v3_topic_name p) @ enc_opt enc_u16 (v3_id p) @ v3_payload p"
| "v3_body (V3_Puback i) = enc_u16 i"
| "v3_body (V3_Pubrec i) = enc_u16 i"
| "v3_body (V3_Pubrel i) = enc_u16 i"
| "v3_body (V3_Pubcomp i) = enc_u16 i"
| "v3_body (V3_Subscribe i rs) = enc_u16 i @ requests_data rs"
| "v3_body (V3_Suback i acks) = enc_u16 i @ map ack_as_u8 acks"
| "v3_body (V3_Unsubscribe i rs) = enc_u16 i @ requests_data rs"
| "v3_body (V3_Unsuback i) = enc_u16 i"
| "v3_body V3_Pingreq = []"
| "v3_body V3_Pingresp = []"
| "v3_body V3_Disconnect = []"

definition enc_v3 :: "MPacket \<Rightarrow> bytes" where
  "enc_v3 p = kind_to_byte (v3_kind p) # var_bytes (length (v3_body p)) @ v3_body p"

section \<open>The packets both sides agree on\<close>

definition v3_sized_ok :: "bytes \<Rightarrow> bool" where
  "v3_sized_ok bs \<longleftrightarrow> length bs \<le> 65535"

lemma v3_sized_ok_code [code]: "v3_sized_ok bs \<longleftrightarrow> int (length bs) \<le> 65535"
  by (simp only: v3_sized_ok_def nat_le_numeral)

definition v3_will_ok :: "MLastWill \<Rightarrow> bool" where
  "v3_will_ok w \<longleftrightarrow>
     mstring_ok (v3_will_topic w) \<and> v3_sized_ok (v3_will_payload w) \<and> v3_will_qos w \<noteq> V3_AtMostOnce"

definition v3_connect_ok :: "V3_MConnect \<Rightarrow> bool" where
  "v3_connect_ok c \<longleftrightarrow>
     v3_protocol_name c = mqtt_name \<and> v3_protocol_level c = 4 \<and> mstring_ok (v3_client_id c) \<and>
     pred_option v3_will_ok (v3_will c) \<and> pred_option mstring_ok (v3_username c) \<and>
     pred_option v3_sized_ok (v3_password c)"

definition v3_publish_ok :: "V3_MPublish \<Rightarrow> bool" where
  "v3_publish_ok p \<longleftrightarrow>
     mstring_ok (v3_topic_name p) \<and> (v3_id p = None \<longleftrightarrow> v3_qos p = V3_AtMostOnce) \<and>
     \<not> (v3_dup p \<and> v3_qos p = V3_AtMostOnce)"

text \<open>The bytes are requests, as many as the count says.\<close>

definition requests_ok :: "nom \<Rightarrow> MRequests \<Rightarrow> bool" where
  "requests_ok N rs \<longleftrightarrow>
     requests_count rs \<noteq> 0 \<and>
     count_items (length (requests_data rs)) (p_map (\<lambda>_. ()) (msubscriptionrequest N)) (requests_data rs) =
       (requests_count rs, [])"

fun v3_ok :: "nom \<Rightarrow> MPacket \<Rightarrow> bool" where
  "v3_ok N (V3_Connect c) = v3_connect_ok c"
| "v3_ok N (V3_Connack c) = True"
| "v3_ok N (V3_Publish p) = v3_publish_ok p"
| "v3_ok N (V3_Puback i) = True"
| "v3_ok N (V3_Pubrec i) = True"
| "v3_ok N (V3_Pubrel i) = True"
| "v3_ok N (V3_Pubcomp i) = True"
| "v3_ok N (V3_Subscribe i rs) = requests_ok N rs"
| "v3_ok N (V3_Suback i acks) = (length acks = 1)"
| "v3_ok N (V3_Unsubscribe i rs) = False"
| "v3_ok N (V3_Unsuback i) = False"
| "v3_ok N V3_Pingreq = True"
| "v3_ok N V3_Pingresp = True"
| "v3_ok N V3_Disconnect = False"

lemmas v3_ok_defs = enc_opt_def enc_will_def enc_v3_connect_def enc_v3_def v3_sized_ok_def
  v3_will_ok_def v3_connect_ok_def v3_publish_ok_def requests_ok_def

section \<open>Writing\<close>

lemma writes_sized [writes_intros]: "writes (write_sized bs) (enc_data bs)"
  unfolding write_sized_def enc_data_def len_as_u16_def u16_be_bytes
  by (intro writes_Cons writes_one writes_all)

lemma length_enc_v3_connect:
  "length (enc_v3_connect c) + 4 = length (v3_protocol_name c) + connect_remaining_length c"
  by (simp add: enc_v3_connect_def connect_remaining_length_def enc_data_def enc_u16_def
      enc_opt_def enc_will_def map_or_zero_def MString_get_len_def MLastWill_get_len_def split: option.split)

text \<open>The same as rewrite rules for a run of the writer.\<close>

lemma write_remaining_run:
  "len \<le> 268435455 \<Longrightarrow> write_remaining_length len buf = (WOk, buf @ var_bytes len)"
  by (rule writesD [OF writes_remaining_length])

lemma write_opt_run:
  "write_opt w None buf = (WOk, buf)" "write_opt w (Some y) buf = w y buf"
  by (simp_all add: write_opt_def)

lemmas v3_runs = write_remaining_run write_opt_run writesD [OF writes_all] writesD [OF writes_mstring]
  writesD [OF writes_sized] writesD [OF writes_identifier] u16_be_bytes

lemma write_remaining_fail:
  "268435455 < len \<Longrightarrow> write_remaining_length len buf = (WErr (InvalidSize len), buf)"
  by (simp add: write_remaining_length_def w_fail_def)

lemma publish_byte:
  "0b00110000 OR (if dup then 0b00001000 else 0) OR push_bit 1 (v3_qos_to_byte q) OR (if retain then 1 else 0) =
     kind_to_byte (Kind_Publish dup q retain)"
  by (cases dup; cases retain; cases q) (simp only:; code_simp)+

text \<open>
  How what is written differs from the layout: a will of quality of service 0 gets the flags of one of
  quality of service 1; the length field of a CONNECT counts four bytes for the protocol name, whatever it
  is; and that of a SUBACK counts one acknowledgement, however many there are.
\<close>

definition connect_as_written :: "V3_MConnect \<Rightarrow> V3_MConnect" where
  "connect_as_written c =
     c\<lparr>v3_will := map_option (\<lambda>w. if v3_will_qos w = V3_AtMostOnce
       then w\<lparr>v3_will_qos := V3_AtLeastOnce\<rparr> else w) (v3_will c)\<rparr>"

fun as_written :: "MPacket \<Rightarrow> MPacket" where
  "as_written (V3_Connect c) = V3_Connect (connect_as_written c)"
| "as_written p = p"

fun announced_length :: "MPacket \<Rightarrow> nat" where
  "announced_length (V3_Connect c) = length (v3_body (V3_Connect c)) + 4 - length (v3_protocol_name c)"
| "announced_length (V3_Suback i acks) = 3"
| "announced_length p = length (v3_body p)"

lemma connect_length: "connect_remaining_length c = announced_length (V3_Connect c)"
  using length_enc_v3_connect [of c] by simp

lemma publish_length:
  "MString_get_len (v3_topic_name p) + map_or_zero identifier_get_len (v3_id p) + length (v3_payload p) =
    announced_length (V3_Publish p)"
  by (cases "v3_id p") (simp_all add: MString_get_len_def map_or_zero_def identifier_get_len_def enc_opt_def)

lemma announced_lengths:
  "identifier_get_len i + requests_get_len rs = announced_length (V3_Subscribe i rs)"
  "identifier_get_len i + acks_get_len acks = announced_length (V3_Suback i acks)"
  by (simp_all add: identifier_get_len_def requests_get_len_def acks_get_len_def)

lemma connect_flags_byte: "v3_connect_flags c = v3_flag_byte (connect_as_written c)"
proof -
  have b: "v3_flag_byte (connect_as_written c) = bools_to_u8 [v3_username c \<noteq> None, v3_password c \<noteq> None,
      map_or_false v3_will_retain w, map_or_false (\<lambda>w. v3_will_qos w = V3_ExactlyOnce) w,
      map_or_false (\<lambda>w. v3_will_qos w \<noteq> V3_ExactlyOnce) w, w \<noteq> None, v3_clean_session c, False]"
    if "v3_will c = w" for w
  proof (cases w)
    case None
    with that show ?thesis
      by (cases "v3_username c"; cases "v3_password c"; cases "v3_clean_session c")
        (simp_all add: v3_flag_byte_def connect_as_written_def bools_to_u8_def map_or_false_def)
  next
    case (Some l)
    with that show ?thesis
      by (cases "v3_username c"; cases "v3_password c"; cases "v3_clean_session c";
          cases "v3_will_retain l"; cases "v3_will_qos l")
        (simp_all add: v3_flag_byte_def connect_as_written_def bools_to_u8_def map_or_false_def)
  qed
  then show ?thesis by (simp add: v3_connect_flags_def)
qed

lemma enc_connect_as_written:
  "enc_v3_connect (connect_as_written c) =
     enc_data (v3_protocol_name c) @ [v3_protocol_level c, v3_connect_flags c] @
     enc_u16 (v3_keep_alive c) @ enc_data (v3_client_id c) @ enc_opt enc_will (v3_will c) @
     enc_opt enc_data (v3_username c) @ enc_opt enc_data (v3_password c)"
  by (simp add: enc_v3_connect_def connect_flags_byte)
    (simp add: connect_as_written_def enc_opt_def enc_will_def split: option.split)

lemma as_written_ok: "v3_ok N p \<Longrightarrow> as_written p = p"
  by (cases p) (auto simp: connect_as_written_def v3_connect_ok_def v3_will_ok_def
      split: option.split intro!: V3_MConnect.equality option.map_ident_strong)

fun v3_unwritable :: "MPacket \<Rightarrow> bool" where
  "v3_unwritable (V3_Unsubscribe i rs) = True"
| "v3_unwritable (V3_Unsuback i) = True"
| "v3_unwritable V3_Disconnect = True"
| "v3_unwritable p = False"

lemma v3_write_run:
  assumes "\<not> v3_unwritable p" and "announced_length p \<le> 268435455"
  shows "MPacket_write_to p buf =
    (WOk, buf @ kind_to_byte (v3_kind p) # var_bytes (announced_length p) @ v3_body (as_written p))"
proof (cases p)
  case (V3_Connect c)
  with assms(2) show ?thesis
    unfolding V3_Connect
    by (cases "v3_will c"; cases "v3_username c"; cases "v3_password c")
      (simp_all add: v3_write_connect_def v3_runs connect_length enc_connect_as_written enc_opt_def enc_will_def
        del: announced_length.simps)
next
  case (V3_Publish q)
  with assms(2) show ?thesis
    unfolding V3_Publish MPacket_write_to.simps v3_write_publish_def Let_def publish_byte publish_length
    by (cases "v3_id q") (simp_all add: v3_runs enc_opt_def del: kind_to_byte.simps announced_length.simps)
next
  case (V3_Subscribe i rs)
  with assms(2) show ?thesis
    unfolding V3_Subscribe MPacket_write_to.simps announced_lengths
    by (simp add: v3_runs requests_write_to_def del: announced_length.simps)
next
  case (V3_Suback i acks)
  with assms(2) show ?thesis
    unfolding V3_Suback MPacket_write_to.simps announced_lengths
    by (simp add: v3_runs acks_write_to_def del: announced_length.simps)
qed (use assms in \<open>simp_all add: v3_write_identifier_def v3_write_connack_def v3_runs var_bytes_less\<close>)

lemma v3_write_long:
  assumes "\<not> v3_unwritable p" and "268435455 < announced_length p"
  shows "MPacket_write_to p buf =
    (WErr (InvalidSize (announced_length p)), buf @ [kind_to_byte (v3_kind p)])"
proof (cases p)
  case (V3_Connect c)
  with assms(2) show ?thesis
    by (simp add: v3_write_connect_def v3_runs write_remaining_fail connect_length del: announced_length.simps)
next
  case (V3_Publish q)
  with assms(2) show ?thesis
    unfolding V3_Publish MPacket_write_to.simps v3_write_publish_def Let_def publish_byte publish_length
    by (simp add: v3_runs write_remaining_fail del: kind_to_byte.simps announced_length.simps)
next
  case (V3_Subscribe i rs)
  with assms(2) show ?thesis
    unfolding V3_Subscribe MPacket_write_to.simps announced_lengths
    by (simp add: v3_runs write_remaining_fail del: announced_length.simps)
qed (use assms in simp_all)

text \<open>When the length is that of what follows; for the packets of \<open>v3_ok\<close> it is.\<close>

lemma length_connect_as_written: "length (enc_v3_connect (connect_as_written c)) = length (enc_v3_connect c)"
  unfolding enc_connect_as_written by (simp add: enc_v3_connect_def)

lemma announced_length_exact:
  "(announced_length p = length (v3_body (as_written p))) =
     (case p of
        V3_Connect c \<Rightarrow> length (v3_protocol_name c) = 4
      | V3_Suback i acks \<Rightarrow> length acks = 1
      | _ \<Rightarrow> True)"
proof (cases p)
  case (V3_Connect c)
  have "length (v3_protocol_name c) \<le> length (enc_v3_connect c)" by (simp add: enc_v3_connect_def)
  then show ?thesis by (simp add: V3_Connect length_connect_as_written) linarith
qed auto

lemma announced_length_ok: "v3_ok N p \<Longrightarrow> announced_length p = length (v3_body p)"
  using announced_length_exact [of p] as_written_ok [of N p]
  by (cases p) (simp_all add: v3_connect_ok_def mqtt_name_def)

lemma v3_write_ok:
  assumes "v3_ok N p" and "length (v3_body p) \<le> 268435455"
  shows "MPacket_write_to p buf = (WOk, buf @ enc_v3 p)"
proof -
  have "\<not> v3_unwritable p" using assms(1) by (cases p) simp_all
  with v3_write_run [of p buf] assms show ?thesis by (simp add: announced_length_ok as_written_ok enc_v3_def)
qed

lemma word_of_nat_65536: "(word_of_nat 65536 :: u16) = 0"
  by (simp add: word_of_nat_eq_0_iff)

text \<open>
  A will of quality of service 0 has the flags of one of quality of service 1.
\<close>

lemma will_qos_lost:
  "v3_connect_flags (c\<lparr>v3_will := Some (w\<lparr>v3_will_qos := V3_AtMostOnce\<rparr>)\<rparr>) =
   v3_connect_flags (c\<lparr>v3_will := Some (w\<lparr>v3_will_qos := V3_AtLeastOnce\<rparr>)\<rparr>)"
  by (simp add: v3_connect_flags_def map_or_false_def)

text \<open>A string of 65536 bytes is written with the length 0.\<close>

lemma string_length_truncated:
  "length s = 65536 \<Longrightarrow> fst (MString_write_to s []) = WOk \<and> take 2 (snd (MString_write_to s [])) = [0, 0]"
  by (simp add: writesD [OF writes_mstring] enc_data_def enc_u16_def word_of_nat_65536)

section \<open>Parsing\<close>

text \<open>The flags of CONNECT; the last bit is 0.\<close>

lemma connect_flag_fields:
  "bit_fields (bools_to_u8 [a, b, c, d, e, f, g, False]) 0 [1, 1, 1, 2, 1, 1, 1] =
     [of_bool a, of_bool b, of_bool c, 2 * of_bool d + of_bool e, of_bool f, of_bool g, 0]"
  by (cases a; cases b; cases c; cases d; cases e; cases f; cases g; simp only: of_bool_eq; code_simp)

lemma checked_sub_nat:
  "b \<le> a \<Longrightarrow> a < 2 ^ 32 \<Longrightarrow> checked_sub (word_of_nat a) (word_of_nat b) = Some (word_of_nat (a - b))"
  by (simp add: checked_sub_def word_le_nat_alt unat_of_nat of_nat_diff)

context nom_spec begin

lemma v3_parse_will_enc:
  assumes "pred_option v3_will_ok w"
  shows "v3_parse_will N (of_bool (w \<noteq> None)) (of_bool (map_or_false v3_will_retain w))
      (2 * of_bool (map_or_false (\<lambda>w. v3_will_qos w = V3_ExactlyOnce) w) +
       of_bool (map_or_false (\<lambda>w. v3_will_qos w \<noteq> V3_ExactlyOnce) w)) (enc_opt enc_will w @ r) = POk w r"
proof (cases w)
  case None
  then show ?thesis by (simp add: v3_parse_will_def p_return_def enc_opt_def)
next
  case (Some l)
  have q: "mquality_of_service (2 * of_bool (v3_will_qos l = V3_ExactlyOnce) +
      of_bool (v3_will_qos l \<noteq> V3_ExactlyOnce)) = Some (v3_will_qos l)"
    using assms Some by (cases "v3_will_qos l") (simp_all add: v3_will_ok_def mquality_of_service_def)
  show ?thesis
    using assms unfolding Some map_or_false_def option.case q v3_parse_will_def enc_opt_def
    by (simp add: v3_will_ok_def v3_sized_ok_def enc_will_def p_bind_def mstring_enc mpayload_enc q p_return_def
        split del: if_split)
qed

lemma v3_parse_connect_enc:
  assumes "v3_connect_ok c"
  shows "v3_parse_connect N (enc_v3_connect c @ r) = POk (V3_Connect c) r"
proof -
  have n: "mstring_ok mqtt_name" by code_simp
  define fu fp fr fq fw fc :: u8 where flags:
    "fu = of_bool (v3_username c \<noteq> None)" "fp = of_bool (v3_password c \<noteq> None)"
    "fr = of_bool (map_or_false v3_will_retain (v3_will c))"
    "fq = 2 * of_bool (map_or_false (\<lambda>w. v3_will_qos w = V3_ExactlyOnce) (v3_will c)) +
       of_bool (map_or_false (\<lambda>w. v3_will_qos w \<noteq> V3_ExactlyOnce) (v3_will c))"
    "fw = of_bool (v3_will c \<noteq> None)" "fc = of_bool (v3_clean_session c)"
  have "connect_as_written c = c" using as_written_ok [of N "V3_Connect c"] assms by simp
  then have "v3_flag_byte c = v3_connect_flags c" by (simp add: connect_flags_byte)
  then have f: "bit_fields (v3_flag_byte c) 0 [1, 1, 1, 2, 1, 1, 1] = [fu, fp, fr, fq, fw, fc, 0]"
    unfolding v3_connect_flags_def flags by (simp only: connect_flag_fields)
  note ok = assms [unfolded v3_connect_ok_def]
  have u: "(if fu = 1 then p_map Some (mstring N) else p_return None)
      (enc_opt enc_data (v3_username c) @ s) = POk (v3_username c) s" for s
    using ok by (cases "v3_username c")
      (simp_all add: flags enc_opt_def p_map_def p_return_def mstring_enc)
  have p: "(if fp = 1 then p_map Some (mpayload N) else p_return None)
      (enc_opt enc_data (v3_password c) @ s) = POk (v3_password c) s" for s
    using ok by (cases "v3_password c")
      (simp_all add: flags v3_sized_ok_def enc_opt_def p_map_def p_return_def mpayload_enc)
  have w: "\<not> (fw = 0 \<and> fq \<noteq> 0)"
    by (cases "v3_will c") (simp_all add: flags map_or_false_def)
  have l: "v3_parse_will N fw fr fq (enc_opt enc_will (v3_will c) @ s) = POk (v3_will c) s" for s
    unfolding flags by (rule v3_parse_will_enc) (use ok in simp)
  have c: "fc = 1 \<longleftrightarrow> v3_clean_session c" by (simp add: flags)
  show ?thesis
    unfolding v3_parse_connect_def enc_v3_connect_def append_assoc
    using ok n
    by (simp add: p_bind_def mstring_enc u8_Cons bits_Cons f be_u16_enc p_return_def Let_def c
        w l u p del: bit_fields.simps One_nat_def split del: if_split)
qed

lemma v3_parse_connack_enc:
  "v3_parse_connack N ((if sp then 1 else 0) # connect_return_as_u8 rc # r) =
     POk (V3_Connack \<lparr>v3_session_present = sp, v3_connect_return_code = rc\<rparr>) r"
  by (cases sp) (simp_all add: v3_parse_connack_def p_bind_def bits_Cons mconnectreturn_enc p_return_def
      bits_of_def Let_def)

lemma v3_parse_publish_enc:
  assumes "v3_publish_ok p" and "n = length (v3_body (V3_Publish p))" and "n \<le> 268435455"
  shows "v3_parse_publish N (word_of_nat n) (v3_dup p) (v3_qos p) (v3_retain p)
      (v3_body (V3_Publish p)) = POk (V3_Publish p) []"
proof -
  have i: "(if v3_qos p \<noteq> V3_AtMostOnce then p_map Some (mpacketidentifier N) else p_return None)
      (enc_opt enc_u16 (v3_id p) @ s) = POk (v3_id p) s" for s
    using assms(1) by (cases "v3_id p")
      (simp_all add: v3_publish_ok_def enc_opt_def p_map_def p_return_def identifier_enc)
  have c: "checked_sub (word_of_nat n) (word_of_nat (n - length (v3_payload p))) =
      Some (word_of_nat (length (v3_payload p)))"
    using assms checked_sub_nat [of "n - length (v3_payload p)" n] by simp
  have m: "mstring N (v3_body (V3_Publish p)) =
      POk (v3_topic_name p) (enc_opt enc_u16 (v3_id p) @ v3_payload p)"
    using assms(1) by (simp add: v3_publish_ok_def mstring_enc)
  have d: "(v3_dup p \<and> v3_qos p = V3_AtMostOnce) = False"
    using assms(1) by (simp add: v3_publish_ok_def)
  have t: "nom_take N (unat (word_of_nat (length (v3_payload p)) :: u32)) (v3_payload p) = POk (v3_payload p) []"
    using assms(2,3) by (simp add: take unat_of_nat)
  show ?thesis
    unfolding v3_parse_publish_def d p_bind_def m presult.case i if_False Let_def
      assms(2) [symmetric] c option.case t
    by (simp add: p_return_def)
qed

lemma mrequests_counted:
  assumes "requests_ok N rs"
  shows "msubscriptionrequests N (requests_data rs) = POk rs []"
  using assms many1_count_nom [OF nom_unit [OF msubscriptionrequest_strict], of "requests_data rs"]
  by (simp add: requests_ok_def msubscriptionrequests_def mrequests_def p_bind_def p_return_def)

lemma mpacketdata_enc:
  assumes "v3_ok N p" and "length (v3_body p) \<le> 268435455"
  shows "mpacketdata N \<lparr>header_kind = v3_kind p, remaining_length = word_of_nat (length (v3_body p))\<rparr>
      (v3_body p) = POk p []"
proof (cases p)
  case (V3_Connect c)
  with assms(1) v3_parse_connect_enc [of c "[]"] show ?thesis by (simp add: mpacketdata_def)
next
  case (V3_Connack c)
  with v3_parse_connack_enc [of "v3_session_present c" "v3_connect_return_code c" "[]"]
  show ?thesis by (simp add: mpacketdata_def)
next
  case (V3_Publish q)
  with assms v3_parse_publish_enc [OF _ refl, of q] show ?thesis by (simp add: mpacketdata_def del: v3_body.simps)
next
  case (V3_Subscribe i rs)
  with assms(1) show ?thesis
    by (simp add: mpacketdata_def p_bind_def p_map_def identifier_enc mrequests_counted)
next
  case (V3_Suback i acks)
  with assms(1) have "acks \<noteq> []" by auto
  from msubscriptionacks_enc [OF this] V3_Suback show ?thesis
    by (simp add: mpacketdata_def p_bind_def p_map_def identifier_enc)
qed (use assms identifier_enc [where r = "[]"] in
    \<open>simp_all add: mpacketdata_def p_map_def p_return_def\<close>)

text \<open>What the parser leaves behind the length field is the packet data and the rest.\<close>

lemma mpacket_leaves:
  assumes "mfixedheader N i = POk h j" and "mpacket N i = POk p r"
  shows "length j = unat (remaining_length h) + length r"
  using assms by (auto simp: mpacket_def p_bind_def p_and_then_def p_inner_def take
      split: presult.splits if_splits)

lemma mpacket_enc:
  assumes "v3_ok N p" and "length (v3_body p) < 128"
    and "v3_body p @ r = [] \<or> \<not> var_cont (hd (v3_body p @ r))"
  shows "mpacket N (enc_v3 p @ r) = POk p r"
proof -
  have "mfixedheader N (enc_v3 p @ r) =
      POk \<lparr>header_kind = v3_kind p, remaining_length = word_of_nat (length (v3_body p))\<rparr> (v3_body p @ r)"
    using mfixedheader_short [OF assms(2,3), of "v3_kind p"] by (simp add: enc_v3_def)
  then show ?thesis
    using mpacketdata_enc [OF assms(1)] assms(2)
    by (simp add: mpacket_def p_bind_def p_and_then_def p_inner_def take unat_of_nat)
qed

lemma mpacket_enc_exact:
  assumes "v3_ok N p" and "length (v3_body p) \<le> 268435455"
  shows "mpacket N (enc_v3 p @ r) = POk p r \<longleftrightarrow>
    length (v3_body p) < 128 \<and> (v3_body p @ r = [] \<or> \<not> var_cont (hd (v3_body p @ r)))"
proof (cases "length (v3_body p) < 128")
  case True
  show ?thesis
  proof (cases "v3_body p @ r = [] \<or> \<not> var_cont (hd (v3_body p @ r))")
    case False
    then obtain m r' where "mfixedheader N (enc_v3 p @ r) =
        POk \<lparr>header_kind = v3_kind p, remaining_length = word_of_nat m\<rparr> r'"
      "length (v3_body p) \<le> m" "m \<le> 268435455" "length r' < length (v3_body p @ r)"
      using mfixedheader_swallows [OF True, of "v3_body p @ r" "v3_kind p"] by (auto simp: enc_v3_def)
    with False mpacket_leaves [of "enc_v3 p @ r"] show ?thesis by (fastforce simp: unat_of_nat)
  qed (use True mpacket_enc [OF assms(1)] in blast)
next
  case False
  then obtain b m where "mfixedheader N (enc_v3 p @ r) =
      POk \<lparr>header_kind = v3_kind p, remaining_length = word_of_nat m\<rparr> (b # v3_body p @ r)"
    "m < length (v3_body p)"
    using mfixedheader_long [of "length (v3_body p)" "v3_kind p" "v3_body p @ r"] assms(2)
    by (auto simp: enc_v3_def)
  with False assms(2) mpacket_leaves [of "enc_v3 p @ r"] show ?thesis by (fastforce simp: unat_of_nat)
qed

end

section \<open>Properties\<close>

text \<open>What the parser promises of the packets it returns that hold requests.\<close>

fun requests_listed :: "nom \<Rightarrow> MPacket \<Rightarrow> bool" where
  "requests_listed N (V3_Subscribe i rs) =
     (case MSubscriptionRequests_iter N rs of
        None \<Rightarrow> False
      | Some xs \<Rightarrow> xs \<noteq> [] \<and> length xs = requests_count rs)"
| "requests_listed N (V3_Unsubscribe i rs) =
     (case MUnsubscriptionRequests_iter N rs of
        None \<Rightarrow> False
      | Some xs \<Rightarrow> xs \<noteq> [] \<and> length xs = requests_count rs)"
| "requests_listed N p = True"

context nom_spec begin

lemma requests_listed_parsed:
  assumes "mpacketdata N h i = POk p r"
  shows "requests_listed N p"
proof (cases "header_kind h")
  case Kind_Subscribe
  with assms obtain j rs i' where "p = V3_Subscribe j rs" "mrequests N (msubscriptionrequest N) i' = POk rs r"
    by (auto simp: mpacketdata_def p_bind_def p_map_def msubscriptionrequests_def split: presult.splits)
  with mrequests_iter [OF msubscriptionrequest_strict this(2)] show ?thesis
    by (auto simp: MSubscriptionRequests_iter_def)
next
  case Kind_Unsubscribe
  with assms obtain j rs i' where "p = V3_Unsubscribe j rs" "mrequests N (munsubscriptionrequest N) i' = POk rs r"
    by (auto simp: mpacketdata_def p_bind_def p_map_def munsubscriptionrequests_def split: presult.splits)
  with mrequests_iter [OF munsubscriptionrequest_strict this(2)] show ?thesis
    by (auto simp: MUnsubscriptionRequests_iter_def)
qed (use assms in \<open>auto simp: mpacketdata_def p_bind_def p_map_def p_return_def p_fail_def
    v3_parse_connect_def v3_parse_connack_def v3_parse_publish_def Let_def
    split: presult.splits if_splits option.splits\<close>)

end

definition example_v3 :: MPacket where
  "example_v3 =
     V3_Connect
       \<lparr>v3_protocol_name = mqtt_name, v3_protocol_level = 4, v3_clean_session = True,
        v3_will = Some \<lparr>v3_will_topic = [0x61], v3_will_payload = [1, 2],
          v3_will_qos = V3_ExactlyOnce, v3_will_retain = True\<rparr>,
        v3_username = Some [0x75], v3_password = None, v3_keep_alive = 60, v3_client_id = [0x63]\<rparr>"

lemma example_v3_ok: "v3_ok nom_ref example_v3" "length (v3_body example_v3) = 23"
proof -
  have "mstring_ok [0x61]" "mstring_ok [0x75]" "mstring_ok [0x63]" by code_simp+
  then show "v3_ok nom_ref example_v3"
    by (simp add: example_v3_def v3_connect_ok_def v3_will_ok_def v3_sized_ok_def)
qed code_simp

text \<open>
  C38. MQTT 3 packets are written and read back: \<open>write_to\<close> succeeds for every packet both sides
  can represent, writes the layout of the specification, and \<open>mpacket\<close> returns the packet and
  whatever follows it if and only if the packet data is shorter than 128 bytes and the byte after
  the length field is below 128. So neither a packet of 128 bytes or more nor an acknowledgement
  of an identifier from 32768 on is read back, because the parser of the length field takes
  continuation bytes up to the last byte without the flag instead of including it.
\<close>

theorem v3_roundtrip_exact:
  assumes "nom_spec N" and "v3_ok N p" and "length (v3_body p) \<le> 268435455"
  shows "MPacket_write_to p buf = (WOk, buf @ enc_v3 p) \<and>
    (mpacket N (enc_v3 p @ r) = POk p r \<longleftrightarrow>
       length (v3_body p) < 128 \<and> (v3_body p @ r = [] \<or> hd (v3_body p @ r) AND 0x80 = 0))"
  using v3_write_ok [OF assms(2,3)] nom_spec.mpacket_enc_exact [OF assms] by (simp add: var_cont_def)

theorem v3_roundtrip_exact_witness:
  "MPacket_write_to example_v3 [] = (WOk, enc_v3 example_v3) \<and>
   mpacket nom_ref (enc_v3 example_v3 @ [0xC0, 0]) = POk example_v3 [0xC0, 0] \<and>
   mpacket nom_ref (enc_v3 (V3_Puback 0x8000) @ []) \<noteq> POk (V3_Puback 0x8000) []"
proof (intro conjI)
  have h: "hd (v3_body example_v3 @ [0xC0, 0]) AND 0x80 = 0" by code_simp
  have l: "length (v3_body example_v3) \<le> 268435455" by (simp add: example_v3_ok)
  note x = v3_roundtrip_exact [OF nom_ref_spec example_v3_ok(1) l]
  show "MPacket_write_to example_v3 [] = (WOk, enc_v3 example_v3)" using x [of "[]"] by simp
  show "mpacket nom_ref (enc_v3 example_v3 @ [0xC0, 0]) = POk example_v3 [0xC0, 0]"
    using x [of "[]" "[0xC0, 0]"] h by (simp add: example_v3_ok)
  have "v3_body (V3_Puback 0x8000) = [0x80, 0]" by code_simp
  then show "mpacket nom_ref (enc_v3 (V3_Puback 0x8000) @ []) \<noteq> POk (V3_Puback 0x8000) []"
    using v3_roundtrip_exact [OF nom_ref_spec, of "V3_Puback 0x8000" "[]" "[]"] by simp
qed

text \<open>
  C39. Parsing MQTT 3 packets is total: on any input \<open>mpacket\<close> returns a packet and a proper suffix
  of the input or an ordinary error, so that the checked cast of the acknowledgements never panics;
  and the iterators over the requests of a packet it returned yield exactly as many as the packet
  counts, at least one, without reaching their \<open>unreachable!()\<close>.
\<close>

theorem v3_parse_total:
  assumes "nom_spec N"
  shows "case mpacket N i of
      POk p r \<Rightarrow> strict_suffix r i \<and> requests_listed N p
    | PErr e \<Rightarrow> e = Backtrack"
proof (cases "mpacket N i")
  case (POk p r)
  then obtain h j r' where "mpacketdata N h j = POk p r'"
    by (auto simp: mpacket_def p_bind_def p_and_then_def p_inner_def split: presult.splits)
  with nom_spec.requests_listed_parsed [OF assms this] POk show ?thesis
    by (simp add: nom_by_POk [OF nom_spec.mpacket_strict [OF assms]])
next
  case (PErr e)
  then show ?thesis by (simp add: nom_by_PErr [OF nom_spec.mpacket_strict [OF assms]])
qed

theorem v3_parse_total_witness:
  "case mpacket nom_ref [0x82, 6, 0, 1, 0, 1, 0x61, 1] of
     POk p r \<Rightarrow> strict_suffix r [0x82, 6, 0, 1, 0, 1, 0x61, 1] \<and> requests_listed nom_ref p
   | PErr e \<Rightarrow> e = Backtrack"
  by (rule v3_parse_total [OF nom_ref_spec])


end
