(* ===== verification/V3_Conversions.thy ===== *)
theory V3_Conversions
  imports V3_Packet
begin

text \<open>
  The conversions between \<open>MPacket\<close> and the structs of its variants, which the macro
  \<open>impl_conversion_packet!\<close> of \<open>v3/packet.rs\<close> generates: \<open>TryFrom\<close> into a struct, from a
  packet or from a reference to one, and \<open>From\<close> a struct. Structs with few fields are the
  arguments of their constructor. The macro is not invoked for \<open>Unsubscribe\<close>.
\<close>

section \<open>Conversions\<close>

text \<open>\<open>Err(())\<close> for any other packet.\<close>

fun V3_MConnect_try_from :: "MPacket \<Rightarrow> unit + V3_MConnect" where
  "V3_MConnect_try_from (V3_Connect v) = Inr v"
| "V3_MConnect_try_from _ = Inl ()"

fun V3_MConnack_try_from :: "MPacket \<Rightarrow> unit + V3_MConnack" where
  "V3_MConnack_try_from (V3_Connack v) = Inr v"
| "V3_MConnack_try_from _ = Inl ()"

fun V3_MPublish_try_from :: "MPacket \<Rightarrow> unit + V3_MPublish" where
  "V3_MPublish_try_from (V3_Publish v) = Inr v"
| "V3_MPublish_try_from _ = Inl ()"

fun V3_MPuback_try_from :: "MPacket \<Rightarrow> unit + MPacketIdentifier" where
  "V3_MPuback_try_from (V3_Puback v) = Inr v"
| "V3_MPuback_try_from _ = Inl ()"

fun V3_MPubrec_try_from :: "MPacket \<Rightarrow> unit + MPacketIdentifier" where
  "V3_MPubrec_try_from (V3_Pubrec v) = Inr v"
| "V3_MPubrec_try_from _ = Inl ()"

fun V3_MPubrel_try_from :: "MPacket \<Rightarrow> unit + MPacketIdentifier" where
  "V3_MPubrel_try_from (V3_Pubrel v) = Inr v"
| "V3_MPubrel_try_from _ = Inl ()"

fun V3_MPubcomp_try_from :: "MPacket \<Rightarrow> unit + MPacketIdentifier" where
  "V3_MPubcomp_try_from (V3_Pubcomp v) = Inr v"
| "V3_MPubcomp_try_from _ = Inl ()"

fun V3_MSubscribe_try_from :: "MPacket \<Rightarrow> unit + (MPacketIdentifier \<times> MRequests)" where
  "V3_MSubscribe_try_from (V3_Subscribe i rs) = Inr (i, rs)"
| "V3_MSubscribe_try_from _ = Inl ()"

fun V3_MSuback_try_from :: "MPacket \<Rightarrow> unit + (MPacketIdentifier \<times> MSubscriptionAck list)" where
  "V3_MSuback_try_from (V3_Suback i acks) = Inr (i, acks)"
| "V3_MSuback_try_from _ = Inl ()"

fun V3_MUnsuback_try_from :: "MPacket \<Rightarrow> unit + MPacketIdentifier" where
  "V3_MUnsuback_try_from (V3_Unsuback v) = Inr v"
| "V3_MUnsuback_try_from _ = Inl ()"

fun V3_MPingreq_try_from :: "MPacket \<Rightarrow> unit + unit" where
  "V3_MPingreq_try_from V3_Pingreq = Inr ()"
| "V3_MPingreq_try_from _ = Inl ()"

fun V3_MPingresp_try_from :: "MPacket \<Rightarrow> unit + unit" where
  "V3_MPingresp_try_from V3_Pingresp = Inr ()"
| "V3_MPingresp_try_from _ = Inl ()"

fun V3_MDisconnect_try_from :: "MPacket \<Rightarrow> unit + unit" where
  "V3_MDisconnect_try_from V3_Disconnect = Inr ()"
| "V3_MDisconnect_try_from _ = Inl ()"

text \<open>\<open>From\<close> is the constructor.\<close>

fun MPacket_from_connect :: "V3_MConnect \<Rightarrow> MPacket" where
  "MPacket_from_connect v = V3_Connect v"

fun MPacket_from_connack :: "V3_MConnack \<Rightarrow> MPacket" where
  "MPacket_from_connack v = V3_Connack v"

fun MPacket_from_publish :: "V3_MPublish \<Rightarrow> MPacket" where
  "MPacket_from_publish v = V3_Publish v"

fun MPacket_from_puback :: "MPacketIdentifier \<Rightarrow> MPacket" where
  "MPacket_from_puback v = V3_Puback v"

fun MPacket_from_pubrec :: "MPacketIdentifier \<Rightarrow> MPacket" where
  "MPacket_from_pubrec v = V3_Pubrec v"

fun MPacket_from_pubrel :: "MPacketIdentifier \<Rightarrow> MPacket" where
  "MPacket_from_pubrel v = V3_Pubrel v"

fun MPacket_from_pubcomp :: "MPacketIdentifier \<Rightarrow> MPacket" where
  "MPacket_from_pubcomp v = V3_Pubcomp v"

fun MPacket_from_subscribe :: "MPacketIdentifier \<times> MRequests \<Rightarrow> MPacket" where
  "MPacket_from_subscribe (i, rs) = V3_Subscribe i rs"

fun MPacket_from_suback :: "MPacketIdentifier \<times> MSubscriptionAck list \<Rightarrow> MPacket" where
  "MPacket_from_suback (i, acks) = V3_Suback i acks"

fun MPacket_from_unsuback :: "MPacketIdentifier \<Rightarrow> MPacket" where
  "MPacket_from_unsuback v = V3_Unsuback v"

fun MPacket_from_pingreq :: "unit \<Rightarrow> MPacket" where
  "MPacket_from_pingreq () = V3_Pingreq"

fun MPacket_from_pingresp :: "unit \<Rightarrow> MPacket" where
  "MPacket_from_pingresp () = V3_Pingresp"

fun MPacket_from_disconnect :: "unit \<Rightarrow> MPacket" where
  "MPacket_from_disconnect () = V3_Disconnect"

section \<open>Lemmas\<close>

text \<open>Each pair is inverse: a conversion succeeds exactly on what the other one makes.\<close>

lemma v3_try_from_iff:
  "V3_MConnect_try_from p = Inr c \<longleftrightarrow> p = MPacket_from_connect c"
  "V3_MConnack_try_from p = Inr connack \<longleftrightarrow> p = MPacket_from_connack connack"
  "V3_MPublish_try_from p = Inr publish \<longleftrightarrow> p = MPacket_from_publish publish"
  "V3_MPuback_try_from p = Inr puback \<longleftrightarrow> p = MPacket_from_puback puback"
  "V3_MPubrec_try_from p = Inr pubrec \<longleftrightarrow> p = MPacket_from_pubrec pubrec"
  "V3_MPubrel_try_from p = Inr pubrel \<longleftrightarrow> p = MPacket_from_pubrel pubrel"
  "V3_MPubcomp_try_from p = Inr pubcomp \<longleftrightarrow> p = MPacket_from_pubcomp pubcomp"
  "V3_MSubscribe_try_from p = Inr (i, rs) \<longleftrightarrow> p = MPacket_from_subscribe (i, rs)"
  "V3_MSuback_try_from p = Inr (i, acks) \<longleftrightarrow> p = MPacket_from_suback (i, acks)"
  "V3_MUnsuback_try_from p = Inr unsuback \<longleftrightarrow> p = MPacket_from_unsuback unsuback"
  "V3_MPingreq_try_from p = Inr () \<longleftrightarrow> p = MPacket_from_pingreq ()"
  "V3_MPingresp_try_from p = Inr () \<longleftrightarrow> p = MPacket_from_pingresp ()"
  "V3_MDisconnect_try_from p = Inr () \<longleftrightarrow> p = MPacket_from_disconnect ()"
  by (cases p; simp; blast?)+

end
