(* ===== verification/Unit_Tests.thy ===== *)
theory Unit_Tests
  imports Integers Topic V3_Packet
begin

text \<open>
  Unit tests of the repository, evaluated on the model: variable byte integers
  (\<open>v5/integers.rs\<close>), topics (\<open>cloudmqtt/src/topic.rs\<close>) and the MQTT 3 format
  (\<open>v3/header.rs\<close>, \<open>v3/strings.rs\<close>, \<open>v3/packet.rs\<close> and the requests and
  acknowledgements of a subscription). The tests of the state machine are in theory Client_Sessions.
\<close>

text \<open>A string literal of the tests, as its bytes.\<close>

definition str :: "string \<Rightarrow> bytes" where
  "str s = map of_char s"

section \<open>Topics\<close>

definition valid_topic_name :: "rstr \<Rightarrow> bool" where
  "valid_topic_name s = (case TopicNameBuf_new s of Inl _ \<Rightarrow> False | Inr _ \<Rightarrow> True)"

lemma valid_topic_names:
  "list_all valid_topic_name
     (map str [''sport/tennis'', ''sport/foo'', ''/'', ''/asdf'', ''asda/''])"
  by (simp add: valid_topic_name_def str_def topic_defs)

lemma invalid_topic_names:
  "list_all (\<lambda>s. \<not> valid_topic_name s)
     (map str [''sport/tennis+'', ''sport/foo#'', '''', ''/aa#'', ''#/asd'', ''foo/#/''])"
  by (simp add: valid_topic_name_def str_def topic_defs)

definition matching :: "rstr \<Rightarrow> rstr \<Rightarrow> bool" where
  "matching name flt =
     (case (TopicNameBuf_new name, TopicFilterBuf_new flt) of
        (Inr n, Inr f) \<Rightarrow> (case topic_matches n f of Return b \<Rightarrow> b | Panic \<Rightarrow> False)
      | _ \<Rightarrow> False)"

lemma check_matching:
  "list_all (\<lambda>flt. matching (str ''foo/bar'') (str flt))
     [''foo/bar'', ''foo/+'', ''+/+'', ''foo/#'', ''#'', ''foo/bar/#'']"
  by (simp add: valid_topic_name_def matching_def str_def topic_defs)

section \<open>Variable byte integers\<close>

lemma check_incomplete_parsing:
  "parse_variable_u32 winnow_ref True [0xFF] = PErr (Incomplete (Size 1))"
  "parse_variable_u32 winnow_ref True [0xFF, 0xFF, 0xFF] = PErr (Incomplete (Size 1))"
  "parse_variable_u32 winnow_ref True [0xFF, 0xFF, 0xFF, 0xFF] = PErr Backtrack"
  by code_simp+

definition var_int_test :: "bytes \<times> u32 \<Rightarrow> bool" where
  "var_int_test p \<longleftrightarrow> parse_variable_u32 winnow_ref False (fst p) = POk (snd p) []"

lemma check_variable_integers:
  "list_all var_int_test
     [([0x0], 0), ([0x7F], 127), ([0x80, 0x01], 128), ([0xFF, 0x7F], 16383),
      ([0x80, 0x80, 0x01], 16384), ([0xFF, 0xFF, 0x7F], 2097151),
      ([0x80, 0x80, 0x80, 0x01], 2097152), ([0xFF, 0xFF, 0xFF, 0x7F], 268435455)]"
  by code_simp

lemma check_variable_integer_error:
  "parse_variable_u32 winnow_ref False [0xFF, 0xFF, 0xFF, 0x8F] = PErr Backtrack"
  by code_simp

section \<open>MQTT 3\<close>

lemma check_variable_length_decoding:
  "decode_variable_length [64] = 64" "decode_variable_length [193, 2] = 321"
  by code_simp+

lemma check_header_publish_flags:
  "mfixedheader nom_ref [0b00111101, 0] =
     POk \<lparr>header_kind = Kind_Publish True V3_ExactlyOnce True, remaining_length = 0\<rparr> []"
  by code_simp

lemma check_invalid_header_publish_flags: "mfixedheader nom_ref [0b00111111, 0] = PErr Backtrack"
  by code_simp

text \<open>The two characters of the string: \<open>A\<close> and U+2A6D4.\<close>

lemma simple_string_chars:
  "utf8_chars [0x41, 0xF0, 0xAA, 0x9B, 0x94] = Some [0x41, 0x2A6D4]"
  by (simp add: utf8_chars.simps(2) utf8_cont_def second_lo_def second_hi_def low6_def)

lemma check_simple_string:
  "mstring nom_ref [0x00, 0x05, 0x41, 0xF0, 0xAA, 0x9B, 0x94] = POk [0x41, 0xF0, 0xAA, 0x9B, 0x94] []"
  by (simp add: mstring_def p_defs nom_ref.nom_simps word_cat_u16 utf8_valid_def simple_string_chars
      from_utf8_def control_character_def)

lemma check_simple_string_roundtrip:
  "MString_write_to [0x41, 0xF0, 0xAA, 0x9B, 0x94] [] = (WOk, [0x00, 0x05, 0x41, 0xF0, 0xAA, 0x9B, 0x94])"
  by code_simp

lemma check_forbidden_characters: "mstring nom_ref [0x00, 0x02, 0x00, 0x01] = PErr Backtrack"
  by code_simp

lemma test_subscription_iterator:
  "case msubscriptionrequests nom_ref [0, 3, 0x61, 0x2F, 0x62, 1, 0, 3, 0x63, 0x2F, 0x64, 2] of
     PErr e \<Rightarrow> False
   | POk subs rest \<Rightarrow> rest = [] \<and>
       MSubscriptionRequests_iter nom_ref subs =
         Some [\<lparr>request_topic = str ''a/b'', request_qos = V3_AtLeastOnce\<rparr>,
           \<lparr>request_topic = str ''c/d'', request_qos = V3_ExactlyOnce\<rparr>]"
  by code_simp

lemma check_valid_subacks:
  "msubscriptionacks nom_ref [0x1, 0x2, 0x0, 0x80] =
     POk [MaximumQualityAtLeastOnce, MaximumQualityExactlyOnce, MaximumQualityAtMostOnce, AckFailure] []"
  by code_simp

text \<open>\<open>all_consuming\<close> of a parser that stops before the second byte.\<close>

lemma check_invalid_subacks:
  "case msubscriptionacks nom_ref [0x1, 0x5] of PErr e \<Rightarrow> True | POk acks rest \<Rightarrow> rest \<noteq> []"
  by code_simp

lemma check_complete_length: "mpacket nom_ref [0b11100000, 0] = POk V3_Disconnect []"
  by code_simp

lemma check_will_consistency:
  "mpacket nom_ref ([0b00010000, 17, 0, 4] @ str ''MQTT'' @ [4, 0b00001000, 0, 0x10, 0, 5] @ str ''HELLO'') =
     PErr Backtrack"
  by code_simp

definition test_v3_connect :: V3_MConnect where
  "test_v3_connect =
     \<lparr>v3_protocol_name = str ''MQTT'', v3_protocol_level = 4, v3_clean_session = True,
      v3_will = Some \<lparr>v3_will_topic = str ''WORLD'', v3_will_payload = [0xFF],
        v3_will_qos = V3_ExactlyOnce, v3_will_retain = True\<rparr>,
      v3_username = Some (str ''ADMIN''), v3_password = Some [0xF0], v3_keep_alive = 16,
      v3_client_id = str ''HELLO''\<rparr>"

definition test_v3_connect_bytes :: bytes where
  "test_v3_connect_bytes =
     [0b00010000, 37, 0, 4] @ str ''MQTT'' @ [4, 0b11110110, 0, 0x10, 0, 5] @ str ''HELLO'' @
     [0, 5] @ str ''WORLD'' @ [0, 1, 0xFF, 0, 5] @ str ''ADMIN'' @ [0, 1, 0xF0]"

lemma check_connect_roundtrip:
  "mpacket nom_ref test_v3_connect_bytes = POk (V3_Connect test_v3_connect) []"
  "MPacket_write_to (V3_Connect test_v3_connect) [] = (WOk, test_v3_connect_bytes)"
  by code_simp+

end
